(* ===== verification/Fiq_Prelude.thy ===== *)
theory Fiq_Prelude
  imports Complex_Main "HOL-Library.Word" "HOL-Library.Multiset"
begin

text \<open>
  Shared vocabulary of the development: the types every component uses
  (identifiers, instants, results), the transaction discipline of
  \<^verbatim>\<open>internal/platform/dbtx\<close>, and the generic facts on lists that carry the
  component proofs.

  \<^item> A \<^verbatim>\<open>uuid.UUID\<close> is a 128-bit word; \<^verbatim>\<open>uuid.Nil\<close> is \<open>0\<close> and the order of its
    canonical text is the unsigned order of the word.
  \<^item> A \<^verbatim>\<open>time.Time\<close> (always UTC in this program) and a \<^verbatim>\<open>time.Duration\<close> are
    whole numbers of nanoseconds.
  \<^item> A nullable column or a Go pointer to a scalar is an \<open>option\<close>; a call that may
    fail returns a value of a sum type, \<open>Inl\<close> the error.
\<close>

type_synonym uuid = "128 word"
type_synonym instant = int
type_synonym duration = int
type_synonym ('e, 'a) result = "'e + 'a"

abbreviation nil_uuid :: uuid
  where "nil_uuid \<equiv> 0"

abbreviation Millisecond :: duration
  where "Millisecond \<equiv> 1000000"

abbreviation Second :: duration
  where "Second \<equiv> 1000000000"

abbreviation Minute :: duration
  where "Minute \<equiv> 60000000000"

abbreviation Hour :: duration
  where "Hour \<equiv> 3600000000000"

abbreviation Day :: duration
  where "Day \<equiv> 86400000000000"

named_theorems ops "unfolding of the operations of a component"
named_theorems inv_simps "unfolding of the invariants of a component"


section \<open>Results and transactions\<close>

definition rbind :: "('e, 'a) result \<Rightarrow> ('a \<Rightarrow> ('e, 'b) result) \<Rightarrow> ('e, 'b) result"
  where "rbind r k = (case r of Inl e \<Rightarrow> Inl e | Inr a \<Rightarrow> k a)"

lemma rbind_simps [simp]:
  "rbind (Inl e) k = Inl e"
  "rbind (Inr a) k = k a"
  by (simp_all add: rbind_def)

lemma rbind_Inr_iff: "rbind r k = Inr b \<longleftrightarrow> (\<exists>a. r = Inr a \<and> k a = Inr b)"
  by (cases r) simp_all

definition Run :: "('s \<Rightarrow> ('e, 'a) result \<times> 's) \<Rightarrow> 's \<Rightarrow> ('e, 'a) result \<times> 's"
  where "Run fn s = (case fn s of (Inl e, s') \<Rightarrow> (Inl e, s) | (Inr a, s') \<Rightarrow> (Inr a, s'))"

text \<open>A transaction that fails leaves the state it started from.\<close>

lemma Run_rollback: "fst (Run fn s) = Inl e \<Longrightarrow> snd (Run fn s) = s"
  by (auto simp: Run_def split: prod.splits sum.splits)

lemma Run_preserves:
  assumes "P s" and "\<And>a s'. fn s = (Inr a, s') \<Longrightarrow> P s'"
  shows "P (snd (Run fn s))"
  using assms by (auto simp: Run_def split: prod.splits sum.splits)

lemma Run_cases: "Run fn s = (r, s') \<Longrightarrow> (\<exists>e. r = Inl e \<and> s' = s) \<or> (\<exists>a. r = Inr a \<and> fn s = (Inr a, s'))"
  by (auto simp: Run_def split: prod.splits sum.splits)


section \<open>Lists\<close>

text \<open>
  \<open>sort_less lt xs\<close> is \<^verbatim>\<open>sort.SliceStable\<close>: for a strict weak order the stable sorted
  rearrangement is unique, and insertion computes it.
\<close>

fun insert_less :: "('a \<Rightarrow> 'a \<Rightarrow> bool) \<Rightarrow> 'a \<Rightarrow> 'a list \<Rightarrow> 'a list" where
  "insert_less lt x [] = [x]"
| "insert_less lt x (y # ys) = (if lt y x then y # insert_less lt x ys else x # y # ys)"

definition sort_less :: "('a \<Rightarrow> 'a \<Rightarrow> bool) \<Rightarrow> 'a list \<Rightarrow> 'a list"
  where "sort_less lt xs = foldr (insert_less lt) xs []"

lemma mset_insert_less [simp]: "mset (insert_less lt x ys) = add_mset x (mset ys)"
  by (induction ys) auto

lemma mset_sort_less [simp]: "mset (sort_less lt xs) = mset xs"
  by (induction xs) (simp_all add: sort_less_def)

lemma set_sort_less [simp]: "set (sort_less lt xs) = set xs"
  by (metis mset_sort_less set_mset_mset)

lemma length_sort_less [simp]: "length (sort_less lt xs) = length xs"
  by (metis mset_sort_less size_mset)

lemma distinct_sort_less [simp]: "distinct (sort_less lt xs) = distinct xs"
  by (metis distinct_count_atmost_1 mset_sort_less set_sort_less)

lemma sort_less_map_key:
  "mset (map f (sort_less lt xs)) = mset (map f xs)"
  by simp

text \<open>Sortedness: a later element is never \<open>lt\<close> than an earlier one.\<close>

lemma set_insert_less [simp]: "set (insert_less lt x ys) = insert x (set ys)"
  by (metis mset_insert_less set_mset_add_mset_insert set_mset_mset)

lemma sorted_insert_less:
  assumes "sorted_wrt (\<lambda>a b. \<not> lt b a) ys"
    and asym: "\<And>a b. lt a b \<Longrightarrow> \<not> lt b a"
    and trans: "\<And>a b c. \<not> lt b a \<Longrightarrow> \<not> lt c b \<Longrightarrow> \<not> lt c a"
  shows "sorted_wrt (\<lambda>a b. \<not> lt b a) (insert_less lt x ys)"
  using assms(1)
proof (induction ys)
  case (Cons y ys)
  show ?case
  proof (cases "lt y x")
    case True
    with Cons asym show ?thesis by auto
  next
    case False
    with Cons show ?thesis by (auto dest: trans [of y x])
  qed
qed simp

lemma sorted_sort_less:
  assumes "\<And>a b. lt a b \<Longrightarrow> \<not> lt b a"
    and "\<And>a b c. \<not> lt b a \<Longrightarrow> \<not> lt c b \<Longrightarrow> \<not> lt c a"
  shows "sorted_wrt (\<lambda>a b. \<not> lt b a) (sort_less lt xs)"
proof (induction xs)
  case (Cons x xs)
  from sorted_insert_less [OF Cons assms] show ?case by (simp add: sort_less_def)
qed (simp add: sort_less_def)

text \<open>
  The scan for the best element, \<^verbatim>\<open>best := xs[0]; for c in xs[1:] { if better(c, best)
  { best = c } }\<close>. Under a strict total order it finds the element nothing beats, so the
  order of the scan does not matter.
\<close>

fun best_of :: "('a \<Rightarrow> 'a \<Rightarrow> bool) \<Rightarrow> 'a \<Rightarrow> 'a list \<Rightarrow> 'a" where
  "best_of better b [] = b"
| "best_of better b (c # cs) = best_of better (if better c b then c else b) cs"

lemma best_of_in: "best_of better b cs \<in> insert b (set cs)"
  by (induction cs arbitrary: b) (auto split: if_splits)

lemma best_of_max:
  assumes "\<And>a b. better a b \<Longrightarrow> \<not> better b a"
    and "\<And>a b c. \<not> better a b \<Longrightarrow> \<not> better b c \<Longrightarrow> \<not> better a c"
    and "x \<in> insert b (set cs)"
  shows "\<not> better x (best_of better b cs)"
  using assms(3)
proof (induction cs arbitrary: b x)
  case Nil
  with assms(1) [of b b] show ?case by auto
next
  case (Cons c cs)
  let ?b = "if better c b then c else b"
  have *: "\<not> better y (best_of better ?b cs)" if "y \<in> insert ?b (set cs)" for y
    using Cons.IH that by blast
  have "\<not> better b ?b" "\<not> better c ?b"
    using assms(1) [of c b] assms(1) [of b b] assms(1) [of c c] by (auto split: if_splits)
  then have "\<not> better y (best_of better ?b cs)" if "y = b \<or> y = c" for y
    using that * [of ?b] assms(2) [of y ?b] by blast
  with Cons.prems * show ?case by auto
qed


text \<open>Distinct elements in order of first occurrence, the \<^verbatim>\<open>seen\<close>-map idiom.\<close>

definition nub :: "'a list \<Rightarrow> 'a list" where
  "nub xs = rev (remdups (rev xs))"

lemma set_nub [simp]: "set (nub xs) = set xs"
  by (simp add: nub_def)

lemma distinct_nub [simp]: "distinct (nub xs)"
  by (simp add: nub_def)

lemma unique_row: "distinct (map f xs) \<Longrightarrow> a \<in> set xs \<Longrightarrow> b \<in> set xs \<Longrightarrow> f a = f b \<Longrightarrow> a = b"
  by (auto simp: distinct_map dest: inj_onD)

text \<open>Updating every row of a table that satisfies a condition.\<close>

definition update_where :: "('r \<Rightarrow> bool) \<Rightarrow> ('r \<Rightarrow> 'r) \<Rightarrow> 'r list \<Rightarrow> 'r list" where
  "update_where c f rows = map (\<lambda>r. if c r then f r else r) rows"

lemma length_update_where [simp]: "length (update_where c f rows) = length rows"
  by (simp add: update_where_def)

lemma set_update_where:
  "set (update_where c f rows) = f ` {r \<in> set rows. c r} \<union> {r \<in> set rows. \<not> c r}"
  by (auto simp: update_where_def)

lemma map_update_where:
  assumes "\<And>r. g (f r) = g r"
  shows "map g (update_where c f rows) = map g rows"
  by (simp add: update_where_def assms)

lemma update_where_none: "\<forall>r \<in> set rows. \<not> c r \<Longrightarrow> update_where c f rows = rows"
  by (simp add: update_where_def map_idI)

text \<open>
  Fresh identifiers come from a sequence \<open>ids\<close>; \<open>fresh_ids ids a k S\<close> says that the \<open>k\<close> drawn from
  position \<open>a\<close> on are distinct and outside \<open>S\<close>.
\<close>

definition fresh_ids :: "(nat \<Rightarrow> 'i) \<Rightarrow> nat \<Rightarrow> nat \<Rightarrow> 'i set \<Rightarrow> bool" where
  "fresh_ids ids a k S \<longleftrightarrow> distinct (map (\<lambda>n. ids (a + n)) [0..<k]) \<and> (\<forall>n < k. ids (a + n) \<notin> S)"

lemma fresh_ids_head: "fresh_ids ids a (Suc k) S \<Longrightarrow> ids a \<notin> S"
  unfolding fresh_ids_def by (metis add_0_right zero_less_Suc)

lemma fresh_ids_step:
  assumes "fresh_ids ids a (Suc k) S" "S' \<subseteq> insert (ids a) S"
  shows "fresh_ids ids (Suc a) k S'"
proof -
  have d: "distinct (map (\<lambda>n. ids (a + n)) (0 # map Suc [0..<k]))"
    using assms(1) by (simp add: fresh_ids_def upt_conv_Cons map_Suc_upt del: upt_Suc)
  have "ids (Suc a + n) \<notin> S'" if "n < k" for n
  proof
    assume "ids (Suc a + n) \<in> S'"
    with assms(2) have "ids (Suc a + n) = ids a \<or> ids (Suc a + n) \<in> S" by blast
    moreover have "ids (a + Suc n) \<notin> S" using assms(1) that unfolding fresh_ids_def by blast
    moreover have "ids a \<noteq> ids (a + Suc n)" using d that by (auto simp: image_iff)
    ultimately show False by simp
  qed
  with d show ?thesis by (simp add: fresh_ids_def comp_def)
qed

lemma fresh_ids_mono: "fresh_ids ids a k S \<Longrightarrow> j \<le> k \<Longrightarrow> S' \<subseteq> S \<Longrightarrow> fresh_ids ids a j S'"
  by (auto simp: fresh_ids_def distinct_map inj_on_def)

end
