(* ===== verification/Go_Float.thy ===== *)
theory Go_Float
  imports Complex_Main Fiq_Prelude
begin

text \<open>
  Go's \<open>float64\<close>.  A finite float is modelled by the real number it denotes; every
  arithmetic operation of the source is the exact real operation followed by a rounding
  function \<open>fl\<close>, as IEEE-754 prescribes for \<open>+\<close>, \<open>-\<close>, \<open>*\<close>, \<open>/\<close> and square root.
  The components are written over an arbitrary \<open>fl\<close>; the locale \<open>rounding\<close> states what
  they rely on, and it is interpreted twice: by \<open>fl64\<close>, rounding to nearest, ties to
  even, on a 53-bit significand (the machine), and by the identity (exact arithmetic, the
  methodology's formulas).  Exponent overflow and underflow, infinities, NaN and the sign
  of zero are outside the model.
\<close>

section \<open>The interface: a rounding function\<close>

locale rounding =
  fixes fl :: "real \<Rightarrow> real"
  assumes fl_mono: "x \<le> y \<Longrightarrow> fl x \<le> fl y"
    and fl_idem: "fl (fl x) = fl x"
    and fl_0: "fl 0 = 0"
    and fl_1: "fl 1 = 1"
    and fl_neg: "fl (- x) = - fl x"

section \<open>Rounded operations\<close>

text \<open>One definition per operator of the Go source.\<close>

definition fadd :: "(real \<Rightarrow> real) \<Rightarrow> real \<Rightarrow> real \<Rightarrow> real" where
  "fadd fl x y = fl (x + y)"

definition fsub :: "(real \<Rightarrow> real) \<Rightarrow> real \<Rightarrow> real \<Rightarrow> real" where
  "fsub fl x y = fl (x - y)"

definition fmul :: "(real \<Rightarrow> real) \<Rightarrow> real \<Rightarrow> real \<Rightarrow> real" where
  "fmul fl x y = fl (x * y)"

definition fdiv :: "(real \<Rightarrow> real) \<Rightarrow> real \<Rightarrow> real \<Rightarrow> real" where
  "fdiv fl x y = fl (x / y)"

definition fsqrt :: "(real \<Rightarrow> real) \<Rightarrow> real \<Rightarrow> real" where
  "fsqrt fl x = fl (sqrt x)"

lemmas fops = fadd_def fsub_def fmul_def fdiv_def fsqrt_def

text \<open>A real is a float exactly when rounding leaves it alone.\<close>

definition is_float :: "(real \<Rightarrow> real) \<Rightarrow> real \<Rightarrow> bool" where
  "is_float fl x \<longleftrightarrow> fl x = x"

context rounding
begin

lemma fl_nonneg: "0 \<le> x \<Longrightarrow> 0 \<le> fl x"
  using fl_mono [of 0 x] by (simp add: fl_0)

lemma fl_nonpos: "x \<le> 0 \<Longrightarrow> fl x \<le> 0"
  using fl_mono [of x 0] by (simp add: fl_0)

lemma fl_le_1: "x \<le> 1 \<Longrightarrow> fl x \<le> 1"
  using fl_mono [of x 1] by (simp add: fl_1)

lemma fl_is_float: "is_float fl (fl x)"
  by (simp add: is_float_def fl_idem)

lemma is_float_0: "is_float fl 0" and is_float_1: "is_float fl 1"
  by (simp_all add: is_float_def fl_0 fl_1)

lemma is_float_neg: "is_float fl x \<Longrightarrow> is_float fl (- x)"
  by (simp add: is_float_def fl_neg)

lemma fl_le_float: "x \<le> y \<Longrightarrow> is_float fl y \<Longrightarrow> fl x \<le> y"
  using fl_mono [of x y] by (simp add: is_float_def)

lemma float_le_fl: "x \<le> y \<Longrightarrow> is_float fl x \<Longrightarrow> x \<le> fl y"
  using fl_mono [of x y] by (simp add: is_float_def)

text \<open>Adding a non-negative amount never loses ground, subtracting never gains it.\<close>

lemma fadd_ge: "is_float fl x \<Longrightarrow> 0 \<le> y \<Longrightarrow> x \<le> fadd fl x y"
  unfolding fadd_def by (rule float_le_fl) simp_all

lemma fadd_ge_right: "is_float fl y \<Longrightarrow> 0 \<le> x \<Longrightarrow> y \<le> fadd fl x y"
  unfolding fadd_def by (rule float_le_fl) simp_all

lemma fsub_le: "is_float fl x \<Longrightarrow> 0 \<le> y \<Longrightarrow> fsub fl x y \<le> x"
  unfolding fsub_def by (rule fl_le_float) simp_all

lemma fadd_nonneg: "0 \<le> x \<Longrightarrow> 0 \<le> y \<Longrightarrow> 0 \<le> fadd fl x y"
  unfolding fadd_def by (rule fl_nonneg) simp

lemma fmul_nonneg: "0 \<le> x \<Longrightarrow> 0 \<le> y \<Longrightarrow> 0 \<le> fmul fl x y"
  unfolding fmul_def by (rule fl_nonneg) simp

lemma fdiv_nonneg: "0 \<le> x \<Longrightarrow> 0 \<le> y \<Longrightarrow> 0 \<le> fdiv fl x y"
  unfolding fdiv_def by (rule fl_nonneg) simp

lemma fsqrt_nonneg: "0 \<le> x \<Longrightarrow> 0 \<le> fsqrt fl x"
  unfolding fsqrt_def by (rule fl_nonneg) simp

lemma fdiv_le_1: "0 \<le> x \<Longrightarrow> x \<le> y \<Longrightarrow> fdiv fl x y \<le> 1"
  unfolding fdiv_def by (rule fl_le_1) (auto simp: divide_le_eq_1)

lemma float_results:
  "is_float fl (fadd fl x y)" "is_float fl (fsub fl x y)" "is_float fl (fmul fl x y)"
  "is_float fl (fdiv fl x y)" "is_float fl (fsqrt fl x)"
  by (simp_all add: fops fl_is_float)

lemmas float_intros = float_results is_float_0 is_float_1
lemmas float_nonneg = fadd_nonneg fmul_nonneg fdiv_nonneg fsqrt_nonneg

end

section \<open>Exact arithmetic\<close>

definition exact :: "real \<Rightarrow> real" where
  "exact x = x"

interpretation ex: rounding exact
  by unfold_locales (simp_all add: exact_def)

lemma exact_ops [simp]:
  "fadd exact x y = x + y" "fsub exact x y = x - y" "fmul exact x y = x * y"
  "fdiv exact x y = x / y" "fsqrt exact x = sqrt x"
  by (simp_all add: fops exact_def)

section \<open>binary64: round to nearest, ties to even, 53 significant bits\<close>

definition rne :: "real \<Rightarrow> int" where
  "rne x = (let f = \<lfloor>x\<rfloor>; d = x - of_int f in
     if d < 1/2 then f else if 1/2 < d then f + 1 else if even f then f else f + 1)"

text \<open>The exponent of the last significand bit of \<open>x\<close>.\<close>

definition ulp_exp :: "real \<Rightarrow> int" where
  "ulp_exp x = \<lfloor>log 2 \<bar>x\<bar>\<rfloor> - 52"

definition fl64 :: "real \<Rightarrow> real" where
  "fl64 x = (if x = 0 then 0
     else let s = 2 powi (ulp_exp x) in of_int (rne (x / s)) * s)"

lemma rne_near: "\<bar>of_int (rne x) - x\<bar> \<le> 1/2"
  unfolding rne_def Let_def by (simp split: if_splits)

lemma rne_of_int [simp]: "rne (of_int n) = n"
  by (simp add: rne_def)

lemma rne_mono: "x \<le> y \<Longrightarrow> rne x \<le> rne y"
proof (cases "\<lfloor>x\<rfloor> = \<lfloor>y\<rfloor>")
  case True
  assume "x \<le> y"
  with True show ?thesis by (auto simp: rne_def Let_def)
next
  case False
  assume le: "x \<le> y"
  with False have "\<lfloor>x\<rfloor> + 1 \<le> \<lfloor>y\<rfloor>" using floor_mono [OF le] by linarith
  moreover have "rne x \<le> \<lfloor>x\<rfloor> + 1" "\<lfloor>y\<rfloor> \<le> rne y" by (auto simp: rne_def Let_def)
  ultimately show ?thesis by linarith
qed

lemma rne_uminus: "rne (- x) = - rne x"
proof (cases "x = of_int \<lfloor>x\<rfloor>")
  case True
  then show ?thesis by (metis rne_of_int of_int_minus)
next
  case False
  then have c: "\<lfloor>- x\<rfloor> = - \<lfloor>x\<rfloor> - 1" by linarith
  show ?thesis unfolding rne_def Let_def c by (auto simp: algebra_simps)
qed

text \<open>Positive powers of two and the binade a number lies in.\<close>

lemma powi_pos [simp]: "0 < (2::real) powi e"
  by (simp add: zero_less_power_int)

lemma binade:
  assumes "x \<noteq> 0"
  shows "2 powi (ulp_exp x + 52) \<le> \<bar>x\<bar>" and "\<bar>x\<bar> < 2 powi (ulp_exp x + 53)"
proof -
  let ?e = "\<lfloor>log 2 \<bar>x\<bar>\<rfloor>"
  have pos: "0 < \<bar>x\<bar>" using assms by simp
  have "2 powr ?e \<le> 2 powr (log 2 \<bar>x\<bar>)" by simp
  also have "\<dots> = \<bar>x\<bar>" using pos by simp
  finally show "2 powi (ulp_exp x + 52) \<le> \<bar>x\<bar>"
    by (simp add: ulp_exp_def powr_real_of_int')
  have "\<bar>x\<bar> = 2 powr (log 2 \<bar>x\<bar>)" using pos by simp
  also have "\<dots> < 2 powr (of_int (?e + 1))" by (rule powr_less_mono) linarith+
  also have "\<dots> = 2 powi (?e + 1)" by (rule powr_real_of_int') simp_all
  finally show "\<bar>x\<bar> < 2 powi (ulp_exp x + 53)"
    by (simp add: ulp_exp_def algebra_simps)
qed

lemma powi_less_cancel: "(2::real) powi a < 2 powi b \<longleftrightarrow> a < b"
proof
  show "a < b" if "(2::real) powi a < 2 powi b"
    using that power_int_increasing [of b a "2::real"] by force
  show "(2::real) powi a < 2 powi b" if "a < b"
    using that by (rule power_int_strict_increasing) simp
qed

lemma powi_le_cancel: "(2::real) powi a \<le> 2 powi b \<longleftrightarrow> a \<le> b"
  using powi_less_cancel [of b a] by (simp add: not_less [symmetric])

lemma powi_add: "(2::real) powi (a + b) = 2 powi a * 2 powi b"
  by (rule power_int_add) simp

lemma powi_numeral_add: "(2::real) powi (a + numeral n) = 2 powi a * 2 ^ numeral n"
  by (simp add: powi_add)

lemma ulp_exp_unique:
  assumes "2 powi (k + 52) \<le> \<bar>x\<bar>" and "\<bar>x\<bar> < 2 powi (k + 53)"
  shows "ulp_exp x = k"
proof -
  from assms(1) have nz: "x \<noteq> 0" by (metis abs_zero not_le powi_pos)
  have "2 powi (k + 52) < (2::real) powi (ulp_exp x + 53)"
    using assms(1) binade(2) [OF nz] by linarith
  moreover have "2 powi (ulp_exp x + 52) < (2::real) powi (k + 53)"
    using assms(2) binade(1) [OF nz] by linarith
  ultimately show ?thesis by (simp add: powi_less_cancel)
qed

text \<open>Evaluating \<open>fl64\<close> at a concrete number: name its binade.\<close>

lemma fl64_eval:
  assumes "2 powi (k + 52) \<le> \<bar>x\<bar>" and "\<bar>x\<bar> < 2 powi (k + 53)"
  shows "fl64 x = of_int (rne (x / 2 powi k)) * 2 powi k"
proof -
  from assms(1) have "x \<noteq> 0" by (metis abs_zero not_le powi_pos)
  with ulp_exp_unique [OF assms] show ?thesis by (simp add: fl64_def Let_def)
qed

lemma fl64_exact_lt:
  assumes x: "x = of_int m * 2 powi k" and m: "\<bar>m\<bar> < 2 ^ 53"
  shows "fl64 x = x"
proof (cases "x = 0")
  case True
  then show ?thesis by (simp add: fl64_def)
next
  case False
  let ?u = "ulp_exp x"
  have "real_of_int \<bar>m\<bar> < 2 ^ 53" using m by (metis of_int_less_iff of_int_numeral of_int_power)
  then have "\<bar>x\<bar> < 2 ^ 53 * 2 powi k" by (simp add: x abs_mult)
  then have "2 powi (?u + 52) < (2::real) powi (k + 53)"
    using binade(1) [OF False] by (simp add: powi_numeral_add)
  then have "?u \<le> k" by (simp add: powi_less_cancel)
  then obtain j :: nat where j: "k = ?u + int j" using zle_iff_zadd by auto
  have eq: "x = of_int (m * 2 ^ j) * 2 powi ?u"
    by (subst (1) x, subst j) (simp add: powi_add)
  then have "x / 2 powi ?u = of_int (m * 2 ^ j)" by (simp add: field_simps)
  then have "fl64 x = of_int (m * 2 ^ j) * 2 powi ?u"
    using False by (simp only: fl64_def Let_def rne_of_int if_False)
  with eq show ?thesis by simp
qed

lemma fl64_exact:
  assumes x: "x = of_int m * 2 powi k" and m: "\<bar>m\<bar> \<le> 2 ^ 53"
  shows "fl64 x = x"
proof (cases "\<bar>m\<bar> < 2 ^ 53")
  case True
  with x show ?thesis by (rule fl64_exact_lt)
next
  case False
  with m have "m = sgn m * 2 ^ 53" by (auto simp: sgn_if)
  then have "real_of_int m = of_int (sgn m * 2 ^ 53)" by (rule arg_cong)
  then have "x = of_int (sgn m * 2 ^ 52) * 2 powi (k + 1)"
    unfolding x powi_add by simp
  then show ?thesis by (rule fl64_exact_lt) (simp add: abs_mult sgn_if)
qed

lemma fl64_uminus: "fl64 (- x) = - fl64 x"
  by (simp add: fl64_def ulp_exp_def rne_uminus Let_def)

lemma fl64_form:
  assumes "0 < x"
  obtains m where "fl64 x = of_int m * 2 powi (ulp_exp x)" and "2 ^ 52 \<le> m" and "m \<le> 2 ^ 53"
proof
  let ?s = "(2::real) powi (ulp_exp x)"
  let ?m = "rne (x / ?s)"
  show "fl64 x = of_int ?m * ?s" using assms by (simp add: fl64_def Let_def)
  have b: "2 ^ 52 * ?s \<le> x" "x < 2 ^ 53 * ?s"
    using binade [of x] assms by (simp_all add: powi_numeral_add mult.commute)
  have "rne (of_int (2 ^ 52)) \<le> ?m"
    by (rule rne_mono) (use b(1) in \<open>simp add: pos_le_divide_eq\<close>)
  then show "2 ^ 52 \<le> ?m" by (simp only: rne_of_int)
  have "?m \<le> rne (of_int (2 ^ 53))"
    by (rule rne_mono) (use b(2) in \<open>simp add: pos_divide_le_eq\<close>)
  then show "?m \<le> 2 ^ 53" by (simp only: rne_of_int)
qed

lemma fl64_bounds:
  assumes "0 < x"
  shows "2 powi (ulp_exp x + 52) \<le> fl64 x" and "fl64 x \<le> 2 powi (ulp_exp x + 53)"
proof -
  obtain m where m: "fl64 x = of_int m * 2 powi (ulp_exp x)" "2 ^ 52 \<le> m" "m \<le> 2 ^ 53"
    using fl64_form [OF assms] .
  have "(2::real) ^ 52 \<le> of_int m" "of_int m \<le> (2::real) ^ 53"
    using m(2,3) by (metis of_int_le_iff of_int_numeral of_int_power)+
  then show "2 powi (ulp_exp x + 52) \<le> fl64 x" "fl64 x \<le> 2 powi (ulp_exp x + 53)"
    by (simp_all add: m(1) powi_numeral_add)
qed

lemma fl64_mono_pos:
  assumes "0 < x" and "x \<le> y"
  shows "fl64 x \<le> fl64 y"
proof (cases "ulp_exp x = ulp_exp y")
  case True
  have "rne (x / 2 powi ulp_exp y) \<le> rne (y / 2 powi ulp_exp y)"
    by (rule rne_mono) (simp add: assms divide_right_mono)
  with True assms show ?thesis by (simp add: fl64_def Let_def)
next
  case False
  from assms have "ulp_exp x \<le> ulp_exp y" by (simp add: ulp_exp_def floor_mono)
  with False have lt: "ulp_exp x + 53 \<le> ulp_exp y + 52" by linarith
  have "fl64 x \<le> 2 powi (ulp_exp x + 53)" using fl64_bounds(2) assms(1) .
  also have "\<dots> \<le> 2 powi (ulp_exp y + 52)" using lt by (simp only: powi_le_cancel)
  also have "\<dots> \<le> fl64 y" using fl64_bounds(1) assms by auto
  finally show ?thesis .
qed

lemma fl64_pos: "0 < x \<Longrightarrow> 0 < fl64 x"
  using fl64_bounds(1) [of x] by (rule less_le_trans [OF powi_pos])

lemma fl64_mono:
  assumes "x \<le> y"
  shows "fl64 x \<le> fl64 y"
proof (cases x "0::real" rule: linorder_cases)
  case greater
  then show ?thesis using assms by (rule fl64_mono_pos)
next
  case equal
  then show ?thesis using assms fl64_pos [of y] by (cases "y = 0") (auto simp: fl64_def)
next
  case less
  show ?thesis
  proof (cases "y < 0")
    case True
    then have "fl64 (- y) \<le> fl64 (- x)" using assms by (intro fl64_mono_pos) simp_all
    then show ?thesis by (simp add: fl64_uminus)
  next
    case False
    have "fl64 x \<le> 0" using fl64_pos [of "- x"] less by (simp add: fl64_uminus)
    also have "0 \<le> fl64 y" using False fl64_pos [of y] by (cases "y = 0") (auto simp: fl64_def)
    finally show ?thesis .
  qed
qed

lemma fl64_idem: "fl64 (fl64 x) = fl64 x"
proof -
  have pos: "fl64 (fl64 z) = fl64 z" if z: "0 < z" for z
  proof -
    obtain m where "fl64 z = of_int m * 2 powi (ulp_exp z)" "2 ^ 52 \<le> m" "m \<le> 2 ^ 53"
      using fl64_form [OF z] .
    then show ?thesis by (intro fl64_exact [where m = m and k = "ulp_exp z"]) auto
  qed
  show ?thesis
  proof (cases x "0::real" rule: linorder_cases)
    case less
    then show ?thesis using pos [of "- x"] by (simp add: fl64_uminus)
  next
    case equal
    then show ?thesis by (simp add: fl64_def)
  qed (rule pos)
qed

interpretation b64: rounding fl64
proof unfold_locales
  show "fl64 1 = 1" by (rule fl64_exact [where m = 1 and k = 0]) simp_all
qed (simp_all add: fl64_mono fl64_idem fl64_uminus, simp add: fl64_def)

text \<open>The conversion of a float to an integer truncates.\<close>

definition trunc_int :: "real \<Rightarrow> int" where
  "trunc_int x = (if x \<ge> 0 then \<lfloor>x\<rfloor> else \<lceil>x\<rceil>)"

end
