(* ===== verification/Eval.thy ===== *)
theory Eval
  imports Go_Float
begin

text \<open>
  The evaluation kernel, \<^verbatim>\<open>internal/analysis/eval\<close>: provenance weights, pair
  eligibility, the continuous, categorical and Brier accumulators and the confidence
  intervals. Every operation takes the rounding \<open>fl\<close> of the floating-point arithmetic
  it runs in; \<open>fl64\<close> is the arithmetic of the program and \<open>exact\<close> the real-number
  reading of its formulas. A nullable result (\<^verbatim>\<open>*float64\<close>) is an \<open>option\<close>.
\<close>

section \<open>Weights and eligibility\<close>

definition StationObservation :: string where "StationObservation = ''station_observation''"
definition Interpolated :: string where "Interpolated = ''interpolated''"
definition Reanalysis :: string where "Reanalysis = ''reanalysis''"
definition ProviderEstimated :: string where "ProviderEstimated = ''provider_estimated''"
definition QualitySuspect :: string where "QualitySuspect = ''suspect''"

lemmas observation_type_defs =
  StationObservation_def Interpolated_def Reanalysis_def ProviderEstimated_def

definition ProvenanceWeight :: "(real \<Rightarrow> real) \<Rightarrow> string \<Rightarrow> real" where
  "ProvenanceWeight fl observationType =
     (if observationType = StationObservation then fl 1
      else if observationType = Interpolated then fl 0.8
      else if observationType = Reanalysis then fl 0.8
      else if observationType = ProviderEstimated then fl 0.5
      else 0)"

definition Eligible :: "real option \<Rightarrow> real option \<Rightarrow> string \<Rightarrow> bool" where
  "Eligible forecast observed qualityFlag \<longleftrightarrow>
     forecast \<noteq> None \<and> observed \<noteq> None \<and> qualityFlag \<noteq> QualitySuspect"

definition ForecastRain :: "(real \<Rightarrow> real) \<Rightarrow> real option \<Rightarrow> real option \<Rightarrow> bool" where
  "ForecastRain fl precipProbability precipAmount =
     (if (case precipProbability of None \<Rightarrow> False | Some p \<Rightarrow> p \<ge> fl 0.5) then True
      else if (case precipAmount of None \<Rightarrow> False | Some a \<Rightarrow> a > 0) then True
      else False)"

definition ObservedRain :: "(real \<Rightarrow> real) \<Rightarrow> real option \<Rightarrow> bool" where
  "ObservedRain fl precipMM = (case precipMM of None \<Rightarrow> False | Some x \<Rightarrow> x \<ge> fl 0.1)"


section \<open>Continuous variables\<close>

record Continuous =
  sumWeight :: real
  sumWeightSqrd :: real
  sumWeightAbs :: real
  sumWeightErr :: real
  sumWeightSq :: real
  cn :: nat

definition Continuous0 :: Continuous where
  "Continuous0 = \<lparr>sumWeight = 0, sumWeightSqrd = 0, sumWeightAbs = 0, sumWeightErr = 0,
     sumWeightSq = 0, cn = 0\<rparr>"

definition Continuous_Add :: "(real \<Rightarrow> real) \<Rightarrow> real \<Rightarrow> real \<Rightarrow> real \<Rightarrow> Continuous \<Rightarrow> Continuous" where
  "Continuous_Add fl forecast observed weight c =
     (let e = fsub fl forecast observed in
      c\<lparr>sumWeight := fadd fl (sumWeight c) weight,
        sumWeightSqrd := fadd fl (sumWeightSqrd c) (fmul fl weight weight),
        sumWeightAbs := fadd fl (sumWeightAbs c) (fmul fl weight \<bar>e\<bar>),
        sumWeightErr := fadd fl (sumWeightErr c) (fmul fl weight e),
        sumWeightSq := fadd fl (sumWeightSq c) (fmul fl (fmul fl weight e) e),
        cn := cn c + 1\<rparr>)"

definition MAE :: "(real \<Rightarrow> real) \<Rightarrow> Continuous \<Rightarrow> real option" where
  "MAE fl c = (if sumWeight c = 0 then None else Some (fdiv fl (sumWeightAbs c) (sumWeight c)))"

definition RMSE :: "(real \<Rightarrow> real) \<Rightarrow> Continuous \<Rightarrow> real option" where
  "RMSE fl c = (if sumWeight c = 0 then None
     else Some (fsqrt fl (fdiv fl (sumWeightSq c) (sumWeight c))))"

definition Bias :: "(real \<Rightarrow> real) \<Rightarrow> Continuous \<Rightarrow> real option" where
  "Bias fl c = (if sumWeight c = 0 then None else Some (fdiv fl (sumWeightErr c) (sumWeight c)))"


section \<open>Precipitation occurrence\<close>

record Confusion =
  TP :: real
  FP :: real
  FN :: real
  TN :: real

definition Confusion0 :: Confusion where
  "Confusion0 = \<lparr>TP = 0, FP = 0, FN = 0, TN = 0\<rparr>"

definition Confusion_Add :: "(real \<Rightarrow> real) \<Rightarrow> bool \<Rightarrow> bool \<Rightarrow> real \<Rightarrow> Confusion \<Rightarrow> Confusion" where
  "Confusion_Add fl forecastRain observedRain weight c =
     (if forecastRain \<and> observedRain then c\<lparr>TP := fadd fl (TP c) weight\<rparr>
      else if forecastRain \<and> \<not> observedRain then c\<lparr>FP := fadd fl (FP c) weight\<rparr>
      else if \<not> forecastRain \<and> observedRain then c\<lparr>FN := fadd fl (FN c) weight\<rparr>
      else c\<lparr>TN := fadd fl (TN c) weight\<rparr>)"

definition Confusion_N :: "(real \<Rightarrow> real) \<Rightarrow> Confusion \<Rightarrow> real" where
  "Confusion_N fl c = fadd fl (fadd fl (fadd fl (TP c) (FP c)) (FN c)) (TN c)"

definition Recall :: "(real \<Rightarrow> real) \<Rightarrow> Confusion \<Rightarrow> real option" where
  "Recall fl c = (let d = fadd fl (TP c) (FN c) in
     if d = 0 then None else Some (fdiv fl (TP c) d))"

definition Precision :: "(real \<Rightarrow> real) \<Rightarrow> Confusion \<Rightarrow> real option" where
  "Precision fl c = (let d = fadd fl (TP c) (FP c) in
     if d = 0 then None else Some (fdiv fl (TP c) d))"

definition F1 :: "(real \<Rightarrow> real) \<Rightarrow> Confusion \<Rightarrow> real option" where
  "F1 fl c = (let d = fadd fl (fadd fl (fmul fl 2 (TP c)) (FP c)) (FN c) in
     if d = 0 then None else Some (fdiv fl (fmul fl 2 (TP c)) d))"

definition FalseAlarmRate :: "(real \<Rightarrow> real) \<Rightarrow> Confusion \<Rightarrow> real option" where
  "FalseAlarmRate fl c = (let d = fadd fl (FP c) (TN c) in
     if d = 0 then None else Some (fdiv fl (FP c) d))"

definition ThreatScore :: "(real \<Rightarrow> real) \<Rightarrow> Confusion \<Rightarrow> real option" where
  "ThreatScore fl c = (let d = fadd fl (fadd fl (TP c) (FP c)) (FN c) in
     if d = 0 then None else Some (fdiv fl (TP c) d))"

definition OccurrenceAgreement :: "(real \<Rightarrow> real) \<Rightarrow> Confusion \<Rightarrow> real option" where
  "OccurrenceAgreement fl c = (let n = Confusion_N fl c in
     if n = 0 then None else Some (fdiv fl (fadd fl (TP c) (TN c)) n))"


section \<open>Rain probability\<close>

record Brier =
  bsumWeight :: real
  bsumWeightSqrd :: real
  bsumWeightSq :: real
  bsumWeightQuad :: real
  bn :: nat

definition Brier0 :: Brier where
  "Brier0 = \<lparr>bsumWeight = 0, bsumWeightSqrd = 0, bsumWeightSq = 0, bsumWeightQuad = 0, bn = 0\<rparr>"

definition Brier_Add :: "(real \<Rightarrow> real) \<Rightarrow> real \<Rightarrow> bool \<Rightarrow> real \<Rightarrow> Brier \<Rightarrow> Brier" where
  "Brier_Add fl probability observedRain weight b =
     (let a = (if observedRain then 1 else 0);
          d = fsub fl probability a;
          d2 = fmul fl d d
      in b\<lparr>bsumWeight := fadd fl (bsumWeight b) weight,
           bsumWeightSqrd := fadd fl (bsumWeightSqrd b) (fmul fl weight weight),
           bsumWeightSq := fadd fl (bsumWeightSq b) (fmul fl weight d2),
           bsumWeightQuad := fadd fl (bsumWeightQuad b) (fmul fl (fmul fl weight d2) d2),
           bn := bn b + 1\<rparr>)"

definition Score :: "(real \<Rightarrow> real) \<Rightarrow> Brier \<Rightarrow> real option" where
  "Score fl b = (if bsumWeight b = 0 then None
     else Some (fdiv fl (bsumWeightSq b) (bsumWeight b)))"


section \<open>Confidence intervals\<close>

definition Wilson :: "(real \<Rightarrow> real) \<Rightarrow> real \<Rightarrow> real \<Rightarrow> real \<times> real" where
  "Wilson fl pHat n =
     (if n \<le> 0 then (0, 0)
      else
        let z2 = fl (1.96 * 1.96);
            denom = fadd fl 1 (fdiv fl z2 n);
            center = fdiv fl (fadd fl pHat (fdiv fl z2 (fmul fl 2 n))) denom;
            margin = fdiv fl (fmul fl (fl 1.96)
              (fsqrt fl (fadd fl (fdiv fl (fmul fl pHat (fsub fl 1 pHat)) n)
                                 (fdiv fl z2 (fmul fl (fmul fl 4 n) n))))) denom;
            lower0 = fsub fl center margin;
            upper0 = fadd fl center margin;
            lower1 = (if lower0 < 0 then 0 else lower0);
            upper1 = (if upper0 > 1 then 1 else upper0);
            lower = (if lower1 > pHat then pHat else lower1);
            upper = (if upper1 < pHat then pHat else upper1)
        in (lower, upper))"

definition ciFromMoments ::
  "(real \<Rightarrow> real) \<Rightarrow> real \<Rightarrow> real \<Rightarrow> real \<Rightarrow> real \<Rightarrow> real \<Rightarrow> nat \<Rightarrow> real option \<times> real option" where
  "ciFromMoments fl mean sumWx sumWx2 sumW sumWsqrd n =
     (if n < 2 \<or> sumW \<le> 0 then (None, None)
      else
        let d = fsub fl sumW (fdiv fl sumWsqrd sumW)
        in if d \<le> 0 then (None, None)
           else
             let variance0 = fdiv fl (fsub fl sumWx2 (fdiv fl (fmul fl sumWx sumWx) sumW)) d;
                 variance = (if variance0 < 0 then 0 else variance0);
                 half = fdiv fl (fmul fl (fl 1.96) (fsqrt fl variance)) (fsqrt fl (fl (real n)))
             in (Some (fsub fl mean half), Some (fadd fl mean half)))"

definition MAECI :: "(real \<Rightarrow> real) \<Rightarrow> Continuous \<Rightarrow> real option \<times> real option" where
  "MAECI fl c = (case MAE fl c of None \<Rightarrow> (None, None)
     | Some m \<Rightarrow> ciFromMoments fl m (sumWeightAbs c) (sumWeightSq c) (sumWeight c) (sumWeightSqrd c) (cn c))"

definition RMSECI :: "(real \<Rightarrow> real) \<Rightarrow> Continuous \<Rightarrow> real option \<times> real option" where
  "RMSECI fl c = (case RMSE fl c of None \<Rightarrow> (None, None)
     | Some m \<Rightarrow> ciFromMoments fl m (sumWeightAbs c) (sumWeightSq c) (sumWeight c) (sumWeightSqrd c) (cn c))"

definition BiasCI :: "(real \<Rightarrow> real) \<Rightarrow> Continuous \<Rightarrow> real option \<times> real option" where
  "BiasCI fl c = (case Bias fl c of None \<Rightarrow> (None, None)
     | Some m \<Rightarrow> ciFromMoments fl m (sumWeightErr c) (sumWeightSq c) (sumWeight c) (sumWeightSqrd c) (cn c))"

definition ScoreCI :: "(real \<Rightarrow> real) \<Rightarrow> Brier \<Rightarrow> real option \<times> real option" where
  "ScoreCI fl b = (case Score fl b of None \<Rightarrow> (None, None)
     | Some m \<Rightarrow> ciFromMoments fl m (bsumWeightSq b) (bsumWeightQuad b) (bsumWeight b) (bsumWeightSqrd b) (bn b))"


section \<open>Invariants of the accumulators\<close>

text \<open>A recorded pair: forecast, observation and weight.\<close>

type_synonym cpair = "real \<times> real \<times> real"

definition cont_run :: "(real \<Rightarrow> real) \<Rightarrow> cpair list \<Rightarrow> Continuous" where
  "cont_run fl ps = fold (\<lambda>(f, o', w). Continuous_Add fl f o' w) ps Continuous0"

definition conf_run :: "(real \<Rightarrow> real) \<Rightarrow> (bool \<times> bool \<times> real) list \<Rightarrow> Confusion" where
  "conf_run fl ps = fold (\<lambda>(fr, obs, w). Confusion_Add fl fr obs w) ps Confusion0"

definition cont_inv :: "(real \<Rightarrow> real) \<Rightarrow> Continuous \<Rightarrow> bool" where
  "cont_inv fl c \<longleftrightarrow>
     0 \<le> sumWeight c \<and> is_float fl (sumWeight c) \<and> 0 \<le> sumWeightSqrd c \<and> 0 \<le> sumWeightSq c \<and>
     \<bar>sumWeightErr c\<bar> \<le> sumWeightAbs c \<and> (cn c = 0 \<longrightarrow> sumWeight c = 0)"

definition conf_inv :: "(real \<Rightarrow> real) \<Rightarrow> Confusion \<Rightarrow> bool" where
  "conf_inv fl c \<longleftrightarrow> 0 \<le> TP c \<and> 0 \<le> FP c \<and> 0 \<le> FN c \<and> 0 \<le> TN c \<and>
     is_float fl (TP c) \<and> is_float fl (FP c) \<and> is_float fl (FN c) \<and> is_float fl (TN c)"

definition brier_inv :: "(real \<Rightarrow> real) \<Rightarrow> Brier \<Rightarrow> bool" where
  "brier_inv fl b \<longleftrightarrow> 0 \<le> bsumWeight b \<and> is_float fl (bsumWeight b) \<and> 0 \<le> bsumWeightSq b \<and>
     (bn b = 0 \<longrightarrow> bsumWeight b = 0)"

lemmas acc_invs [inv_simps] = cont_inv_def conf_inv_def brier_inv_def

text \<open>The interval of a metric brackets it: \<^verbatim>\<open>ci_lower <= value <= ci_upper\<close> or no interval.\<close>

definition brackets :: "real option \<times> real option \<Rightarrow> real \<Rightarrow> bool" where
  "brackets ci v \<longleftrightarrow> (case ci of (Some lo, Some hi) \<Rightarrow> lo \<le> v \<and> v \<le> hi
     | (None, None) \<Rightarrow> True | _ \<Rightarrow> False)"

lemma cont_inv_0: "cont_inv fl Continuous0 \<longleftrightarrow> is_float fl 0"
  by (simp add: cont_inv_def Continuous0_def)

context rounding
begin

lemma ProvenanceWeight_bounds:
  "0 \<le> ProvenanceWeight fl t" "ProvenanceWeight fl t \<le> 1"
  by (auto simp: ProvenanceWeight_def fl_1 intro!: fl_nonneg fl_le_1)

lemma ProvenanceWeight_float: "is_float fl (ProvenanceWeight fl t)"
  by (simp add: ProvenanceWeight_def fl_is_float is_float_0)

lemma fmul_abs_mono: "0 \<le> w \<Longrightarrow> \<bar>fmul fl w e\<bar> \<le> fmul fl w \<bar>e\<bar>"
proof -
  assume "0 \<le> w"
  have "fl (w * e) \<le> fl (w * \<bar>e\<bar>)" "fl (- (w * e)) \<le> fl (w * \<bar>e\<bar>)"
    using \<open>0 \<le> w\<close> by (auto intro!: fl_mono mult_left_mono simp flip: mult_minus_right)
  then show ?thesis by (simp add: fmul_def fl_neg abs_le_iff)
qed

lemma fadd_abs_mono:
  assumes "\<bar>x\<bar> \<le> a" "\<bar>y\<bar> \<le> b"
  shows "\<bar>fadd fl x y\<bar> \<le> fadd fl a b"
proof -
  from assms have "fl (x + y) \<le> fl (a + b)" by (intro fl_mono) linarith
  moreover from assms have "- fl (x + y) \<le> fl (a + b)"
    unfolding fl_neg [symmetric] by (intro fl_mono) linarith
  ultimately show ?thesis by (simp add: fadd_def abs_le_iff)
qed

lemma fmul_square_nonneg: "0 \<le> w \<Longrightarrow> 0 \<le> fmul fl (fmul fl w e) e"
proof (cases "0 \<le> e")
  case False
  assume "0 \<le> w"
  with False have "fmul fl w e \<le> 0"
    by (auto simp: fmul_def intro!: fl_nonpos mult_nonneg_nonpos)
  with False show ?thesis by (auto simp: fmul_def [of fl _ e] intro!: fl_nonneg mult_nonpos_nonpos)
qed (simp add: fmul_nonneg)

lemma Continuous_Add_inv:
  assumes "cont_inv fl c" "0 \<le> w"
  shows "cont_inv fl (Continuous_Add fl f o' w c)"
  using assms
  by (auto simp: cont_inv_def Continuous_Add_def Let_def float_results
      intro!: fadd_nonneg fmul_nonneg fadd_abs_mono fmul_abs_mono fmul_square_nonneg)

lemma cont_run_inv: "\<forall>(f, o', w) \<in> set ps. 0 \<le> w \<Longrightarrow> cont_inv fl (cont_run fl ps)"
proof (induction ps rule: rev_induct)
  case (snoc p ps)
  then show ?case by (cases p) (auto simp: cont_run_def intro!: Continuous_Add_inv)
qed (simp add: cont_run_def cont_inv_0 is_float_0)

lemma Confusion_Add_inv:
  assumes "conf_inv fl c" "0 \<le> w"
  shows "conf_inv fl (Confusion_Add fl a b w c)"
  using assms by (auto simp: conf_inv_def Confusion_Add_def float_results intro!: fadd_nonneg)

lemma conf_run_inv: "\<forall>(fr, obs, w) \<in> set ps. 0 \<le> w \<Longrightarrow> conf_inv fl (conf_run fl ps)"
proof (induction ps rule: rev_induct)
  case (snoc p ps)
  then show ?case by (cases p) (auto simp: conf_run_def intro!: Confusion_Add_inv)
qed (simp add: conf_run_def conf_inv_def Confusion0_def is_float_0)

lemma fmul_self_nonneg: "0 \<le> fmul fl d d"
  by (simp add: fmul_def fl_nonneg)

lemma Brier_Add_inv:
  assumes "brier_inv fl b" "0 \<le> w"
  shows "brier_inv fl (Brier_Add fl p a w b)"
  using assms
  by (auto simp: brier_inv_def Brier_Add_def Let_def float_results
      intro!: fadd_nonneg fmul_nonneg fmul_self_nonneg)


subsection \<open>Intervals\<close>

lemma Wilson_bounds:
  assumes "0 \<le> p" "p \<le> 1" "0 < n" "Wilson fl p n = (lo, hi)"
  shows "0 \<le> lo" "lo \<le> p" "p \<le> hi" "hi \<le> 1"
  using assms by (auto simp: Wilson_def Let_def split: if_splits)

lemma half_nonneg:
  "0 \<le> v \<Longrightarrow> 0 \<le> fdiv fl (fmul fl (fl 1.96) (fsqrt fl v)) (fsqrt fl (fl (real n)))"
  by (intro fdiv_nonneg fmul_nonneg fsqrt_nonneg fl_nonneg) auto

lemma ciFromMoments_brackets:
  assumes "is_float fl m"
  shows "brackets (ciFromMoments fl m a b c d n) m"
  using assms half_nonneg
  by (auto simp: brackets_def ciFromMoments_def Let_def intro!: fsub_le fadd_ge)

lemma CI_brackets:
  "MAE fl c = Some v \<Longrightarrow> brackets (MAECI fl c) v"
  "RMSE fl c = Some v \<Longrightarrow> brackets (RMSECI fl c) v"
  "Bias fl c = Some v \<Longrightarrow> brackets (BiasCI fl c) v"
  "Score fl b = Some v \<Longrightarrow> brackets (ScoreCI fl b) v"
  by (auto simp: MAECI_def RMSECI_def BiasCI_def ScoreCI_def MAE_def RMSE_def Bias_def Score_def
      float_results ciFromMoments_brackets split: if_splits)


subsection \<open>Ranges of the metrics\<close>

lemma MAE_nonneg: "cont_inv fl c \<Longrightarrow> MAE fl c = Some v \<Longrightarrow> 0 \<le> v"
  by (auto simp: cont_inv_def MAE_def split: if_splits intro!: fdiv_nonneg)

lemma RMSE_nonneg: "cont_inv fl c \<Longrightarrow> RMSE fl c = Some v \<Longrightarrow> 0 \<le> v"
  by (auto simp: cont_inv_def RMSE_def split: if_splits intro!: fdiv_nonneg fsqrt_nonneg)

lemma Bias_le_MAE:
  assumes "cont_inv fl c" "Bias fl c = Some b" "MAE fl c = Some m"
  shows "\<bar>b\<bar> \<le> m"
proof -
  from assms have "\<bar>sumWeightErr c\<bar> \<le> sumWeightAbs c" "0 < sumWeight c"
    and b: "b = fl (sumWeightErr c / sumWeight c)" and m: "m = fl (sumWeightAbs c / sumWeight c)"
    by (auto simp: cont_inv_def Bias_def MAE_def fdiv_def split: if_splits)
  then have "sumWeightErr c / sumWeight c \<le> sumWeightAbs c / sumWeight c"
    and "- (sumWeightErr c / sumWeight c) \<le> sumWeightAbs c / sumWeight c"
    by (auto simp: divide_simps)
  from this [THEN fl_mono] show ?thesis by (simp add: b m fl_neg abs_le_iff)
qed

lemma ratio_bounds:
  assumes "conf_inv fl c"
  shows "Recall fl c = Some v \<Longrightarrow> 0 \<le> v \<and> v \<le> 1"
    and "Precision fl c = Some v \<Longrightarrow> 0 \<le> v \<and> v \<le> 1"
    and "FalseAlarmRate fl c = Some v \<Longrightarrow> 0 \<le> v \<and> v \<le> 1"
  using assms
  by (auto simp: conf_inv_def Recall_def Precision_def FalseAlarmRate_def Let_def split: if_splits
      intro!: fdiv_nonneg fdiv_le_1 fadd_nonneg fadd_ge)

lemma fadd_ge_trans:
  "x \<le> a \<Longrightarrow> is_float fl a \<Longrightarrow> 0 \<le> y \<Longrightarrow> x \<le> fadd fl a y"
  using fadd_ge order_trans by blast

lemma ratio3_bounds:
  assumes "conf_inv fl c"
  shows "F1 fl c = Some v \<Longrightarrow> 0 \<le> v \<and> v \<le> 1"
    and "ThreatScore fl c = Some v \<Longrightarrow> 0 \<le> v \<and> v \<le> 1"
  using assms
  by (auto simp: conf_inv_def F1_def ThreatScore_def Let_def float_results split: if_splits
      intro!: fdiv_nonneg fdiv_le_1 fadd_nonneg fmul_nonneg fadd_ge_trans)

lemma OccurrenceAgreement_bounds:
  assumes "conf_inv fl c" "OccurrenceAgreement fl c = Some v"
  shows "0 \<le> v \<and> v \<le> 1"
proof -
  have "TP c \<le> fadd fl (fadd fl (TP c) (FP c)) (FN c)"
    using assms(1) by (auto simp: conf_inv_def float_results intro!: fadd_ge_trans)
  then have "fadd fl (TP c) (TN c) \<le> Confusion_N fl c"
    unfolding Confusion_N_def fadd_def [of fl _ "TN c"] by (intro fl_mono) simp
  with assms show ?thesis
    by (auto simp: conf_inv_def OccurrenceAgreement_def Confusion_N_def Let_def split: if_splits
        intro!: fdiv_nonneg fdiv_le_1 fadd_nonneg)
qed

lemma fadd_eq_0_iff:
  assumes "is_float fl x" "is_float fl y" "0 \<le> x" "0 \<le> y"
  shows "fadd fl x y = 0 \<longleftrightarrow> x = 0 \<and> y = 0"
  using fadd_ge [of x y] fadd_ge_right [of y x] assms by (auto simp: fadd_def fl_0)

lemma fmul_2_eq_0_iff:
  assumes "is_float fl x" "0 \<le> x"
  shows "fmul fl 2 x = 0 \<longleftrightarrow> x = 0"
proof -
  have "x \<le> fmul fl 2 x" unfolding fmul_def using assms by (intro float_le_fl) auto
  with assms show ?thesis by (auto simp: fmul_def fl_0)
qed

lemma F1_None_iff:
  assumes "conf_inv fl c"
  shows "F1 fl c = None \<longleftrightarrow> Precision fl c = None \<and> Recall fl c = None"
  using assms
  by (auto simp: conf_inv_def F1_def Precision_def Recall_def Let_def float_results fadd_eq_0_iff
      fmul_2_eq_0_iff fadd_nonneg fmul_nonneg)

end


section \<open>The formulas of the methodology: exact arithmetic\<close>

lemma cont_run_exact:
  "sumWeight (cont_run exact ps) = (\<Sum>(f, o', w) \<leftarrow> ps. w)"
  "sumWeightSqrd (cont_run exact ps) = (\<Sum>(f, o', w) \<leftarrow> ps. w\<^sup>2)"
  "sumWeightAbs (cont_run exact ps) = (\<Sum>(f, o', w) \<leftarrow> ps. w * \<bar>f - o'\<bar>)"
  "sumWeightErr (cont_run exact ps) = (\<Sum>(f, o', w) \<leftarrow> ps. w * (f - o'))"
  "sumWeightSq (cont_run exact ps) = (\<Sum>(f, o', w) \<leftarrow> ps. w * (f - o')\<^sup>2)"
  "cn (cont_run exact ps) = length ps"
proof -
  have "sumWeight (cont_run exact ps) = (\<Sum>(f, o', w) \<leftarrow> ps. w) \<and>
    sumWeightSqrd (cont_run exact ps) = (\<Sum>(f, o', w) \<leftarrow> ps. w\<^sup>2) \<and>
    sumWeightAbs (cont_run exact ps) = (\<Sum>(f, o', w) \<leftarrow> ps. w * \<bar>f - o'\<bar>) \<and>
    sumWeightErr (cont_run exact ps) = (\<Sum>(f, o', w) \<leftarrow> ps. w * (f - o')) \<and>
    sumWeightSq (cont_run exact ps) = (\<Sum>(f, o', w) \<leftarrow> ps. w * (f - o')\<^sup>2) \<and>
    cn (cont_run exact ps) = length ps"
  proof (induction ps rule: rev_induct)
    case (snoc p ps)
    then show ?case
      by (cases p) (simp add: cont_run_def Continuous_Add_def Let_def power2_eq_square mult.assoc)
  qed (simp add: cont_run_def Continuous0_def)
  then show "sumWeight (cont_run exact ps) = (\<Sum>(f, o', w) \<leftarrow> ps. w)"
    "sumWeightSqrd (cont_run exact ps) = (\<Sum>(f, o', w) \<leftarrow> ps. w\<^sup>2)"
    "sumWeightAbs (cont_run exact ps) = (\<Sum>(f, o', w) \<leftarrow> ps. w * \<bar>f - o'\<bar>)"
    "sumWeightErr (cont_run exact ps) = (\<Sum>(f, o', w) \<leftarrow> ps. w * (f - o'))"
    "sumWeightSq (cont_run exact ps) = (\<Sum>(f, o', w) \<leftarrow> ps. w * (f - o')\<^sup>2)"
    "cn (cont_run exact ps) = length ps"
    by blast+
qed

lemma sum_list_mset_cong: "mset xs = mset ys \<Longrightarrow> sum_list (map f xs) = (sum_list (map f ys) :: real)"
  by (metis mset_map sum_mset_sum_list)

lemma cont_run_exact_perm:
  assumes "mset ps = mset qs"
  shows "cont_run exact ps = cont_run exact qs"
  using assms mset_eq_length [OF assms]
  by (intro Continuous.equality) (auto simp: cont_run_exact intro: sum_list_mset_cong)

text \<open>Weighted Cauchy-Schwarz: the mean of the magnitudes is at most the quadratic mean.\<close>

lemma weighted_mean_square:
  fixes g w :: "'a \<Rightarrow> real"
  assumes "\<forall>x \<in> set xs. 0 \<le> w x"
  shows "(\<Sum>x\<leftarrow>xs. w x * g x)\<^sup>2 \<le> (\<Sum>x\<leftarrow>xs. w x) * (\<Sum>x\<leftarrow>xs. w x * (g x)\<^sup>2)"
  using assms
proof (induction xs)
  case (Cons a xs)
  let ?W = "\<Sum>x\<leftarrow>xs. w x" and ?S = "\<Sum>x\<leftarrow>xs. w x * g x" and ?Q = "\<Sum>x\<leftarrow>xs. w x * (g x)\<^sup>2"
  have W: "0 \<le> ?W" and Q: "0 \<le> ?Q" using Cons.prems by (auto intro!: sum_list_nonneg)
  have IH: "?S\<^sup>2 \<le> ?W * ?Q" using Cons by simp
  have "2 * \<bar>g a\<bar> * \<bar>?S\<bar> \<le> ?W * (g a)\<^sup>2 + ?Q"
  proof (cases "?W = 0")
    case True
    with IH Q show ?thesis by simp
  next
    case False
    have "0 \<le> (?W * \<bar>g a\<bar> - \<bar>?S\<bar>)\<^sup>2" by simp
    then have "2 * ?W * \<bar>g a\<bar> * \<bar>?S\<bar> \<le> ?W\<^sup>2 * (g a)\<^sup>2 + ?S\<^sup>2"
      by (simp add: power2_diff power_mult_distrib algebra_simps)
    also have "\<dots> \<le> ?W * (?W * (g a)\<^sup>2 + ?Q)" using IH by (simp add: power2_eq_square algebra_simps)
    finally have "?W * (2 * \<bar>g a\<bar> * \<bar>?S\<bar>) \<le> ?W * (?W * (g a)\<^sup>2 + ?Q)"
      by (simp add: algebra_simps)
    with False W show ?thesis by simp
  qed
  moreover have "g a * ?S \<le> \<bar>g a\<bar> * \<bar>?S\<bar>" by (metis abs_ge_self abs_mult)
  ultimately have "w a * (2 * (g a * ?S)) \<le> w a * (?W * (g a)\<^sup>2 + ?Q)"
    using Cons.prems by (intro mult_left_mono) auto
  with IH show ?case by (simp add: power2_eq_square algebra_simps)
qed simp

lemma MAE_le_RMSE_exact:
  assumes "\<forall>(f, o', w) \<in> set ps. 0 \<le> w"
    and "MAE exact (cont_run exact ps) = Some m" "RMSE exact (cont_run exact ps) = Some r"
  shows "m \<le> r"
proof -
  let ?W = "\<Sum>(f, o', w)\<leftarrow>ps. w" and ?A = "\<Sum>(f, o', w)\<leftarrow>ps. w * \<bar>f - o'\<bar>"
    and ?Q = "\<Sum>(f, o', w)\<leftarrow>ps. w * (f - o')\<^sup>2"
  have "0 \<le> ?W" using assms(1) by (auto intro!: sum_list_nonneg)
  with assms have W: "0 < ?W" and m: "m = ?A / ?W" and r: "r = sqrt (?Q / ?W)"
    by (auto simp: MAE_def RMSE_def cont_run_exact split: if_splits)
  have "?A\<^sup>2 \<le> ?W * ?Q"
    using weighted_mean_square [of ps "\<lambda>(f, o', w). w" "\<lambda>(f, o', w). \<bar>f - o'\<bar>"] assms(1)
    by (auto simp: case_prod_beta')
  with W have "m\<^sup>2 \<le> ?Q / ?W" by (simp add: m power_divide power2_eq_square divide_simps mult.commute)
  then show ?thesis unfolding r by (rule real_le_rsqrt)
qed


subsection \<open>The Wilson interval inverts the score test\<close>

definition score_gap :: "real \<Rightarrow> real \<Rightarrow> real \<Rightarrow> real" where
  "score_gap p n x = (p - x)\<^sup>2 - 1.96\<^sup>2 * (x * (1 - x) / n)"

lemma score_gap_centre:
  fixes p n :: real
  defines "a \<equiv> 1 + 1.96\<^sup>2 / n"
  defines "c \<equiv> (p + 1.96\<^sup>2 / (2 * n)) / a"
    and "m \<equiv> (1.96 * sqrt (p * (1 - p) / n + 1.96\<^sup>2 / (4 * n * n))) / a"
  assumes n: "0 < n" and p: "0 \<le> p" "p \<le> 1"
  shows "score_gap p n x = a * ((x - c)\<^sup>2 - m\<^sup>2)" and "0 < a" and "0 \<le> m"
proof -
  let ?z = "1.96\<^sup>2 :: real"
  show a: "0 < a" using n by (simp add: a_def add_pos_nonneg)
  have D: "0 \<le> p * (1 - p) / n + ?z / (4 * n * n)" using n p by simp
  then show "0 \<le> m" using a by (simp add: m_def)
  have "a * m\<^sup>2 = ?z * (p * (1 - p) / n + ?z / (4 * n * n)) / a"
    using a D by (simp add: m_def power_divide power_mult_distrib power2_eq_square [of a])
  moreover have "a * (x - q / a)\<^sup>2 = a * x\<^sup>2 - 2 * q * x + q\<^sup>2 / a" for q
    using a by (simp add: power2_eq_square field_simps)
  then have "a * (x - c)\<^sup>2 = a * x\<^sup>2 - 2 * (p + ?z / (2 * n)) * x + (p + ?z / (2 * n))\<^sup>2 / a"
    by (simp only: c_def)
  moreover have "(p + ?z / (2 * n))\<^sup>2 - ?z * (p * (1 - p) / n + ?z / (4 * n * n)) = a * p\<^sup>2"
    using n by (simp add: a_def power2_eq_square field_simps)
  then have "(p + ?z / (2 * n))\<^sup>2 / a - ?z * (p * (1 - p) / n + ?z / (4 * n * n)) / a = p\<^sup>2"
    using a by (simp flip: diff_divide_distrib)
  ultimately have "a * ((x - c)\<^sup>2 - m\<^sup>2) = a * x\<^sup>2 - 2 * (p + ?z / (2 * n)) * x + p\<^sup>2"
    by (simp add: right_diff_distrib)
  also have "\<dots> = score_gap p n x"
    using n by (simp add: a_def score_gap_def power2_eq_square field_simps)
  finally show "score_gap p n x = a * ((x - c)\<^sup>2 - m\<^sup>2)" by simp
qed

lemma Wilson_exact_interval:
  assumes n: "0 < n" and p: "0 \<le> p" "p \<le> 1" and W: "Wilson exact p n = (lo, hi)"
  shows "lo \<le> x \<and> x \<le> hi \<longleftrightarrow> score_gap p n x \<le> 0"
proof -
  define a where "a = 1 + 1.96\<^sup>2 / n"
  define c where "c = (p + 1.96\<^sup>2 / (2 * n)) / a"
  define m where "m = (1.96 * sqrt (p * (1 - p) / n + 1.96\<^sup>2 / (4 * n * n))) / a"
  note sg = score_gap_centre [OF n p, folded a_def, folded c_def m_def]
  have gap: "score_gap p n y \<le> 0 \<longleftrightarrow> \<bar>y - c\<bar> \<le> m" for y
  proof -
    have "score_gap p n y \<le> 0 \<longleftrightarrow> (y - c)\<^sup>2 \<le> m\<^sup>2"
      using sg(2) by (simp add: sg(1) mult_le_0_iff)
    also have "\<dots> \<longleftrightarrow> \<bar>y - c\<bar> \<le> m" using sg(3) by (simp add: abs_le_square_iff [symmetric])
    finally show ?thesis .
  qed
  have gap': "0 \<le> score_gap p n y \<longleftrightarrow> m \<le> \<bar>y - c\<bar>" for y
  proof -
    have "0 \<le> score_gap p n y \<longleftrightarrow> m\<^sup>2 \<le> (y - c)\<^sup>2"
      using sg(2) by (simp add: sg(1) zero_le_mult_iff)
    also have "\<dots> \<longleftrightarrow> m \<le> \<bar>y - c\<bar>" using sg(3) by (simp add: abs_le_square_iff [symmetric])
    finally show ?thesis .
  qed
  have "0 \<le> q / n \<and> q / (2 * n) = q / n / 2" if "0 \<le> q" for q using n that by simp
  from this [OF zero_le_power2 [of "1.96"]] have "p + 1.96\<^sup>2 / (2 * n) \<le> a" using p unfolding a_def by linarith
  then have c: "0 \<le> c" "c \<le> 1" using n p sg(2) by (auto simp: c_def)
  have "0 \<le> c - m" using gap' [of 0] c by (simp add: score_gap_def)
  moreover have "c + m \<le> 1" using gap' [of 1] c by (simp add: score_gap_def)
  moreover have "\<bar>p - c\<bar> \<le> m" using gap [of p] p n by (simp add: score_gap_def)
  moreover have "Wilson exact p n =
      (let lower1 = (if c - m < 0 then 0 else c - m); upper1 = (if c + m > 1 then 1 else c + m)
       in (if lower1 > p then p else lower1, if upper1 < p then p else upper1))"
    using n unfolding a_def c_def m_def by (simp only: Wilson_def Let_def exact_ops exact_def power2_eq_square not_le [symmetric] if_False)
  ultimately have "lo = c - m" "hi = c + m" using W by (auto simp: Let_def)
  then show ?thesis by (auto simp: gap)
qed


subsection \<open>The sample variance behind the intervals\<close>

lemma cn_cont_run [simp]: "cn (cont_run fl ps) = length ps"
proof (induction ps rule: rev_induct)
  case (snoc p ps)
  then show ?case by (cases p) (simp add: cont_run_def Continuous_Add_def Let_def)
qed (simp add: cont_run_def Continuous0_def)

lemma sum_sq_dev:
  fixes g :: "'a \<Rightarrow> real"
  assumes "xs \<noteq> []"
  defines "\<mu> \<equiv> (\<Sum>x\<leftarrow>xs. g x) / length xs"
  shows "(\<Sum>x\<leftarrow>xs. (g x - \<mu>)\<^sup>2) = (\<Sum>x\<leftarrow>xs. (g x)\<^sup>2) - (\<Sum>x\<leftarrow>xs. g x)\<^sup>2 / length xs"
proof -
  have "(\<Sum>x\<leftarrow>ys. (g x - c)\<^sup>2) = (\<Sum>x\<leftarrow>ys. (g x)\<^sup>2) - 2 * c * (\<Sum>x\<leftarrow>ys. g x) + length ys * c\<^sup>2"
    for ys :: "'a list" and c :: real
    by (induction ys) (simp_all add: power2_diff algebra_simps)
  from this [where ys = xs and c = \<mu>] show ?thesis
    using assms(1) by (simp add: \<mu>_def power2_eq_square field_simps)
qed

lemma unit_weight_sums:
  assumes "\<forall>(f, o', w) \<in> set ps. w = (1::real)"
  shows "(\<Sum>(f, o', w)\<leftarrow>ps. w) = real (length ps)" "(\<Sum>(f, o', w)\<leftarrow>ps. w\<^sup>2) = real (length ps)"
    and "(\<Sum>(f, o', w)\<leftarrow>ps. w * g f o') = (\<Sum>(f, o', w)\<leftarrow>ps. (g f o' :: real))"
  using assms by (induction ps) auto

lemma sum_list_sq_nonneg: "0 \<le> (\<Sum>x\<leftarrow>xs. (g x :: real)\<^sup>2)"
  by (induction xs) auto

lemma MAECI_unit_weights:
  fixes ps :: "cpair list"
  assumes unit: "\<forall>(f, o', w) \<in> set ps. w = 1" and n: "2 \<le> length ps"
  defines "m \<equiv> (\<Sum>(f, o', w)\<leftarrow>ps. \<bar>f - o'\<bar>) / length ps"
  defines "s \<equiv> sqrt ((\<Sum>(f, o', w)\<leftarrow>ps. (\<bar>f - o'\<bar> - m)\<^sup>2) / (length ps - 1))"
  shows "MAECI exact (cont_run exact ps) =
    (Some (m - 1.96 * s / sqrt (length ps)), Some (m + 1.96 * s / sqrt (length ps)))"
proof -
  let ?n = "real (length ps)" and ?A = "\<Sum>(f, o', w)\<leftarrow>ps. \<bar>f - o'\<bar>"
  let ?V = "(\<Sum>(f, o', w)\<leftarrow>ps. (f - o')\<^sup>2) - ?A * ?A / ?n"
  have n': "2 \<le> ?n" "ps \<noteq> []" using n by auto
  have "?V = (\<Sum>(f, o', w)\<leftarrow>ps. (\<bar>f - o'\<bar> - m)\<^sup>2)"
    using sum_sq_dev [of ps "\<lambda>(f, o', w). \<bar>f - o'\<bar>"] n'
    by (simp add: m_def case_prod_beta' power2_eq_square)
  moreover from this have "0 \<le> ?V"
    using sum_list_sq_nonneg [of "\<lambda>(f, o', w). \<bar>f - o'\<bar> - m" ps] by (simp add: case_prod_beta')
  then have "\<not> ?V / (?n - 1) < 0" using n' by (simp add: not_less)
  ultimately show ?thesis
    using n n' unit
    by (simp add: MAECI_def MAE_def cont_run_exact unit_weight_sums ciFromMoments_def Let_def exact_def
        m_def s_def power2_eq_square [symmetric] of_nat_diff not_le)
qed


section \<open>Order dependence in binary64\<close>

text \<open>
  Four station pairs whose errors are \<open>1\<close>, \<open>2\<^sup>-\<^sup>5\<^sup>3\<close>, \<open>2\<^sup>-\<^sup>5\<^sup>3\<close> and \<open>0\<close>: added to \<open>1\<close> each
  small error is a tie that rounds away, added to each other first they survive.
\<close>

definition tiny :: real where "tiny = 2 powi (- 53)"
definition order_a :: "cpair list" where "order_a = [(1, 0, 1), (tiny, 0, 1), (tiny, 0, 1), (0, 0, 1)]"
definition order_b :: "cpair list" where "order_b = [(tiny, 0, 1), (tiny, 0, 1), (1, 0, 1), (0, 0, 1)]"

lemma tiny_scale: "9007199254740992 * tiny = 1"
proof -
  have "2 powi 53 * tiny = (1::real)" unfolding tiny_def by (simp flip: power_int_add)
  then show ?thesis by simp
qed

lemma tiny_scale': "tiny * 9007199254740992 = 1"
  using tiny_scale by (simp only: mult.commute)

lemma powi_tiny: "2 powi (- 52) = 2 * tiny" "2 powi (- 53) = tiny" "2 powi (- 54) = tiny / 2"
  using powi_add [of 1 "-53"] powi_add [of 1 "-54"] by (simp_all add: tiny_def)

lemma tiny_pos: "0 < tiny"
  by (simp add: tiny_def)

lemma fl64_tie: "fl64 (1 + tiny) = 1"
proof -
  have "fl64 (1 + tiny) = of_int (rne ((1 + tiny) / 2 powi (- 52))) * 2 powi (- 52)"
    using tiny_scale tiny_pos by (intro fl64_eval) simp_all
  also have "(1 + tiny) / 2 powi (- 52) = 4503599627370496 + 1/2"
    using tiny_scale tiny_pos by (simp add: powi_tiny field_simps)
  also have "rne (4503599627370496 + 1/2) = 4503599627370496"
  proof -
    have "\<lfloor>4503599627370496 + 1/2 :: real\<rfloor> = 4503599627370496" by (simp add: floor_eq_iff)
    then show ?thesis by (simp add: rne_def Let_def)
  qed
  finally show ?thesis using tiny_scale by (simp add: powi_tiny)
qed

lemma fl64_small_values:
  "fl64 1 = 1" "fl64 2 = 2" "fl64 3 = 3" "fl64 4 = 4" "fl64 (1/4) = 1/4" "fl64 0 = 0"
  "fl64 tiny = tiny" "fl64 (2 * tiny) = 2 * tiny" "fl64 (2 * tiny + 1) = 1 + 2 * tiny"
  "fl64 (1 + 2 * tiny) = 1 + 2 * tiny" "fl64 ((1 + 2 * tiny) / 4) = (1 + 2 * tiny) / 4"
proof -
  show "fl64 1 = 1" "fl64 0 = 0" by (simp_all add: b64.fl_1 b64.fl_0)
  show "fl64 2 = 2" by (rule fl64_exact [of _ 2 0]) simp_all
  show "fl64 3 = 3" by (rule fl64_exact [of _ 3 0]) simp_all
  show "fl64 4 = 4" by (rule fl64_exact [of _ 4 0]) simp_all
  show "fl64 (1/4) = 1/4"
    by (rule fl64_exact [of _ 1 "-2"]) (simp_all add: power_int_def power2_eq_square)
  show "fl64 tiny = tiny" by (rule fl64_exact [of _ 1 "-53"]) (simp_all add: tiny_def)
  show "fl64 (2 * tiny) = 2 * tiny" by (rule fl64_exact [of _ 2 "-53"]) (simp_all add: tiny_def)
  show *: "fl64 (1 + 2 * tiny) = 1 + 2 * tiny"
    by (rule fl64_exact [of _ 4503599627370497 "-52"]) (use tiny_scale in \<open>simp_all add: powi_tiny\<close>)
  then show "fl64 (2 * tiny + 1) = 1 + 2 * tiny" by (simp add: add.commute)
  show "fl64 ((1 + 2 * tiny) / 4) = (1 + 2 * tiny) / 4"
    by (rule fl64_exact [of _ 4503599627370497 "-54"]) (use tiny_scale' in \<open>simp_all add: powi_tiny\<close>)
qed

lemma MAE_orders:
  "MAE fl64 (cont_run fl64 order_a) = Some (1 / 4)"
  "MAE fl64 (cont_run fl64 order_b) = Some ((1 + 2 * tiny) / 4)"
proof -
  from tiny_pos show "MAE fl64 (cont_run fl64 order_a) = Some (1 / 4)"
    "MAE fl64 (cont_run fl64 order_b) = Some ((1 + 2 * tiny) / 4)"
    by (simp_all add: order_a_def order_b_def cont_run_def Continuous0_def Continuous_Add_def MAE_def
        Let_def fops fl64_small_values fl64_tie)
qed


section \<open>Properties\<close>

text \<open>C10. Read in exact arithmetic, the interval Wilson returns is the score-test interval: a
  proportion \<open>x\<close> lies in it exactly when the observed \<open>pHat\<close> is within 1.96 standard errors
  of \<open>x\<close>. In particular none of the clamps of the code fires.\<close>

theorem wilson_inverts_score_test:
  assumes "0 < n" "0 \<le> pHat" "pHat \<le> 1"
  shows "fst (Wilson exact pHat n) \<le> x \<and> x \<le> snd (Wilson exact pHat n) \<longleftrightarrow>
    (pHat - x)\<^sup>2 \<le> 1.96\<^sup>2 * (x * (1 - x) / n)"
  using Wilson_exact_interval [OF assms prod.collapse [symmetric]] by (simp add: score_gap_def)

theorem wilson_inverts_score_test_witness:
  "fst (Wilson exact (1/2) 4) \<le> 1/4 \<and> 1/4 \<le> snd (Wilson exact (1/2) 4)"
  using wilson_inverts_score_test [of 4 "1/2" "1/4"] by (simp add: power2_eq_square)

text \<open>C33. In binary64 arithmetic the interval Wilson returns stays inside [0, 1] and brackets the
  proportion, the constraint \<^verbatim>\<open>ci_lower <= value <= ci_upper\<close> of \<^verbatim>\<open>accuracy_metrics\<close>.\<close>

theorem wilson_float64_brackets:
  assumes "0 < n" "0 \<le> pHat" "pHat \<le> 1"
  shows "0 \<le> fst (Wilson fl64 pHat n) \<and> fst (Wilson fl64 pHat n) \<le> pHat \<and>
    pHat \<le> snd (Wilson fl64 pHat n) \<and> snd (Wilson fl64 pHat n) \<le> 1"
  using b64.Wilson_bounds [OF assms(2,3,1) prod.collapse [symmetric]] by simp

theorem wilson_float64_brackets_witness:
  "0 \<le> fst (Wilson fl64 0 6) \<and> fst (Wilson fl64 0 6) \<le> 0 \<and>
    0 \<le> snd (Wilson fl64 0 6) \<and> snd (Wilson fl64 0 6) \<le> 1"
  using wilson_float64_brackets [of 6 0] by simp

text \<open>The continuous accumulator, read in exact arithmetic, computes the weighted formulas of
  the methodology: MAE, RMSE and Bias are the weighted means of \<open>|e|\<close>, \<open>e\<^sup>2\<close> (under the root) and
  \<open>e\<close>, null exactly when the total weight is zero.\<close>

theorem continuous_formulas:
  fixes ps :: "cpair list"
  defines "W \<equiv> \<Sum>(f, o', w)\<leftarrow>ps. w"
  shows "MAE exact (cont_run exact ps) =
      (if W = 0 then None else Some ((\<Sum>(f, o', w)\<leftarrow>ps. w * \<bar>f - o'\<bar>) / W)) \<and>
    RMSE exact (cont_run exact ps) =
      (if W = 0 then None else Some (sqrt ((\<Sum>(f, o', w)\<leftarrow>ps. w * (f - o')\<^sup>2) / W))) \<and>
    Bias exact (cont_run exact ps) =
      (if W = 0 then None else Some ((\<Sum>(f, o', w)\<leftarrow>ps. w * (f - o')) / W))"
  by (simp add: MAE_def RMSE_def Bias_def cont_run_exact W_def)

text \<open>At unit weights the interval of the MAE is mean \<open>\<plusminus>\<close> 1.96 times the standard error
  of the mean, with the ordinary sample standard deviation (divisor \<open>n - 1\<close>) of the absolute
  errors: the frequency-weighted variance of ciFromMoments reduces to it.\<close>

theorem mae_interval_unit_weights:
  fixes ps :: "cpair list"
  assumes "\<forall>(f, o', w) \<in> set ps. w = 1" and "2 \<le> length ps"
  defines "m \<equiv> (\<Sum>(f, o', w)\<leftarrow>ps. \<bar>f - o'\<bar>) / length ps"
  defines "s \<equiv> sqrt ((\<Sum>(f, o', w)\<leftarrow>ps. (\<bar>f - o'\<bar> - m)\<^sup>2) / (length ps - 1))"
  shows "MAECI exact (cont_run exact ps) =
    (Some (m - 1.96 * s / sqrt (length ps)), Some (m + 1.96 * s / sqrt (length ps)))"
  unfolding s_def m_def by (rule MAECI_unit_weights [OF assms(1,2)])

theorem mae_interval_unit_weights_witness:
  "MAECI exact (cont_run exact [(3, 1, 1), (2, 2, 1)]) =
    (Some (1 - 1.96 * sqrt 2 / sqrt 2), Some (1 + 1.96 * sqrt 2 / sqrt 2))"
  using mae_interval_unit_weights [of "[(3, 1, 1), (2, 2, 1)]"] by simp

text \<open>C19. In binary64 the magnitude of the Bias never exceeds the MAE, whatever pairs were
  accumulated with non-negative weights; in exact arithmetic the MAE moreover never exceeds the
  RMSE.\<close>

theorem bias_mae_rmse_ordered:
  assumes "\<forall>(f, o', w) \<in> set ps. 0 \<le> w"
  shows "(Bias fl64 (cont_run fl64 ps) = Some b \<longrightarrow> MAE fl64 (cont_run fl64 ps) = Some m \<longrightarrow> \<bar>b\<bar> \<le> m) \<and>
    (MAE exact (cont_run exact ps) = Some m' \<longrightarrow> RMSE exact (cont_run exact ps) = Some r \<longrightarrow> m' \<le> r)"
  using b64.Bias_le_MAE [OF b64.cont_run_inv [OF assms]] MAE_le_RMSE_exact [OF assms] by blast

theorem bias_mae_rmse_ordered_witness:
  "MAE exact (cont_run exact [(3, 1, 1), (2, 4, 1)]) = Some 2 \<and>
    RMSE exact (cont_run exact [(3, 1, 1), (2, 4, 1)]) = Some (sqrt 4) \<and> (2 :: real) \<le> sqrt 4"
  using bias_mae_rmse_ordered [of "[(3, 1, 1), (2, 4, 1)]" 0 0 2 "sqrt 4"]
  by (simp add: MAE_def RMSE_def Bias_def cont_run_exact)

text \<open>C34. The accumulator is order-independent in exact arithmetic, but not in the float64
  arithmetic of the program: two orders of the same four station pairs give different MAEs, so a
  recomputation that reads the pairs in another order may publish another value.\<close>

theorem continuous_order_dependence:
  "(\<forall>ps qs. mset ps = mset qs \<longrightarrow> cont_run exact ps = cont_run exact qs) \<and>
   mset order_a = mset order_b \<and>
   MAE fl64 (cont_run fl64 order_a) \<noteq> MAE fl64 (cont_run fl64 order_b)"
proof -
  have "tiny \<noteq> 0" using tiny_pos by simp
  then have "MAE fl64 (cont_run fl64 order_a) \<noteq> MAE fl64 (cont_run fl64 order_b)"
    by (simp add: MAE_orders)
  moreover have "mset order_a = mset order_b" by (simp add: order_a_def order_b_def)
  ultimately show ?thesis by (blast intro: cont_run_exact_perm)
qed

theorem continuous_order_dependence_witness:
  "cont_run exact [(1, 0, 1), (2, 0, 1)] = cont_run exact [(2, 0, 1), (1, 0, 1)]"
  using continuous_order_dependence [THEN conjunct1, rule_format, of "[(1, 0, 1), (2, 0, 1)]" "[(2, 0, 1), (1, 0, 1)]"]
  by simp

text \<open>C20. In binary64, whatever weighted pairs were classified, each of the six occurrence metrics
  is null or lies in [0, 1], and F1 is null exactly when Precision and Recall both are.\<close>

theorem occurrence_metrics_float64:
  assumes "\<forall>(fr, obs, w) \<in> set ps. 0 \<le> w"
  defines "c \<equiv> conf_run fl64 ps"
  shows "(\<forall>v. Recall fl64 c = Some v \<or> Precision fl64 c = Some v \<or> F1 fl64 c = Some v \<or>
        FalseAlarmRate fl64 c = Some v \<or> ThreatScore fl64 c = Some v \<or>
        OccurrenceAgreement fl64 c = Some v \<longrightarrow> 0 \<le> v \<and> v \<le> 1) \<and>
    (F1 fl64 c = None \<longleftrightarrow> Precision fl64 c = None \<and> Recall fl64 c = None)"
proof -
  note inv = b64.conf_run_inv [OF assms(1), folded c_def]
  show ?thesis
    using b64.ratio_bounds [OF inv] b64.ratio3_bounds [OF inv] b64.OccurrenceAgreement_bounds [OF inv]
      b64.F1_None_iff [OF inv] by blast
qed

theorem occurrence_metrics_float64_witness:
  "F1 fl64 (conf_run fl64 [(False, False, 1)]) = None \<longleftrightarrow>
    Precision fl64 (conf_run fl64 [(False, False, 1)]) = None \<and>
    Recall fl64 (conf_run fl64 [(False, False, 1)]) = None"
  using occurrence_metrics_float64 [of "[(False, False, 1)]"] by simp

end
