(* ===== verification/Platform.thy ===== *)
theory Platform
  imports Fiq_Prelude
begin

text \<open>
  What every module takes from \<^verbatim>\<open>internal/platform\<close> and \<^verbatim>\<open>internal/audit\<close>: the text of
  identifiers and its order, audit records, domain events, and keyset pagination (a page of
  \<open>limit + 1\<close> rows after a cursor, cut to \<open>limit\<close>), with the proof that following the
  cursors visits every row once.
\<close>

section \<open>Text order and the text of an identifier\<close>

text \<open>Go compares strings byte by byte.\<close>

fun str_less :: "string \<Rightarrow> string \<Rightarrow> bool" where
  "str_less xs [] = False"
| "str_less [] (y # ys) = True"
| "str_less (x # xs) (y # ys) =
     (if x = y then str_less xs ys else (of_char x :: nat) < of_char y)"

definition hexdigit :: "nat \<Rightarrow> char" where
  "hexdigit n = (let d = n mod 16 in char_of (if d < 10 then 48 + d else 87 + d))"

text \<open>The \<open>k\<close> low hexadecimal digits of a number, most significant first.\<close>

fun hexdigits :: "nat \<Rightarrow> nat \<Rightarrow> nat list" where
  "hexdigits 0 n = []"
| "hexdigits (Suc k) n = hexdigits k (n div 16) @ [n mod 16]"

definition hyphenate :: "string \<Rightarrow> string" where
  "hyphenate s = take 8 s @ ''-'' @ take 4 (drop 8 s) @ ''-'' @ take 4 (drop 12 s) @ ''-'' @
     take 4 (drop 16 s) @ ''-'' @ drop 20 s"

definition uuid_string :: "uuid \<Rightarrow> string" where
  "uuid_string u = hyphenate (map hexdigit (hexdigits 32 (unat u)))"

lemma str_less_irrefl: "\<not> str_less s s"
  by (induction s) auto

lemma str_less_append_same: "str_less (p @ a) (p @ b) = str_less a b"
  by (induction p) auto

lemma str_less_append:
  "length a = length b \<Longrightarrow> str_less (a @ p) (b @ q) \<longleftrightarrow> str_less a b \<or> a = b \<and> str_less p q"
  by (induction a b rule: list_induct2) auto

lemma length_hexdigits [simp]: "length (hexdigits k n) = k"
  by (induction k arbitrary: n) auto

lemma hexdigits_lt: "d \<in> set (hexdigits k n) \<Longrightarrow> d < 16"
  by (induction k arbitrary: n) auto

lemma hexdigit_less:
  assumes "a < 16" "b < 16"
  shows "(of_char (hexdigit a) :: nat) < of_char (hexdigit b) \<longleftrightarrow> a < b"
  using assms by (auto simp: hexdigit_def Let_def)

lemma hexdigit_eq: "a < 16 \<Longrightarrow> b < 16 \<Longrightarrow> hexdigit a = hexdigit b \<longleftrightarrow> a = b"
  by (metis hexdigit_less linorder_neqE_nat nat_neq_iff)

lemma map_hexdigit_eq:
  assumes "length xs = length ys" "\<forall>d \<in> set xs. d < 16" "\<forall>d \<in> set ys. d < 16"
  shows "map hexdigit xs = map hexdigit ys \<longleftrightarrow> xs = ys"
  using assms by (induction xs ys rule: list_induct2) (auto simp: hexdigit_eq)

lemma hexdigits_eq:
  "a < 16 ^ k \<Longrightarrow> b < 16 ^ k \<Longrightarrow> hexdigits k a = hexdigits k b \<longleftrightarrow> a = b"
proof (induction k arbitrary: a b)
  case (Suc k)
  have "a div 16 < 16 ^ k" "b div 16 < 16 ^ k" using Suc.prems by (auto simp: less_mult_imp_div_less)
  with Suc.IH [of "a div 16" "b div 16"]
  have "hexdigits (Suc k) a = hexdigits (Suc k) b \<longleftrightarrow> a div 16 = b div 16 \<and> a mod 16 = b mod 16" by simp
  also have "\<dots> \<longleftrightarrow> a = b" by (metis div_mult_mod_eq)
  finally show ?case .
qed simp

lemma less_div_mod: "(a :: nat) < b \<longleftrightarrow> a div 16 < b div 16 \<or> a div 16 = b div 16 \<and> a mod 16 < b mod 16"
proof -
  have "a = 16 * (a div 16) + a mod 16" "b = 16 * (b div 16) + b mod 16" by simp_all
  moreover have "a mod 16 < 16" "b mod 16 < 16" by simp_all
  ultimately show ?thesis by linarith
qed

text \<open>Digits of equal length compare as the numbers do.\<close>

lemma hexdigits_less:
  "a < 16 ^ k \<Longrightarrow> b < 16 ^ k \<Longrightarrow>
    str_less (map hexdigit (hexdigits k a)) (map hexdigit (hexdigits k b)) \<longleftrightarrow> a < b"
proof (induction k arbitrary: a b)
  case (Suc k)
  let ?a = "a div 16" and ?b = "b div 16"
  have ab: "?a < 16 ^ k" "?b < 16 ^ k" using Suc.prems by (auto simp: less_mult_imp_div_less)
  have eq: "map hexdigit (hexdigits k ?a) = map hexdigit (hexdigits k ?b) \<longleftrightarrow> ?a = ?b"
    using hexdigits_lt ab by (simp add: map_hexdigit_eq hexdigits_eq)
  have "a < b \<longleftrightarrow> ?a < ?b \<or> ?a = ?b \<and> a mod 16 < b mod 16"
    by (rule less_div_mod)
  then show ?case
    by (simp add: str_less_append eq Suc.IH [OF ab] hexdigit_less hexdigit_eq)
qed simp

lemma str_less_hyphenate:
  assumes "length s = 32" "length t = 32"
  shows "str_less (hyphenate s) (hyphenate t) = str_less s t"
proof -
  have d: "take 4 (drop n u) @ drop (n + 4) u = drop n u" for n and u :: string
    using append_take_drop_id [of 4 "drop n u"] by (simp add: add.commute)
  have split: "u = take 8 u @ take 4 (drop 8 u) @ take 4 (drop 12 u) @ take 4 (drop 16 u) @ drop 20 u"
    for u :: string
    using d [of 8 u] d [of 12 u] d [of 16 u] by simp
  have "str_less s t = str_less
      (take 8 s @ take 4 (drop 8 s) @ take 4 (drop 12 s) @ take 4 (drop 16 s) @ drop 20 s)
      (take 8 t @ take 4 (drop 8 t) @ take 4 (drop 12 t) @ take 4 (drop 16 t) @ drop 20 t)"
    by (rule arg_cong2 [OF split split])
  then show ?thesis using assms by (simp add: hyphenate_def str_less_append)
qed

text \<open>The text order of identifiers is their numeric order.\<close>

lemma unat_uuid: "unat (u :: uuid) < 16 ^ 32"
proof -
  have "unat u < 2 ^ LENGTH(128)" by (rule unsigned_less)
  then show ?thesis by simp
qed

lemma uuid_string_less: "str_less (uuid_string a) (uuid_string b) \<longleftrightarrow> a < b"
  by (simp add: uuid_string_def str_less_hyphenate hexdigits_less [OF unat_uuid unat_uuid] word_less_nat_alt)

lemma str_less_total: "s \<noteq> t \<Longrightarrow> str_less s t \<or> str_less t s"
proof (induction s t rule: str_less.induct)
  case (1 xs)
  then show ?case by (cases xs) auto
qed (auto simp: not_less le_less)

lemma str_less_asym: "str_less s t \<Longrightarrow> \<not> str_less t s"
  by (induction s t rule: str_less.induct) (auto split: if_splits)

lemma str_less_trans: "str_less r s \<Longrightarrow> str_less s t \<Longrightarrow> str_less r t"
proof (induction r t arbitrary: s rule: str_less.induct)
  case (1 xs)
  then show ?case by simp
next
  case (2 y ys)
  then show ?case by simp
next
  case (3 x xs y ys)
  then show ?case by (cases s) (auto split: if_splits)
qed


section \<open>The identifier package\<close>

text \<open>
  \<^verbatim>\<open>github.com/google/uuid\<close> is not part of the repository: its text form and parser are
  parameters of the operations that use them. The program relies on these laws, which the
  RFC 4122 form satisfies.
\<close>

locale uuid_text =
  fixes ustr :: "uuid \<Rightarrow> string" and uparse :: "string \<Rightarrow> uuid option"
  assumes parse_text: "uparse (ustr u) = Some u"
    and text_nonempty: "ustr u \<noteq> []"
begin

lemma text_inj: "ustr a = ustr b \<longleftrightarrow> a = b"
  by (metis option.inject parse_text)

end

definition unhex :: "char \<Rightarrow> nat" where
  "unhex c = (let n = of_char c in if n < 58 then n - 48 else n - 87)"

definition uuid_parse :: "string \<Rightarrow> uuid option" where
  "uuid_parse s = (let ds = filter (\<lambda>c. c \<noteq> CHR ''-'') s in
     if length s = 36 \<and> length ds = 32
     then Some (word_of_nat (foldl (\<lambda>a d. 16 * a + unhex d) 0 ds)) else None)"

lemma unhex_hexdigit: "d < 16 \<Longrightarrow> unhex (hexdigit d) = d"
  by (simp add: unhex_def hexdigit_def Let_def)

lemma hexdigit_not_hyphen: "hexdigit d \<noteq> CHR ''-''"
proof
  assume "hexdigit d = CHR ''-''"
  then have "(of_char (hexdigit d) :: nat) = of_char (CHR ''-'')" by simp
  then show False by (simp add: hexdigit_def Let_def split: if_splits)
qed

lemma fold_hexdigits: "n < 16 ^ k \<Longrightarrow> foldl (\<lambda>a d. 16 * a + unhex d) 0 (map hexdigit (hexdigits k n)) = n"
proof (induction k arbitrary: n)
  case (Suc k)
  then have "n div 16 < 16 ^ k" by (auto simp: less_mult_imp_div_less)
  with Suc.IH show ?case by (simp add: unhex_hexdigit)
qed simp

lemma filter_hyphenate:
  assumes "CHR ''-'' \<notin> set s"
  shows "filter (\<lambda>c. c \<noteq> CHR ''-'') (hyphenate s) = s"
proof -
  have *: "filter (\<lambda>c. c \<noteq> CHR ''-'') (take i (drop j s)) = take i (drop j s)" for i j
    using assms by (intro filter_True) (auto dest: in_set_takeD in_set_dropD)
  have d: "take 4 (drop n u) @ drop (n + 4) u = drop n u" for n and u :: string
    using append_take_drop_id [of 4 "drop n u"] by (simp add: add.commute)
  show ?thesis
    using d [of 8 s] d [of 12 s] d [of 16 s] * [of 8 0] * [of 4 8] * [of 4 12] * [of 4 16]
      * [of "length s" 20]
    by (simp add: hyphenate_def)
qed

interpretation rfc: uuid_text uuid_string uuid_parse
proof unfold_locales
  fix u :: uuid
  let ?s = "map hexdigit (hexdigits 32 (unat u))"
  have "CHR ''-'' \<notin> set ?s" using hexdigit_not_hyphen by (metis ex_map_conv)
  moreover have "length (uuid_string u) = 36" by (simp add: uuid_string_def hyphenate_def)
  ultimately show "uuid_parse (uuid_string u) = Some u"
    by (simp add: uuid_parse_def uuid_string_def filter_hyphenate fold_hexdigits [OF unat_uuid])
  show "uuid_string u \<noteq> []" by (simp add: uuid_string_def hyphenate_def)
qed

section \<open>Actors, audit records and events\<close>

record Actor =
  ac_UserID :: "uuid option"
  ac_Name :: string
  ac_IPAddress :: string

text \<open>The values stored in the \<^verbatim>\<open>Details\<close> of an audit record.\<close>

datatype detail = DStr string | DBool bool | DInt int | DStrs "string list" | DMap "(string \<times> string) list"

record AuditEvent =
  ae_UserID :: "uuid option"
  ae_Action :: string
  ae_ResourceType :: string
  ae_ResourceID :: "uuid option"
  ae_Details :: "(string \<times> detail) list"
  ae_IPAddress :: string
  ae_At :: "instant option"

text \<open>Appending to the trail; a record without a time gets the wall clock.\<close>

definition Record :: "instant \<Rightarrow> AuditEvent \<Rightarrow> AuditEvent list \<Rightarrow> AuditEvent list" where
  "Record wall e trail = trail @ [if ae_At e = None then e\<lparr>ae_At := Some wall\<rparr> else e]"

datatype Event =
    ForecastCollected uuid uuid uuid int string instant
  | ObservationCollected uuid string int "(string \<times> nat) list"
  | ObservationCorrected uuid instant uuid uuid
  | ProviderHealthChanged uuid string string int

fun EventName :: "Event \<Rightarrow> string" where
  "EventName (ForecastCollected _ _ _ _ _ _) = ''forecast.collected''"
| "EventName (ObservationCollected _ _ _ _) = ''observation.collected''"
| "EventName (ObservationCorrected _ _ _ _) = ''observation.corrected''"
| "EventName (ProviderHealthChanged _ _ _ _) = ''provider.health_changed''"


section \<open>Keyset pagination\<close>

record PageInfo =
  HasMore :: bool
  NextCursor :: string

definition page_limit :: "int \<Rightarrow> nat" where
  "page_limit limit = (if limit \<le> 0 \<or> limit > 200 then 50 else nat limit)"

text \<open>\<^verbatim>\<open>WHERE id > cursor AND p ORDER BY id ASC LIMIT n\<close>.\<close>

definition keyset :: "('r \<Rightarrow> uuid) \<Rightarrow> ('r \<Rightarrow> bool) \<Rightarrow> uuid \<Rightarrow> nat \<Rightarrow> 'r list \<Rightarrow> 'r list" where
  "keyset key p cursor n tbl = take n (sort_key key (filter (\<lambda>r. cursor < key r \<and> p r) tbl))"

text \<open>The service cuts the \<open>limit + 1\<close> rows it read to a page.\<close>

definition cut_page :: "(uuid \<Rightarrow> string) \<Rightarrow> ('r \<Rightarrow> uuid) \<Rightarrow> nat \<Rightarrow> 'r list \<Rightarrow> 'r list \<times> PageInfo" where
  "cut_page ustr key limit rows =
     (if length rows > limit
      then let page = take limit rows in
           (page, \<lparr>HasMore = True, NextCursor = (if page \<noteq> [] then ustr (key (last page)) else [])\<rparr>)
      else (rows, \<lparr>HasMore = False, NextCursor = []\<rparr>))"

text \<open>A client that follows the cursors it is given, for at most \<open>n\<close> pages.\<close>

fun walk :: "nat \<Rightarrow> (string \<Rightarrow> ('e, 'r list \<times> PageInfo) result) \<Rightarrow> string \<Rightarrow> 'r list option" where
  "walk 0 f c = None"
| "walk (Suc n) f c =
     (case f c of Inl e \<Rightarrow> None
      | Inr (rows, pg) \<Rightarrow> if HasMore pg then map_option ((@) rows) (walk n f (NextCursor pg)) else Some rows)"

definition parse_cursor :: "(string \<Rightarrow> uuid option) \<Rightarrow> string \<Rightarrow> uuid option" where
  "parse_cursor uparse c = (if c = [] then Some 0 else uparse c)"

lemma strict_sorted_filter_gt:
  assumes "sorted_wrt (\<lambda>a b. key a < key b) S" "n < length S" "0 < n"
  shows "filter (\<lambda>r. key (last (take n S)) < (key r :: 'k :: linorder)) S = drop n S"
proof -
  define c where "c = key (last (take n S))"
  have S: "S = take n S @ drop n S" by simp
  have ne: "take n S \<noteq> []" using assms by auto
  from assms(1) S have "sorted_wrt (\<lambda>a b. key a < key b) (take n S @ drop n S)" by simp
  then have *: "sorted_wrt (\<lambda>a b. key a < key b) (take n S)"
    "\<forall>x \<in> set (take n S). \<forall>y \<in> set (drop n S). key x < key y" unfolding sorted_wrt_append by blast+
  have "key x \<le> c" if "x \<in> set (take n S)" for x
  proof -
    have T: "take n S = butlast (take n S) @ [last (take n S)]" using ne by simp
    from *(1) T have "sorted_wrt (\<lambda>a b. key a < key b) (butlast (take n S) @ [last (take n S)])" by simp
    then have "\<forall>z \<in> set (butlast (take n S)). key z < c" by (simp add: sorted_wrt_append c_def)
    with that T show ?thesis by (metis Un_iff c_def empty_iff empty_set insert_iff less_imp_le list.simps(15) order_refl set_append)
  qed
  then have "filter (\<lambda>r. c < key r) (take n S) = []" by (auto simp: filter_empty_conv not_less)
  moreover have "filter (\<lambda>r. c < key r) (drop n S) = drop n S"
    using *(2) ne by (intro filter_True) (auto simp: c_def)
  ultimately have "filter (\<lambda>r. c < key r) (take n S @ drop n S) = drop n S"
    unfolding filter_append by simp
  then show ?thesis by (simp add: c_def)
qed

lemma sort_key_strict:
  assumes "distinct (map key xs)"
  shows "sorted_wrt (\<lambda>a b. key a < key b) (sort_key key xs)"
proof -
  have "sorted (map key (sort_key key xs))" "distinct (map key (sort_key key xs))"
    using assms by (simp_all add: distinct_map)
  then have "sorted_wrt (<) (map key (sort_key key xs))" by (simp add: strict_sorted_iff)
  then show ?thesis by (simp add: sorted_wrt_map)
qed

context uuid_text
begin

lemma walk_keyset:
  assumes page: "\<And>c u. parse_cursor uparse c = Some u \<Longrightarrow>
      f c = Inr (cut_page ustr key limit (keyset key p u (limit + 1) tbl))"
    and lim: "0 < limit" and dist: "distinct (map key tbl)"
    and c: "parse_cursor uparse c = Some u"
    and fuel: "length (filter (\<lambda>r. u < key r \<and> p r) tbl) < n"
  shows "walk n f c = Some (sort_key key (filter (\<lambda>r. u < key r \<and> p r) tbl))"
  using c fuel
proof (induction n arbitrary: c u)
  case (Suc n)
  let ?S = "sort_key key (filter (\<lambda>r. u < key r \<and> p r) tbl)"
  have strict: "sorted_wrt (\<lambda>a b. key a < key b) ?S"
    using dist by (intro sort_key_strict) (simp add: distinct_map inj_on_def)
  show ?case
  proof (cases "length ?S \<le> limit")
    case True
    then show ?thesis
      by (simp add: page [OF Suc.prems(1)] cut_page_def keyset_def)
  next
    case False
    define v where "v = key (last (take limit ?S))"
    have "?S \<noteq> []" using False by (metis le0 list.size(3))
    then have ne: "take limit ?S \<noteq> []" using lim by simp
    have "last (take limit ?S) \<in> set ?S" using ne by (meson in_set_takeD last_in_set)
    then have uv: "u < v" by (auto simp: v_def)
    have rest: "sort_key key (filter (\<lambda>r. v < key r \<and> p r) tbl) = drop limit ?S"
    proof -
      have "filter (\<lambda>r. v < key r \<and> p r) tbl = filter (\<lambda>r. v < key r) (filter (\<lambda>r. u < key r \<and> p r) tbl)"
        using uv by (auto intro: filter_cong)
      then have "sort_key key (filter (\<lambda>r. v < key r \<and> p r) tbl) = filter (\<lambda>r. v < key r) ?S"
        by (simp add: filter_sort)
      with strict_sorted_filter_gt [OF strict] False lim show ?thesis by (simp add: v_def)
    qed
    have pv: "parse_cursor uparse (ustr v) = Some v"
      by (simp add: parse_cursor_def parse_text text_nonempty)
    have "length (filter (\<lambda>r. v < key r \<and> p r) tbl) = length (drop limit ?S)"
      by (metis length_sort rest)
    with Suc.prems(2) lim False have "length (filter (\<lambda>r. v < key r \<and> p r) tbl) < n" by simp
    from Suc.IH [OF pv this] rest have "walk n f (ustr v) = Some (drop limit ?S)" by simp
    with False ne show ?thesis
      by (simp add: page [OF Suc.prems(1)] cut_page_def keyset_def v_def [symmetric] min_def Let_def)
  qed
qed simp

end

end
