(* ===== verification/Circuit.thy ===== *)
theory Circuit
  imports Platform
begin

text \<open>
  The per-provider circuit breaker: \<^verbatim>\<open>internal/catalog/domain/circuit.go\<close>, the service
  \<^verbatim>\<open>internal/catalog/circuit_service.go\<close> and its table \<^verbatim>\<open>provider_circuits\<close>
  (\<^verbatim>\<open>adapters/persistence/catalogpg/circuit.go\<close>), a map from provider to row.
\<close>

datatype CircuitState = CircuitClosed | CircuitHalfOpen | CircuitOpen

definition GaugeValue :: "CircuitState \<Rightarrow> nat" where
  "GaugeValue s = (case s of CircuitHalfOpen \<Rightarrow> 1 | CircuitOpen \<Rightarrow> 2 | CircuitClosed \<Rightarrow> 0)"

definition CircuitFailureThreshold :: int where "CircuitFailureThreshold = 5"
definition CircuitProbeDelay :: duration where "CircuitProbeDelay = 60 * Second"

record ProviderCircuit =
  ci_ProviderID :: uuid
  ci_State :: CircuitState
  ci_ConsecutiveFailures :: int
  ci_LastFailureAt :: "instant option"
  ci_OpenedAt :: "instant option"
  ci_NextProbeAt :: "instant option"
  ci_UpdatedAt :: instant

text \<open>The zero \<^verbatim>\<open>time.Time\<close> is year 1.\<close>

definition zero_time :: instant where "zero_time = - 62135596800 * Second"

definition NewProviderCircuit :: "uuid \<Rightarrow> ProviderCircuit" where
  "NewProviderCircuit pid = \<lparr>ci_ProviderID = pid, ci_State = CircuitClosed, ci_ConsecutiveFailures = 0,
     ci_LastFailureAt = None, ci_OpenedAt = None, ci_NextProbeAt = None, ci_UpdatedAt = zero_time\<rparr>"

record Decision =
  Allowed :: bool
  Probe :: bool
  DState :: CircuitState
  RetryAt :: "instant option"

definition Circuit_Evaluate :: "instant \<Rightarrow> ProviderCircuit \<Rightarrow> Decision \<times> ProviderCircuit" where
  "Circuit_Evaluate now c =
     (case ci_State c of
        CircuitOpen \<Rightarrow>
          (if (case ci_NextProbeAt c of None \<Rightarrow> False | Some p \<Rightarrow> \<not> now < p)
           then (\<lparr>Allowed = True, Probe = True, DState = CircuitHalfOpen, RetryAt = None\<rparr>,
                 c\<lparr>ci_State := CircuitHalfOpen\<rparr>)
           else (\<lparr>Allowed = False, Probe = False, DState = CircuitOpen, RetryAt = ci_NextProbeAt c\<rparr>, c))
      | CircuitHalfOpen \<Rightarrow>
          (\<lparr>Allowed = True, Probe = True, DState = CircuitHalfOpen, RetryAt = None\<rparr>, c)
      | CircuitClosed \<Rightarrow>
          (\<lparr>Allowed = True, Probe = False, DState = CircuitClosed, RetryAt = None\<rparr>, c))"

definition ApplySuccess :: "instant \<Rightarrow> ProviderCircuit \<Rightarrow> CircuitState \<times> ProviderCircuit" where
  "ApplySuccess now c =
     (ci_State c,
      c\<lparr>ci_State := CircuitClosed, ci_ConsecutiveFailures := 0, ci_OpenedAt := None,
        ci_NextProbeAt := None, ci_UpdatedAt := now\<rparr>)"

definition ApplyFailure :: "instant \<Rightarrow> ProviderCircuit \<Rightarrow> CircuitState \<times> ProviderCircuit" where
  "ApplyFailure now c =
     (let c1 = c\<lparr>ci_ConsecutiveFailures := ci_ConsecutiveFailures c + 1, ci_LastFailureAt := Some now\<rparr>;
          c2 = (if ci_ConsecutiveFailures c1 \<ge> CircuitFailureThreshold
                then c1\<lparr>ci_State := CircuitOpen, ci_OpenedAt := Some now,
                        ci_NextProbeAt := Some (now + CircuitProbeDelay)\<rparr>
                else c1)
      in (ci_State c, c2\<lparr>ci_UpdatedAt := now\<rparr>))"


section \<open>The table and the service\<close>

type_synonym circuits = "uuid \<rightharpoonup> ProviderCircuit"

definition CircuitRepo_Get :: "uuid \<Rightarrow> circuits \<Rightarrow> ProviderCircuit" where
  "CircuitRepo_Get pid tbl = (case tbl pid of None \<Rightarrow> NewProviderCircuit pid | Some c \<Rightarrow> c)"

definition CircuitRepo_Upsert :: "ProviderCircuit \<Rightarrow> circuits \<Rightarrow> circuits" where
  "CircuitRepo_Upsert c tbl = tbl(ci_ProviderID c \<mapsto> c)"

record Transition =
  tr_ProviderID :: uuid
  tr_Changed :: bool
  tr_Old :: CircuitState
  tr_New :: CircuitState
  tr_ConsecutiveFailures :: int

definition CircuitService_Evaluate :: "uuid \<Rightarrow> instant \<Rightarrow> circuits \<Rightarrow> Decision \<times> circuits" where
  "CircuitService_Evaluate pid now tbl =
     (let circuit = CircuitRepo_Get pid tbl;
          (d, circuit') = Circuit_Evaluate now circuit
      in (d, if ci_State circuit' \<noteq> ci_State circuit then CircuitRepo_Upsert circuit' tbl else tbl))"

definition RecordSuccess :: "uuid \<Rightarrow> instant \<Rightarrow> circuits \<Rightarrow> Transition \<times> circuits" where
  "RecordSuccess pid now tbl =
     (let (prev, c) = ApplySuccess now (CircuitRepo_Get pid tbl)
      in (\<lparr>tr_ProviderID = pid, tr_Changed = (prev \<noteq> ci_State c), tr_Old = prev, tr_New = ci_State c,
           tr_ConsecutiveFailures = ci_ConsecutiveFailures c\<rparr>, CircuitRepo_Upsert c tbl))"

definition RecordFailure :: "uuid \<Rightarrow> instant \<Rightarrow> circuits \<Rightarrow> Transition \<times> circuits" where
  "RecordFailure pid now tbl =
     (let (prev, c) = ApplyFailure now (CircuitRepo_Get pid tbl)
      in (\<lparr>tr_ProviderID = pid, tr_Changed = (prev \<noteq> ci_State c), tr_Old = prev, tr_New = ci_State c,
           tr_ConsecutiveFailures = ci_ConsecutiveFailures c\<rparr>, CircuitRepo_Upsert c tbl))"

lemmas circuit_ops [ops] = Circuit_Evaluate_def ApplySuccess_def ApplyFailure_def CircuitRepo_Get_def
  CircuitRepo_Upsert_def CircuitService_Evaluate_def RecordSuccess_def RecordFailure_def

section \<open>The state machine\<close>

datatype circuit_event = EvaluateAt instant | SuccessAt instant | FailureAt instant

fun circuit_apply :: "circuit_event \<Rightarrow> ProviderCircuit \<Rightarrow> ProviderCircuit" where
  "circuit_apply (EvaluateAt t) c = snd (Circuit_Evaluate t c)"
| "circuit_apply (SuccessAt t) c = snd (ApplySuccess t c)"
| "circuit_apply (FailureAt t) c = snd (ApplyFailure t c)"

inductive circuit_reachable :: "uuid \<Rightarrow> ProviderCircuit \<Rightarrow> bool" for pid where
  initial: "circuit_reachable pid (NewProviderCircuit pid)"
| step: "circuit_reachable pid c \<Longrightarrow> circuit_reachable pid (circuit_apply e c)"

inductive_cases circuit_reachableE: "circuit_reachable pid c"

definition circuit_inv :: "ProviderCircuit \<Rightarrow> bool" where
  "circuit_inv c \<longleftrightarrow>
     (case ci_State c of
        CircuitClosed \<Rightarrow> 0 \<le> ci_ConsecutiveFailures c \<and> ci_ConsecutiveFailures c < CircuitFailureThreshold \<and>
          ci_OpenedAt c = None \<and> ci_NextProbeAt c = None
      | _ \<Rightarrow> CircuitFailureThreshold \<le> ci_ConsecutiveFailures c \<and> ci_OpenedAt c \<noteq> None \<and>
          ci_LastFailureAt c = ci_OpenedAt c \<and>
          ci_NextProbeAt c = map_option (\<lambda>t. t + CircuitProbeDelay) (ci_OpenedAt c))"

lemma circuit_inv_new: "circuit_inv (NewProviderCircuit pid)"
  by (simp add: circuit_inv_def NewProviderCircuit_def CircuitFailureThreshold_def)

lemma circuit_inv_apply: "circuit_inv c \<Longrightarrow> circuit_inv (circuit_apply e c)"
  by (cases e; cases "ci_State c")
    (auto simp: ops Let_def circuit_inv_def CircuitFailureThreshold_def split: option.splits)

lemma circuit_reachable_inv: "circuit_reachable pid c \<Longrightarrow> circuit_inv c"
  by (induction rule: circuit_reachable.induct) (simp_all add: circuit_inv_new circuit_inv_apply)

lemma circuit_ProviderID [simp]: "ci_ProviderID (circuit_apply e c) = ci_ProviderID c"
  by (cases e) (auto simp: ops Let_def split: CircuitState.splits option.splits)

text \<open>Failures recorded since the last success.\<close>

fun failures_since :: "circuit_event list \<Rightarrow> int" where
  "failures_since [] = 0"
| "failures_since (SuccessAt t # es) = 0"
| "failures_since (FailureAt t # es) = failures_since es + 1"
| "failures_since (EvaluateAt t # es) = failures_since es"

definition circuit_run :: "uuid \<Rightarrow> circuit_event list \<Rightarrow> ProviderCircuit" where
  "circuit_run pid es = foldr circuit_apply es (NewProviderCircuit pid)"

lemma circuit_run_reachable: "circuit_reachable pid (circuit_run pid es)"
  by (induction es) (auto simp: circuit_run_def intro: circuit_reachable.intros)

lemma circuit_run_ProviderID [simp]: "ci_ProviderID (circuit_run pid es) = pid"
  by (induction es) (simp_all add: circuit_run_def NewProviderCircuit_def del: circuit_apply.simps)

lemma circuit_run_failures: "ci_ConsecutiveFailures (circuit_run pid es) = failures_since es"
proof (induction es rule: failures_since.induct)
  case (4 t es)
  then show ?case
    by (auto simp: circuit_run_def ops split: CircuitState.splits option.splits)
qed (simp_all add: circuit_run_def NewProviderCircuit_def ops Let_def)

lemma CircuitRepo_Get_Upsert:
  "CircuitRepo_Get pid (CircuitRepo_Upsert c tbl) = (if ci_ProviderID c = pid then c else CircuitRepo_Get pid tbl)"
  by (simp add: CircuitRepo_Get_def CircuitRepo_Upsert_def)

text \<open>The rows of the table carry their own key, and satisfy the invariant.\<close>

definition circuits_inv :: "circuits \<Rightarrow> bool" where
  "circuits_inv tbl \<longleftrightarrow> (\<forall>pid c. tbl pid = Some c \<longrightarrow> ci_ProviderID c = pid \<and> circuit_inv c)"

lemma circuits_inv_Get:
  assumes "circuits_inv tbl"
  shows "ci_ProviderID (CircuitRepo_Get pid tbl) = pid" "circuit_inv (CircuitRepo_Get pid tbl)"
  using assms circuit_inv_new
  by (auto simp: circuits_inv_def CircuitRepo_Get_def NewProviderCircuit_def split: option.splits)

lemma circuits_inv_Upsert: "circuits_inv tbl \<Longrightarrow> circuit_inv c \<Longrightarrow> circuits_inv (CircuitRepo_Upsert c tbl)"
  by (auto simp: circuits_inv_def CircuitRepo_Upsert_def)

lemma service_as_apply:
  "snd (RecordSuccess pid now tbl) = CircuitRepo_Upsert (circuit_apply (SuccessAt now) (CircuitRepo_Get pid tbl)) tbl"
  "snd (RecordFailure pid now tbl) = CircuitRepo_Upsert (circuit_apply (FailureAt now) (CircuitRepo_Get pid tbl)) tbl"
  "snd (CircuitService_Evaluate pid now tbl) =
     (let c = CircuitRepo_Get pid tbl; c' = circuit_apply (EvaluateAt now) c
      in if ci_State c' \<noteq> ci_State c then CircuitRepo_Upsert c' tbl else tbl)"
  by (simp_all add: RecordSuccess_def RecordFailure_def CircuitService_Evaluate_def Let_def case_prod_beta')

lemma circuits_inv_service:
  assumes "circuits_inv tbl"
  shows "circuits_inv (snd (RecordSuccess pid now tbl))" "circuits_inv (snd (RecordFailure pid now tbl))"
    and "circuits_inv (snd (CircuitService_Evaluate pid now tbl))"
  using assms circuits_inv_Get [OF assms]
  unfolding service_as_apply Let_def
  by (auto intro!: circuits_inv_Upsert circuit_inv_apply simp del: circuit_apply.simps)

lemma Get_RecordFailure:
  assumes "circuits_inv tbl"
  shows "CircuitRepo_Get q (snd (RecordFailure pid now tbl)) =
    (if q = pid then circuit_apply (FailureAt now) (CircuitRepo_Get pid tbl) else CircuitRepo_Get q tbl)"
  unfolding service_as_apply
  by (simp add: CircuitRepo_Get_Upsert circuits_inv_Get(1) [OF assms] del: circuit_apply.simps)


section \<open>Properties\<close>



text \<open>C28. Whatever evaluations are interleaved, the breaker leaves the closed state exactly when
  five or more failures have been recorded since the last success, and its counter is that number
  (the most recent event comes first in the list).\<close>

theorem breaker_opens_on_fifth_failure:
  "ci_ConsecutiveFailures (circuit_run pid es) = failures_since es \<and>
   (ci_State (circuit_run pid es) = CircuitClosed \<longleftrightarrow> failures_since es < 5)"
  using circuit_reachable_inv [OF circuit_run_reachable, of pid es]
  by (cases "ci_State (circuit_run pid es)")
    (auto simp: circuit_inv_def CircuitFailureThreshold_def circuit_run_failures)

text \<open>Once a failure at \<open>t\<close> has opened the breaker of a provider, the service refuses every
  collection before \<open>t\<close> plus 60 seconds (naming that time for the retry and changing nothing) and
  admits one as a probe from then on; the breakers of other providers are untouched.\<close>

theorem breaker_holds_back:
  assumes "circuits_inv tbl" and "tr_New (fst (RecordFailure pid t tbl)) = CircuitOpen"
  defines "tbl' \<equiv> snd (RecordFailure pid t tbl)"
  shows "(Allowed (fst (CircuitService_Evaluate pid now tbl')) \<longleftrightarrow> t + 60 * Second \<le> now) \<and>
    (now < t + 60 * Second \<longrightarrow> CircuitService_Evaluate pid now tbl' =
      (\<lparr>Allowed = False, Probe = False, DState = CircuitOpen, RetryAt = Some (t + 60 * Second)\<rparr>, tbl')) \<and>
    (q \<noteq> pid \<longrightarrow> CircuitRepo_Get q tbl' = CircuitRepo_Get q tbl)"
proof -
  have c: "CircuitRepo_Get pid tbl' = circuit_apply (FailureAt t) (CircuitRepo_Get pid tbl)"
    by (simp add: tbl'_def Get_RecordFailure [OF assms(1)])
  have st: "ci_State (CircuitRepo_Get pid tbl') = CircuitOpen"
    using assms(2) by (simp add: c RecordFailure_def case_prod_beta' Let_def)
  have "circuit_inv (CircuitRepo_Get pid tbl)" by (rule circuits_inv_Get(2) [OF assms(1)])
  with st have pr: "ci_NextProbeAt (CircuitRepo_Get pid tbl') = Some (t + 60 * Second)"
    unfolding c
    by (cases "ci_State (CircuitRepo_Get pid tbl)")
      (auto simp: ApplyFailure_def Let_def CircuitProbeDelay_def CircuitFailureThreshold_def circuit_inv_def
        split: if_splits)
  have "CircuitRepo_Get q tbl' = CircuitRepo_Get q tbl" if "q \<noteq> pid"
    using that by (simp add: tbl'_def Get_RecordFailure [OF assms(1)])
  then show ?thesis
    by (simp add: CircuitService_Evaluate_def Let_def Circuit_Evaluate_def st pr)
qed

definition four_failures :: circuits where
  "four_failures = [1 \<mapsto> circuit_run 1 (replicate 4 (FailureAt 0))]"

lemma circuits_inv_four: "circuits_inv four_failures"
  by (simp add: circuits_inv_def four_failures_def circuit_reachable_inv [OF circuit_run_reachable])

theorem breaker_holds_back_witness:
  "\<not> Allowed (fst (CircuitService_Evaluate 1 5 (snd (RecordFailure 1 10 four_failures))))"
proof -
  have "tr_New (fst (RecordFailure 1 10 four_failures)) = CircuitOpen"
    by (simp add: four_failures_def circuit_run_def eval_nat_numeral ops Let_def NewProviderCircuit_def
        CircuitFailureThreshold_def)
  from breaker_holds_back [OF circuits_inv_four this, of 5] show ?thesis by simp
qed

text \<open>A half-open breaker does not hold back further attempts: after one collection was
  admitted as the probe, every later evaluation before its outcome is recorded is admitted too,
  although the comment in the code says that one probe is in flight at a time.\<close>

theorem half_open_admits_every_attempt:
  assumes "Probe (fst (CircuitService_Evaluate pid t tbl))" and "circuits_inv tbl"
  shows "Allowed (fst (CircuitService_Evaluate pid t' (snd (CircuitService_Evaluate pid t tbl)))) \<and>
    Probe (fst (CircuitService_Evaluate pid t' (snd (CircuitService_Evaluate pid t tbl))))"
proof -
  let ?c = "CircuitRepo_Get pid tbl"
  have id: "ci_ProviderID ?c = pid" by (rule circuits_inv_Get(1) [OF assms(2)])
  have "ci_State (CircuitRepo_Get pid (snd (CircuitService_Evaluate pid t tbl))) = CircuitHalfOpen"
    using assms(1) id
    by (auto simp: CircuitService_Evaluate_def Let_def Circuit_Evaluate_def CircuitRepo_Get_Upsert
        split: CircuitState.splits if_splits)
  then show ?thesis by (simp add: CircuitService_Evaluate_def [of pid t'] Let_def Circuit_Evaluate_def)
qed

theorem half_open_admits_every_attempt_witness:
  "Allowed (fst (CircuitService_Evaluate 1 (90 * Second)
     (snd (CircuitService_Evaluate 1 (70 * Second) (snd (RecordFailure 1 0 four_failures))))))"
proof -
  have "Probe (fst (CircuitService_Evaluate 1 (70 * Second) (snd (RecordFailure 1 0 four_failures))))"
    by (simp add: four_failures_def circuit_run_def eval_nat_numeral ops Let_def NewProviderCircuit_def
        CircuitFailureThreshold_def CircuitProbeDelay_def)
  from half_open_admits_every_attempt [OF this circuits_inv_service(2) [OF circuits_inv_four]]
  show ?thesis by blast
qed

end
