(* ===== verification/Collection_Domain.thy ===== *)
theory Collection_Domain
  imports Go_Float
begin

text \<open>
  The entities of the collection module, \<^verbatim>\<open>internal/collection/domain\<close>: the collection
  record and its accounting, forecast snapshots and their validation, observations with
  their physical ranges and the correction threshold.
\<close>

section \<open>Collections\<close>

datatype CollectionStatus = StatusPending | StatusSuccess | StatusPartial | StatusFailed
  | StatusDeduplicated | StatusRateLimited | StatusTimeout

definition Terminal :: "CollectionStatus \<Rightarrow> bool" where
  "Terminal s \<longleftrightarrow> s \<noteq> StatusPending"

definition Successful :: "CollectionStatus \<Rightarrow> bool" where
  "Successful s \<longleftrightarrow> s = StatusSuccess \<or> s = StatusPartial"

record ForecastCollection =
  fc_ID :: uuid
  fc_ProviderID :: uuid
  fc_LocationID :: uuid
  fc_ProviderConfigurationID :: uuid
  fc_RequestedAt :: instant
  fc_CompletedAt :: "instant option"
  fc_Status :: CollectionStatus
  fc_ProviderRequestID :: string
  fc_ProviderModelRunTime :: "instant option"
  fc_RawPayloadObjectKey :: string
  fc_RawPayloadChecksum :: string
  fc_ResponseStatusCode :: int
  fc_ResponseLatencyMS :: int
  fc_RecordsReceived :: int
  fc_SnapshotsStored :: int
  fc_SnapshotsDeduplicated :: int
  fc_SnapshotsInvalid :: int
  fc_SchemaVersion :: string
  fc_AdapterVersion :: string
  fc_ErrorCode :: string
  fc_ErrorMessage :: string
  fc_CreatedAt :: instant

definition AccountingHolds :: "ForecastCollection \<Rightarrow> bool" where
  "AccountingHolds c \<longleftrightarrow>
     fc_RecordsReceived c = fc_SnapshotsStored c + fc_SnapshotsDeduplicated c + fc_SnapshotsInvalid c"


section \<open>The condition taxonomy\<close>

definition canonicalCodes :: "string list" where
  "canonicalCodes = [''clear'', ''partly_cloudy'', ''cloudy'', ''fog'', ''drizzle'', ''rain'',
     ''heavy_rain'', ''thunderstorm'', ''snow'', ''sleet'', ''unknown'']"

definition IsValidCanonical :: "string \<Rightarrow> bool" where
  "IsValidCanonical code \<longleftrightarrow> code \<in> set canonicalCodes"


section \<open>Forecast snapshots\<close>

record ForecastSnapshot =
  fs_ID :: uuid
  fs_ForecastCollectionID :: uuid
  fs_ProviderID :: uuid
  fs_LocationID :: uuid
  fs_IssuedAt :: instant
  fs_TargetTime :: instant
  fs_ForecastHorizonMinutes :: int
  fs_TemperatureC :: "real option"
  fs_FeelsLikeTemperatureC :: "real option"
  fs_PrecipitationProbability :: "real option"
  fs_PrecipitationAmountMM :: "real option"
  fs_HumidityPct :: "real option"
  fs_WindSpeedMS :: "real option"
  fs_WindDirectionDeg :: "real option"
  fs_PressureHPa :: "real option"
  fs_CloudCoverPct :: "real option"
  fs_ProviderConditionCode :: string
  fs_CanonicalConditionCode :: string
  fs_ConditionTaxonomyVersion :: string
  fs_CreatedAt :: instant

text \<open>The rejection reasons, one constructor per message of the code.\<close>

datatype reason = TargetNotAfterIssued | HorizonNotPositive | TemperatureRange real
  | FeelsLikeRange | ProbabilityRange | PrecipAmountRange | HumidityRange | WindSpeedRange
  | WindDirectionRange | PressureRange | CloudCoverRange

definition outside :: "real option \<Rightarrow> real \<Rightarrow> real \<Rightarrow> bool" where
  "outside v lo hi = (case v of None \<Rightarrow> False | Some x \<Rightarrow> x < lo \<or> x > hi)"

definition Validate :: "ForecastSnapshot \<Rightarrow> reason list" where
  "Validate s =
     (if \<not> fs_TargetTime s > fs_IssuedAt s then [TargetNotAfterIssued] else []) @
     (if fs_ForecastHorizonMinutes s \<le> 0 then [HorizonNotPositive] else []) @
     (if outside (fs_TemperatureC s) (-90) 60 then [TemperatureRange (the (fs_TemperatureC s))] else []) @
     (if outside (fs_FeelsLikeTemperatureC s) (-90) 60 then [FeelsLikeRange] else []) @
     (if outside (fs_PrecipitationProbability s) 0 1 then [ProbabilityRange] else []) @
     (if outside (fs_PrecipitationAmountMM s) 0 500 then [PrecipAmountRange] else []) @
     (if outside (fs_HumidityPct s) 0 100 then [HumidityRange] else []) @
     (if outside (fs_WindSpeedMS s) 0 120 then [WindSpeedRange] else []) @
     (if outside (fs_WindDirectionDeg s) 0 360 then [WindDirectionRange] else []) @
     (if outside (fs_PressureHPa s) 870 1084 then [PressureRange] else []) @
     (if outside (fs_CloudCoverPct s) 0 100 then [CloudCoverRange] else [])"

text \<open>The constraints of table \<^verbatim>\<open>forecast_snapshots\<close>.\<close>

definition snapshot_checks :: "ForecastSnapshot \<Rightarrow> bool" where
  "snapshot_checks s \<longleftrightarrow>
     \<not> outside (fs_PrecipitationProbability s) 0 1 \<and>
     (\<forall>x. fs_PrecipitationAmountMM s = Some x \<longrightarrow> 0 \<le> x) \<and>
     \<not> outside (fs_HumidityPct s) 0 100 \<and>
     (\<forall>x. fs_WindSpeedMS s = Some x \<longrightarrow> 0 \<le> x) \<and>
     \<not> outside (fs_WindDirectionDeg s) 0 360 \<and>
     \<not> outside (fs_CloudCoverPct s) 0 100 \<and>
     fs_TargetTime s > fs_IssuedAt s"

lemma Validate_Nil_iff:
  "Validate s = [] \<longleftrightarrow> fs_TargetTime s > fs_IssuedAt s \<and> fs_ForecastHorizonMinutes s > 0 \<and>
     \<not> outside (fs_TemperatureC s) (-90) 60 \<and> \<not> outside (fs_FeelsLikeTemperatureC s) (-90) 60 \<and>
     \<not> outside (fs_PrecipitationProbability s) 0 1 \<and> \<not> outside (fs_PrecipitationAmountMM s) 0 500 \<and>
     \<not> outside (fs_HumidityPct s) 0 100 \<and> \<not> outside (fs_WindSpeedMS s) 0 120 \<and>
     \<not> outside (fs_WindDirectionDeg s) 0 360 \<and> \<not> outside (fs_PressureHPa s) 870 1084 \<and>
     \<not> outside (fs_CloudCoverPct s) 0 100"
  by (simp add: Validate_def not_le)

lemma Validate_checks: "Validate s = [] \<Longrightarrow> snapshot_checks s"
  by (auto simp: Validate_Nil_iff snapshot_checks_def outside_def)


section \<open>Observations\<close>

record Observation =
  ob_ID :: uuid
  ob_LocationID :: uuid
  ob_Source :: string
  ob_ObservationType :: string
  ob_ObservedAt :: instant
  ob_TemperatureC :: "real option"
  ob_HumidityPct :: "real option"
  ob_WindSpeedMS :: "real option"
  ob_WindDirectionDeg :: "real option"
  ob_PressureHPa :: "real option"
  ob_PrecipitationMM :: "real option"
  ob_ProviderConditionCode :: string
  ob_CanonicalConditionCode :: string
  ob_QualityFlag :: string
  ob_SupersededObservationID :: "uuid option"
  ob_CreatedAt :: instant

definition QualityValid :: string where "QualityValid = ''valid''"
definition QualityCorrected :: string where "QualityCorrected = ''corrected''"

definition ObservationType_Valid :: "string \<Rightarrow> bool" where
  "ObservationType_Valid t \<longleftrightarrow>
     t \<in> {''station_observation'', ''interpolated'', ''reanalysis'', ''provider_estimated''}"

definition RangeReasons :: "Observation \<Rightarrow> reason list" where
  "RangeReasons o' =
     (if outside (ob_TemperatureC o') (-90) 60 then [TemperatureRange (the (ob_TemperatureC o'))] else []) @
     (if outside (ob_HumidityPct o') 0 100 then [HumidityRange] else []) @
     (if outside (ob_WindSpeedMS o') 0 120 then [WindSpeedRange] else []) @
     (if outside (ob_WindDirectionDeg o') 0 360 then [WindDirectionRange] else []) @
     (if outside (ob_PressureHPa o') 870 1084 then [PressureRange] else []) @
     (if outside (ob_PrecipitationMM o') 0 500 then [PrecipAmountRange] else [])"

definition floatDiffers :: "(real \<Rightarrow> real) \<Rightarrow> real option \<Rightarrow> real option \<Rightarrow> real \<Rightarrow> bool" where
  "floatDiffers fl a b eps =
     (case (a, b) of (None, None) \<Rightarrow> False
      | (None, Some _) \<Rightarrow> True
      | (Some _, None) \<Rightarrow> True
      | (Some x, Some y) \<Rightarrow>
          let d0 = fsub fl x y; d = (if d0 < 0 then - d0 else d0) in d > eps)"

definition DiffersFrom :: "(real \<Rightarrow> real) \<Rightarrow> Observation \<Rightarrow> Observation \<Rightarrow> bool" where
  "DiffersFrom fl o' prev \<longleftrightarrow>
     floatDiffers fl (ob_TemperatureC o') (ob_TemperatureC prev) (fl 0.1) \<or>
     floatDiffers fl (ob_PrecipitationMM o') (ob_PrecipitationMM prev) (fl 0.05) \<or>
     floatDiffers fl (ob_HumidityPct o') (ob_HumidityPct prev) 1 \<or>
     floatDiffers fl (ob_WindSpeedMS o') (ob_WindSpeedMS prev) (fl 0.1) \<or>
     floatDiffers fl (ob_WindDirectionDeg o') (ob_WindDirectionDeg prev) 1 \<or>
     floatDiffers fl (ob_PressureHPa o') (ob_PressureHPa prev) (fl 0.5)"

context rounding
begin

text \<open>A correction threshold is symmetric, and no observation differs from itself.\<close>

lemma floatDiffers_sym: "floatDiffers fl a b eps = floatDiffers fl b a eps"
proof (cases a; cases b)
  fix x y
  assume "a = Some x" "b = Some y"
  moreover have "fl (x - y) = - fl (y - x)" using fl_neg [of "y - x"] by simp
  ultimately show ?thesis by (auto simp: floatDiffers_def fsub_def Let_def)
qed (simp_all add: floatDiffers_def)

lemma floatDiffers_refl: "0 \<le> eps \<Longrightarrow> \<not> floatDiffers fl a a eps"
  by (auto simp: floatDiffers_def fsub_def fl_0 split: option.splits)

lemma DiffersFrom_sym: "DiffersFrom fl a b = DiffersFrom fl b a"
  by (simp add: DiffersFrom_def floatDiffers_sym)

lemma DiffersFrom_refl: "\<not> DiffersFrom fl a a"
  by (simp add: DiffersFrom_def floatDiffers_refl fl_nonneg)

end

end
