(* ===== verification/Go_Text.thy ===== *)
theory Go_Text
  imports Platform
begin

unbundle bit_operations_syntax

text \<open>
  The parts of Go's standard library on text and bytes that the program uses: decimal
  printing (\<^verbatim>\<open>%d\<close>, \<^verbatim>\<open>%0nd\<close>, \<^verbatim>\<open>strconv\<close>), prefixes and substrings (\<^verbatim>\<open>strings\<close>), hexadecimal
  encoding (\<^verbatim>\<open>encoding/hex\<close>), SHA-256 and HMAC (\<^verbatim>\<open>crypto/sha256\<close>, \<^verbatim>\<open>crypto/hmac\<close>). A
  \<^verbatim>\<open>string\<close> and a \<^verbatim>\<open>[]byte\<close> are both a list of 8-bit characters.
\<close>

section \<open>Decimal numbers\<close>

fun digits10 :: "nat \<Rightarrow> string" where
  "digits10 n = (if n < 10 then [char_of (48 + n)] else digits10 (n div 10) @ [char_of (48 + n mod 10)])"

declare digits10.simps [simp del]

definition itoa :: "int \<Rightarrow> string" where
  "itoa n = (if n < 0 then CHR ''-'' # digits10 (nat (- n)) else digits10 (nat n))"

definition pad0 :: "nat \<Rightarrow> int \<Rightarrow> string" where
  "pad0 w n = (let s = digits10 (nat \<bar>n\<bar>); sign = (if n < 0 then ''-'' else [])
     in sign @ replicate (w - length sign - length s) (CHR ''0'') @ s)"

definition is_digit :: "char \<Rightarrow> bool" where
  "is_digit c \<longleftrightarrow> 48 \<le> (of_char c :: nat) \<and> (of_char c :: nat) \<le> 57"

definition digit_val :: "char \<Rightarrow> nat" where
  "digit_val c = of_char c - 48"

definition of_digits :: "string \<Rightarrow> nat" where
  "of_digits s = foldl (\<lambda>a c. 10 * a + digit_val c) 0 s"

text \<open>\<^verbatim>\<open>strconv.Atoi\<close>, without its range check.\<close>

definition Atoi :: "string \<Rightarrow> int option" where
  "Atoi s = (let (neg, ds) = (case s of [] \<Rightarrow> (False, [])
        | c # cs \<Rightarrow> if c = CHR ''-'' then (True, cs) else if c = CHR ''+'' then (False, cs) else (False, s))
     in if ds \<noteq> [] \<and> list_all is_digit ds
        then Some (if neg then - int (of_digits ds) else int (of_digits ds)) else None)"

lemma digit_char: "n < 10 \<Longrightarrow> is_digit (char_of (48 + n)) \<and> digit_val (char_of (48 + n)) = n"
  by (simp add: is_digit_def digit_val_def)

lemma digits10_digits: "list_all is_digit (digits10 n) \<and> digits10 n \<noteq> [] \<and> of_digits (digits10 n) = n"
proof (induction n rule: digits10.induct)
  case (1 n)
  show ?case
  proof (cases "n < 10")
    case True
    then show ?thesis using digit_char [of n] by (subst (1 2 3) digits10.simps) (simp add: of_digits_def)
  next
    case False
    with 1 digit_char [of "n mod 10"] show ?thesis
      by (subst (1 2 3) digits10.simps) (simp add: of_digits_def)
  qed
qed

lemma digits10_hd: "digits10 n = c # cs \<Longrightarrow> is_digit c"
  using digits10_digits [of n] by simp

text \<open>Printing then parsing gives the number back.\<close>

lemma Atoi_itoa: "Atoi (itoa n) = Some n"
proof (cases "n < 0")
  case True
  then show ?thesis
    using digits10_digits [of "nat (- n)"] by (auto simp: itoa_def Atoi_def)
next
  case False
  obtain c cs where c: "digits10 (nat n) = c # cs" using digits10_digits [of "nat n"] by (cases "digits10 (nat n)") auto
  with digits10_hd [OF c] have "c \<noteq> CHR ''-''" "c \<noteq> CHR ''+''" by (auto simp: is_digit_def)
  with False c digits10_digits [of "nat n"] show ?thesis by (auto simp: itoa_def Atoi_def)
qed

lemma itoa_inj: "itoa a = itoa b \<longleftrightarrow> a = b"
  by (metis Atoi_itoa option.inject)


section \<open>Substrings\<close>

fun HasPrefix :: "string \<Rightarrow> string \<Rightarrow> bool" where
  "HasPrefix s [] = True"
| "HasPrefix [] (p # ps) = False"
| "HasPrefix (c # s) (p # ps) = (c = p \<and> HasPrefix s ps)"

definition HasSuffix :: "string \<Rightarrow> string \<Rightarrow> bool" where
  "HasSuffix s p = HasPrefix (rev s) (rev p)"

definition TrimPrefix :: "string \<Rightarrow> string \<Rightarrow> string" where
  "TrimPrefix s p = (if HasPrefix s p then drop (length p) s else s)"

lemma HasPrefix_iff: "HasPrefix s p \<longleftrightarrow> (\<exists>r. s = p @ r)"
  by (induction s p rule: HasPrefix.induct) auto

fun Contains :: "string \<Rightarrow> string \<Rightarrow> bool" where
  "Contains [] p = (p = [])"
| "Contains (c # s) p = (HasPrefix (c # s) p \<or> Contains s p)"

text \<open>\<^verbatim>\<open>strings.Split\<close> at a single character.\<close>

fun split_at :: "char \<Rightarrow> string \<Rightarrow> string list" where
  "split_at d [] = [[]]"
| "split_at d (c # s) =
     (if c = d then [] # split_at d s
      else case split_at d s of [] \<Rightarrow> [[c]] | w # ws \<Rightarrow> (c # w) # ws)"

definition lower :: "char \<Rightarrow> char" where
  "lower c = (let n = of_char c :: nat in if 65 \<le> n \<and> n \<le> 90 then char_of (n + 32) else c)"

definition ToLower :: "string \<Rightarrow> string" where "ToLower s = map lower s"

fun join :: "string \<Rightarrow> string list \<Rightarrow> string" where
  "join sep [] = []"
| "join sep [w] = w"
| "join sep (w # ws) = w @ sep @ join sep ws"


section \<open>Hashing\<close>

definition hex_encode :: "string \<Rightarrow> string" where
  "hex_encode s = concat (map (\<lambda>c. [hexdigit (of_char c div 16), hexdigit (of_char c mod 16)]) s)"

type_synonym w32 = "32 word"

definition rotr :: "nat \<Rightarrow> w32 \<Rightarrow> w32" where
  "rotr n w = drop_bit n w OR push_bit (32 - n) w"

text \<open>
  The constants as the standard defines them: the first 32 bits of the fractional parts of the
  cube roots (round constants) and square roots (initial state) of the first primes. \<open>iroot\<close> finds the
  integer root bit by bit from \<open>2 ^ b\<close> down.
\<close>

fun iroot :: "nat \<Rightarrow> int \<Rightarrow> int \<Rightarrow> nat \<Rightarrow> int" where
  "iroot k n r 0 = r"
| "iroot k n r (Suc b) = iroot k n (if (r + 2 ^ b) ^ k \<le> n then r + 2 ^ b else r) b"

definition primes_upto :: "int \<Rightarrow> int list" where
  "primes_upto m = filter (\<lambda>p. list_all (\<lambda>d. p mod d \<noteq> 0) [2..p - 1]) [2..m]"

definition root_frac :: "nat \<Rightarrow> int \<Rightarrow> w32" where
  "root_frac k p = of_int (iroot k (p * 2 ^ (32 * k)) 0 36)"

definition sha_k :: "w32 list" where
  "sha_k = map (root_frac 3) (primes_upto 311)"

lemma iroot_correct:
  assumes "r ^ k \<le> n" "n < (r + 2 ^ b) ^ k"
  shows "iroot k n r b ^ k \<le> n \<and> n < (iroot k n r b + 1) ^ k"
  using assms
proof (induction b arbitrary: r)
  case (Suc b)
  have "r + 2 ^ b + 2 ^ b = r + 2 ^ Suc b" by simp
  with Suc.prems Suc.IH [of "r + 2 ^ b"] Suc.IH [of r] show ?case by (simp add: not_le)
qed simp

text \<open>The message schedule, newest word first.\<close>

fun sha_schedule :: "nat \<Rightarrow> w32 list \<Rightarrow> w32 list" where
  "sha_schedule 0 ws = ws"
| "sha_schedule (Suc n) ws =
     (let w15 = ws ! 14; w2 = ws ! 1;
          s0 = rotr 7 w15 XOR rotr 18 w15 XOR drop_bit 3 w15;
          s1 = rotr 17 w2 XOR rotr 19 w2 XOR drop_bit 10 w2
      in sha_schedule n ((ws ! 15 + s0 + ws ! 6 + s1) # ws))"

type_synonym sha_state = "w32 \<times> w32 \<times> w32 \<times> w32 \<times> w32 \<times> w32 \<times> w32 \<times> w32"

definition sha_round :: "sha_state \<Rightarrow> w32 \<times> w32 \<Rightarrow> sha_state" where
  "sha_round = (\<lambda>(a, b, c, d, e, f, g, h) (k, w).
     let t1 = h + (rotr 6 e XOR rotr 11 e XOR rotr 25 e) + ((e AND f) XOR ((NOT e) AND g)) + k + w;
         t2 = (rotr 2 a XOR rotr 13 a XOR rotr 22 a) + ((a AND b) XOR (a AND c) XOR (b AND c))
     in (t1 + t2, a, b, c, d + t1, e, f, g))"

fun be_words :: "int list \<Rightarrow> w32 list" where
  "be_words (a # b # c # d # r) = word_of_int (16777216 * a + 65536 * b + 256 * c + d) # be_words r"
| "be_words r = []"

definition sha_h0 :: sha_state where
  "sha_h0 = (root_frac 2 2, root_frac 2 3, root_frac 2 5, root_frac 2 7, root_frac 2 11, root_frac 2 13, root_frac 2 17, root_frac 2 19)"

definition sha_block :: "sha_state \<Rightarrow> int list \<Rightarrow> sha_state" where
  "sha_block st blk =
     (case (st, foldl sha_round st (zip sha_k (rev (sha_schedule 48 (rev (be_words blk)))))) of
        ((a, b, c, d, e, f, g, h), (a', b', c', d', e', f', g', h')) \<Rightarrow>
          (a + a', b + b', c + c', d + d', e + e', f + f', g + g', h + h'))"

definition be_bytes :: "nat \<Rightarrow> int \<Rightarrow> int list" where
  "be_bytes k n = rev (map (\<lambda>i. n div 256 ^ i mod 256) [0..<k])"

definition sha_digest :: "sha_state \<Rightarrow> string" where
  "sha_digest = (\<lambda>(a, b, c, d, e, f, g, h).
     map char_of (concat (map (\<lambda>w. be_bytes 4 (uint w)) [a, b, c, d, e, f, g, h])))"

definition sha_pad :: "int list \<Rightarrow> int list" where
  "sha_pad bs = bs @ 128 # replicate ((119 - length bs mod 64) mod 64) 0 @ be_bytes 8 (8 * int (length bs))"

fun chunks64 :: "nat \<Rightarrow> int list \<Rightarrow> int list list" where
  "chunks64 0 bs = []"
| "chunks64 (Suc n) bs = take 64 bs # chunks64 n (drop 64 bs)"

definition Sum256 :: "string \<Rightarrow> string" where
  "Sum256 msg =
     (let bs = sha_pad (map of_char msg)
      in sha_digest (foldl sha_block sha_h0 (chunks64 (length bs div 64) bs)))"

definition hmac_sha256 :: "string \<Rightarrow> string \<Rightarrow> string" where
  "hmac_sha256 key msg =
     (let k0 = (if length key > 64 then Sum256 key else key);
          k = map of_char k0 @ replicate (64 - length k0) 0;
          pad = (\<lambda>b::int. map (\<lambda>x. char_of (x XOR b)) k)
      in Sum256 (pad 0x5c @ Sum256 (pad 0x36 @ msg)))"

lemma length_be_bytes [simp]: "length (be_bytes k n) = k"
  by (simp add: be_bytes_def)

lemma pad_length: "(n + (1 + ((119 - n mod 64) mod 64 + 8))) mod 64 = (0 :: nat)"
proof -
  define q r where "q = n div 64" and "r = n mod 64"
  have n: "n = 64 * q + r" and r: "r < 64" by (simp_all add: q_def r_def)
  have "\<exists>m. n + (1 + ((119 - r) mod 64 + 8)) = 64 * m"
  proof (cases "r \<le> 55")
    case True
    then have "119 - r = (55 - r) + 64" by simp
    then have "(119 - r) mod 64 = (55 - r) mod 64" by (simp only: mod_add_self2)
    then have "(119 - r) mod 64 = 55 - r" by (simp only: mod_less [of "55 - r" 64])
    with True n show ?thesis by (intro exI [of _ "q + 1"]) simp
  next
    case False
    with r have "(119 - r) mod 64 = 119 - r" by (intro mod_less) linarith
    with False r n show ?thesis by (intro exI [of _ "q + 2"]) simp
  qed
  then show ?thesis by (auto simp: r_def)
qed

lemma length_sha_pad: "64 dvd length (sha_pad bs)"
  using pad_length [of "length bs"] by (simp only: sha_pad_def length_append length_Cons length_replicate
    length_be_bytes dvd_eq_mod_eq_0) (simp only: add_Suc_right add_0 plus_1_eq_Suc add_Suc)

text \<open>A digest has 32 bytes, its hexadecimal text 64 characters.\<close>

lemma length_Sum256: "length (Sum256 msg) = 32"
  by (simp add: Sum256_def Let_def sha_digest_def case_prod_beta')

lemma length_hex_encode: "length (hex_encode s) = 2 * length s"
  by (induction s) (simp_all add: hex_encode_def)

end
