(* ===== verification/Go_Time.thy ===== *)
theory Go_Time
  imports Fiq_Prelude
begin

text \<open>
  The part of Go's \<^verbatim>\<open>time\<close> package the program uses, for UTC instants: truncation, the
  proleptic Gregorian calendar behind \<^verbatim>\<open>time.Date\<close>, \<^verbatim>\<open>Year/Month/Day/Weekday\<close> and
  \<^verbatim>\<open>AddDate\<close>. An instant is a whole number of nanoseconds since 1970-01-01T00:00:00Z.
\<close>

section \<open>Truncation\<close>

text \<open>
  \<^verbatim>\<open>t.Truncate(d)\<close> rounds down to a multiple of \<open>d\<close> since the zero time (year 1), which
  lies 62135596800 seconds before the epoch.
\<close>

text \<open>\<open>Duration.Milliseconds\<close> divides towards zero.\<close>

definition Milliseconds :: "duration \<Rightarrow> int" where
  "Milliseconds d = sgn d * (\<bar>d\<bar> div Millisecond)"

definition Truncate :: "instant \<Rightarrow> duration \<Rightarrow> instant" where
  "Truncate t d = (if d \<le> 0 then t else t - (t + 62135596800 * Second) mod d)"

lemma Truncate_Hour: "Truncate t Hour = t - t mod Hour"
proof -
  have "(t + 17259888 * Hour) mod Hour = t mod Hour" by (rule mod_mult_self1)
  then show ?thesis by (simp add: Truncate_def)
qed

lemma Truncate_Hour_le: "Truncate t Hour \<le> t" and Truncate_Hour_gt: "t < Truncate t Hour + Hour"
  by (simp_all add: Truncate_Hour)

lemma Truncate_Hour_mod: "Truncate t Hour mod Hour = 0"
  by (simp add: Truncate_Hour minus_mod_eq_mult_div)

lemma Truncate_Hour_idem: "Truncate (Truncate t Hour) Hour = Truncate t Hour"
  using Truncate_Hour_mod [of t] by (simp only: Truncate_Hour diff_zero)


section \<open>The calendar\<close>

definition is_leap :: "int \<Rightarrow> bool" where
  "is_leap y \<longleftrightarrow> y mod 4 = 0 \<and> (y mod 100 \<noteq> 0 \<or> y mod 400 = 0)"

text \<open>Days from 0001-01-01 to the first day of year \<open>y\<close>.\<close>

definition days_before_year :: "int \<Rightarrow> int" where
  "days_before_year y = (let a = y - 1 in 365 * a + a div 4 - a div 100 + a div 400)"

definition days_in_month :: "int \<Rightarrow> int \<Rightarrow> int" where
  "days_in_month y m = (if m = 2 then (if is_leap y then 29 else 28)
     else if m = 4 \<or> m = 6 \<or> m = 9 \<or> m = 11 then 30 else 31)"

fun days_before_month :: "int \<Rightarrow> nat \<Rightarrow> int" where
  "days_before_month y 0 = 0"
| "days_before_month y (Suc k) = days_before_month y k + days_in_month y (int k + 1)"

text \<open>Day number (1970-01-01 is day 0) of a date; an out-of-range month or day is normalised as \<^verbatim>\<open>time.Date\<close> does.\<close>

definition date_days :: "int \<Rightarrow> int \<Rightarrow> int \<Rightarrow> int" where
  "date_days y m d =
     (let y' = y + (m - 1) div 12; m' = (m - 1) mod 12
      in days_before_year y' + days_before_month y' (nat m') + (d - 1) - 719162)"

definition Date_utc :: "int \<Rightarrow> int \<Rightarrow> int \<Rightarrow> instant" where
  "Date_utc y m d = date_days y m d * Day"

definition day_of :: "instant \<Rightarrow> int" where
  "day_of t = t div Day"

text \<open>The year of a day number: an estimate from the mean year length, corrected by one.\<close>

definition year_of_day :: "int \<Rightarrow> int" where
  "year_of_day n =
     (let r = n + 719162; y0 = r * 400 div 146097 + 1
      in if r < days_before_year y0 then y0 - 1
         else if days_before_year (y0 + 1) \<le> r then y0 + 1 else y0)"

fun find_month :: "int \<Rightarrow> int \<Rightarrow> nat \<Rightarrow> nat" where
  "find_month y r 0 = 0"
| "find_month y r (Suc k) = (if days_before_month y (Suc k) \<le> r then Suc k else find_month y r k)"

definition Year :: "instant \<Rightarrow> int" where
  "Year t = year_of_day (day_of t)"

definition yday :: "instant \<Rightarrow> int" where
  "yday t = day_of t + 719162 - days_before_year (Year t)"

definition Month :: "instant \<Rightarrow> int" where
  "Month t = int (find_month (Year t) (yday t) 11) + 1"

definition DayOfMonth :: "instant \<Rightarrow> int" where
  "DayOfMonth t = yday t - days_before_month (Year t) (nat (Month t - 1)) + 1"

text \<open>Sunday is 0; 1970-01-01 was a Thursday.\<close>

definition Weekday :: "instant \<Rightarrow> int" where
  "Weekday t = (day_of t + 4) mod 7"

definition AddDate :: "int \<Rightarrow> int \<Rightarrow> int \<Rightarrow> instant \<Rightarrow> instant" where
  "AddDate y m d t = Date_utc (Year t + y) (Month t + m) (DayOfMonth t + d) + t mod Day"


section \<open>Correctness of the calendar\<close>

lemma div_pred:
  fixes b k :: int
  assumes "0 < k"
  shows "b div k = (b - 1) div k + (if b mod k = 0 then 1 else 0)"
proof (cases "b mod k = 0")
  case True
  have "b = b div k * k + b mod k" by simp
  with True have "b - 1 = k * (b div k - 1) + (k - 1)" by (simp add: algebra_simps)
  with True assms show ?thesis by (subst int_div_pos_eq [of "b - 1" k "b div k - 1" "k - 1"]) auto
next
  case False
  have "0 \<le> b mod k" "b mod k < k" using assms by simp_all
  moreover have "b - 1 = k * (b div k) + (b mod k - 1)" by simp
  ultimately show ?thesis
    using False by (subst int_div_pos_eq [of "b - 1" k "b div k" "b mod k - 1"]) auto
qed

lemma leap_count:
  fixes a b c :: int
  assumes "a' = a + (if P then 1 else 0)" "b' = b + (if Q then 1 else 0)" "c' = c + (if R then 1 else 0)"
    and "R \<longrightarrow> Q" "Q \<longrightarrow> P"
  shows "365 * y + a' - b' + c' = 365 * (y - 1) + a - b + c + (if P \<and> (\<not> Q \<or> R) then 366 else 365)"
  using assms by (cases P; cases Q; cases R) simp_all

lemma days_before_year_Suc:
  "days_before_year (y + 1) = days_before_year y + (if is_leap y then 366 else 365)"
proof -
  have "y mod 400 mod 100 = y mod 100" "y mod 100 mod 4 = y mod 4" by (rule mod_mod_cancel; simp)+
  then have m: "y mod 400 = 0 \<longrightarrow> y mod 100 = 0" "y mod 100 = 0 \<longrightarrow> y mod 4 = 0" by auto
  have "0 < (4 :: int)" "0 < (100 :: int)" "0 < (400 :: int)" by simp_all
  note eq = leap_count [OF this [THEN div_pred] m, of y]
  show ?thesis
    by (simp only: days_before_year_def is_leap_def Let_def add_diff_cancel_right' eq)
qed

lemma days_before_month_12: "days_before_month y 12 = (if is_leap y then 366 else 365)"
  by (simp add: eval_nat_numeral days_in_month_def)

text \<open>400 years have 146097 days; a year starts within a few days of the mean.\<close>

lemma days_before_year_mean:
  "146097 * y - 146796 \<le> 400 * days_before_year y"
  "400 * days_before_year y \<le> 146097 * y - 145701"
proof -
  define a where "a = y - 1"
  have y: "y = a + 1" by (simp add: a_def)
  have "a = 4 * (a div 4) + a mod 4" "a = 100 * (a div 100) + a mod 100" "a = 400 * (a div 400) + a mod 400"
    by simp_all
  moreover have "0 \<le> a mod 4" "a mod 4 \<le> 3" "0 \<le> a mod 100" "a mod 100 \<le> 99" "0 \<le> a mod 400" "a mod 400 \<le> 399"
    by (simp_all add: zle_diff1_eq [symmetric])
  moreover have "days_before_year y = 365 * a + a div 4 - a div 100 + a div 400"
    by (simp add: days_before_year_def a_def Let_def)
  ultimately have "146097 * a - 699 \<le> 400 * days_before_year y"
    and "400 * days_before_year y \<le> 146097 * a + 396" by linarith+
  then show "146097 * y - 146796 \<le> 400 * days_before_year y"
    "400 * days_before_year y \<le> 146097 * y - 145701" by (simp_all add: y)
qed

lemma year_of_day:
  "days_before_year (year_of_day n) \<le> n + 719162"
  "n + 719162 < days_before_year (year_of_day n + 1)"
proof -
  define r where "r = n + 719162"
  define q where "q = r * 400 div 146097"
  have "r * 400 = 146097 * q + r * 400 mod 146097" unfolding q_def by (rule mult_div_mod_eq [symmetric])
  moreover have "0 \<le> r * 400 mod 146097" "r * 400 mod 146097 < 146097" by simp_all
  ultimately have q: "146097 * q \<le> r * 400" "r * 400 < 146097 * q + 146097" by linarith+
  have lo: "days_before_year q \<le> r" using days_before_year_mean(2) [of q] q by linarith
  have hi: "r < days_before_year (q + 3)" using days_before_year_mean(1) [of "q + 3"] q by simp
  show "days_before_year (year_of_day n) \<le> n + 719162"
    "n + 719162 < days_before_year (year_of_day n + 1)"
    using lo hi unfolding year_of_day_def Let_def r_def [symmetric] q_def [symmetric]
    by (simp_all add: add.assoc)
qed

lemma days_before_month_mono: "days_before_month y k \<le> days_before_month y (Suc k)"
  by (simp add: days_in_month_def)

lemma days_before_month_nonneg: "0 \<le> days_before_month y k"
  by (induction k) (auto simp: days_in_month_def)

lemma find_month_spec:
  assumes "0 \<le> r"
  shows "find_month y r k \<le> k" and "days_before_month y (find_month y r k) \<le> r"
    and "find_month y r k < k \<Longrightarrow> r < days_before_month y (Suc (find_month y r k))"
proof -
  have "find_month y r k \<le> k \<and> days_before_month y (find_month y r k) \<le> r \<and>
    (find_month y r k < k \<longrightarrow> r < days_before_month y (Suc (find_month y r k)))"
    using assms
  proof (induction k)
    case (Suc k)
    then show ?case by (cases "find_month y r k < k") (auto simp: less_Suc_eq)
  qed simp
  then show "find_month y r k \<le> k" "days_before_month y (find_month y r k) \<le> r"
    "find_month y r k < k \<Longrightarrow> r < days_before_month y (Suc (find_month y r k))" by blast+
qed

lemma yday_bounds: "0 \<le> yday t" "yday t < days_before_month (Year t) 12"
  using year_of_day [of "day_of t"] days_before_year_Suc [of "Year t"]
  by (simp_all add: yday_def Year_def days_before_month_12)

lemma Month_range: "1 \<le> Month t" "Month t \<le> 12"
  using find_month_spec(1) [OF yday_bounds(1), of "Year t" t 11] by (simp_all add: Month_def)

lemma Month_index: "nat (Month t - 1) = find_month (Year t) (yday t) 11"
  by (simp add: Month_def)

lemma DayOfMonth_range: "1 \<le> DayOfMonth t" "DayOfMonth t \<le> days_in_month (Year t) (Month t)"
proof -
  let ?k = "find_month (Year t) (yday t) 11"
  note sp = find_month_spec [OF yday_bounds(1), of "Year t" t 11]
  show "1 \<le> DayOfMonth t" using sp(2) by (simp add: DayOfMonth_def Month_index)
  have "yday t < days_before_month (Year t) (Suc ?k)"
  proof (cases "?k < 11")
    case False
    with sp(1) have "?k = 11" by simp
    with yday_bounds(2) [of t] show ?thesis by simp
  qed (rule sp(3))
  then show "DayOfMonth t \<le> days_in_month (Year t) (Month t)"
    by (simp add: DayOfMonth_def Month_index) (simp add: Month_def add.commute)
qed

text \<open>Reading the date of an instant and building it again is the start of its day.\<close>

lemma date_days_of: "date_days (Year t) (Month t) d = day_of t - DayOfMonth t + d"
  using Month_range [of t]
  by (simp add: date_days_def Let_def Month_index div_pos_pos_trivial mod_pos_pos_trivial DayOfMonth_def yday_def)

lemma Date_utc_of: "Date_utc (Year t) (Month t) (DayOfMonth t + k) = (day_of t + k) * Day"
  by (simp add: Date_utc_def date_days_of)

lemma days_before_year_mono: "y \<le> z \<Longrightarrow> days_before_year y \<le> days_before_year z"
proof (induction z rule: int_ge_induct)
  case (step i)
  then show ?case by (simp add: days_before_year_Suc)
qed simp

lemma year_of_day_unique:
  assumes "days_before_year y \<le> n + 719162" "n + 719162 < days_before_year (y + 1)"
  shows "year_of_day n = y"
proof (rule antisym)
  show "year_of_day n \<le> y"
    using days_before_year_mono [of "y + 1" "year_of_day n"] year_of_day(1) [of n] assms(2) by linarith
  show "y \<le> year_of_day n"
    using days_before_year_mono [of "year_of_day n + 1" y] year_of_day(2) [of n] assms(1) by linarith
qed

lemma days_before_month_le: "j \<le> k \<Longrightarrow> days_before_month y j \<le> days_before_month y k"
  by (rule lift_Suc_mono_le [of "days_before_month y"]) (rule days_before_month_mono)

lemma find_month_unique:
  assumes "days_before_month y j \<le> r" "r < days_before_month y (Suc j)" "j \<le> k"
  shows "find_month y r k = j"
  using assms(3)
proof (induction k)
  case (Suc k)
  show ?case
  proof (cases "j \<le> k")
    case True
    then have "\<not> days_before_month y (Suc k) \<le> r"
      using days_before_month_le [of "Suc j" "Suc k" y] assms(2) by linarith
    with True Suc show ?thesis by (simp del: days_before_month.simps)
  next
    case False
    with Suc.prems assms(1) show ?thesis by (simp add: le_Suc_eq del: days_before_month.simps)
  qed
qed simp

text \<open>A valid date is read back as it was built.\<close>

lemma Date_utc_fields:
  assumes "1 \<le> m" "m \<le> 12" "1 \<le> d" "d \<le> days_in_month y m"
  shows "Year (Date_utc y m d) = y" "Month (Date_utc y m d) = m" "DayOfMonth (Date_utc y m d) = d"
    and "day_of (Date_utc y m d) = date_days y m d"
proof -
  let ?t = "Date_utc y m d" and ?k = "nat (m - 1)"
  show day: "day_of ?t = date_days y m d" by (simp add: Date_utc_def day_of_def)
  have dd: "date_days y m d = days_before_year y + days_before_month y ?k + (d - 1) - 719162"
    using assms by (simp add: date_days_def Let_def div_pos_pos_trivial mod_pos_pos_trivial)
  have k: "days_before_month y (Suc ?k) = days_before_month y ?k + days_in_month y m"
    using assms by simp
  have "days_before_month y (Suc ?k) \<le> days_before_month y 12"
    using assms by (intro days_before_month_le) auto
  then have "days_before_month y ?k + (d - 1) < days_before_year (y + 1) - days_before_year y"
    using k assms by (simp add: days_before_year_Suc days_before_month_12)
  then show Y: "Year ?t = y"
    unfolding Year_def day dd
    using assms days_before_month_nonneg [of y ?k] by (intro year_of_day_unique) auto
  have r: "yday ?t = days_before_month y ?k + (d - 1)" by (simp add: yday_def Y day dd)
  have "find_month y (yday ?t) 11 = ?k"
    using assms k by (intro find_month_unique) (auto simp: r simp del: days_before_month.simps)
  then show M: "Month ?t = m" using assms by (simp add: Month_def Y)
  show "DayOfMonth ?t = d" by (simp add: DayOfMonth_def Y M r)
qed

lemma days_in_month_pos: "28 \<le> days_in_month y m" "days_in_month y m \<le> 31"
  by (simp_all add: days_in_month_def)

lemma date_days_next_month:
  assumes "1 \<le> m" "m \<le> 12"
  shows "date_days y (m + 1) 1 = date_days y m 1 + days_in_month y m"
proof (cases "m = 12")
  case True
  have "days_before_month y 12 = days_before_month y 11 + days_in_month y 12"
    by (simp add: eval_nat_numeral(2,3))
  with True show ?thesis
    by (simp add: date_days_def Let_def days_before_year_Suc days_before_month_12)
next
  case False
  with assms have "nat m = Suc (nat (m - 1))" by simp
  with False assms show ?thesis
    by (simp add: date_days_def Let_def div_pos_pos_trivial mod_pos_pos_trivial)
qed

text \<open>\<^verbatim>\<open>AddDate\<close> on days moves whole days; on months it moves a first-of-month to the next one.\<close>

lemma AddDate_days: "AddDate 0 0 k t = t + k * Day"
proof -
  have "AddDate 0 0 k t = (day_of t + k) * Day + t mod Day" by (simp add: AddDate_def Date_utc_of)
  also have "\<dots> = t + k * Day"
    unfolding day_of_def distrib_right using div_mult_mod_eq [of t Day] by linarith
  finally show ?thesis .
qed

lemma AddDate_month:
  assumes "1 \<le> m" "m \<le> 12"
  shows "AddDate 0 1 0 (Date_utc y m 1) = Date_utc y m 1 + days_in_month y m * Day"
proof -
  have f: "1 \<le> days_in_month y m" using days_in_month_pos(1) [of y m] by simp
  note F = Date_utc_fields [OF assms order.refl this]
  have "AddDate 0 1 0 (Date_utc y m 1) = Date_utc y (m + 1) 1 + Date_utc y m 1 mod Day"
    by (simp add: AddDate_def F)
  also have "\<dots> = Date_utc y m 1 + days_in_month y m * Day"
    by (simp add: Date_utc_def date_days_next_month [OF assms] distrib_right)
  finally show ?thesis .
qed

text \<open>The first instant of the month of \<open>t\<close>, and the month it starts.\<close>

definition month_start :: "instant \<Rightarrow> instant" where
  "month_start t = Date_utc (Year t) (Month t) 1"

lemma month_start_le: "month_start t \<le> t" and month_start_gt: "t < AddDate 0 1 0 (month_start t)"
proof -
  have ms: "month_start t = (day_of t - DayOfMonth t + 1) * Day"
    by (simp add: month_start_def Date_utc_def date_days_of)
  have t: "t = day_of t * Day + t mod Day" by (simp add: day_of_def)
  have r: "0 \<le> t mod Day" "t mod Day < Day" by simp_all
  have "(day_of t - DayOfMonth t + 1) * Day \<le> day_of t * Day"
    using DayOfMonth_range(1) [of t] by (intro mult_right_mono) auto
  with ms t r show "month_start t \<le> t" by linarith
  have "day_of t * Day + Day \<le> (day_of t - DayOfMonth t + 1 + days_in_month (Year t) (Month t)) * Day"
    using DayOfMonth_range(2) [of t] by simp
  then show "t < AddDate 0 1 0 (month_start t)"
    using t r ms AddDate_month [OF Month_range [of t], of "Year t"]
    unfolding month_start_def distrib_right by linarith
qed

end
