(* ===== verification/Ports.thy ===== *)
theory Ports
  imports Collection_Domain Go_Text Go_Time
begin

text \<open>
  The contract between the collection services and the provider adapters,
  \<^verbatim>\<open>internal/collection/ports\<close>: outcomes, classified errors, requests and results, and
  the naming and checksum of stored payloads.
\<close>

section \<open>Outcomes and classified errors\<close>

datatype Outcome = OutcomeSuccess | OutcomePartial | OutcomeFailed | OutcomeRateLimited
  | OutcomeTimeout | OutcomeAuthFailed

definition Outcome_str :: "Outcome \<Rightarrow> string" where
  "Outcome_str c = (case c of OutcomeSuccess \<Rightarrow> ''success'' | OutcomePartial \<Rightarrow> ''partial''
     | OutcomeFailed \<Rightarrow> ''failed'' | OutcomeRateLimited \<Rightarrow> ''rate_limited''
     | OutcomeTimeout \<Rightarrow> ''timeout'' | OutcomeAuthFailed \<Rightarrow> ''auth_failed'')"

datatype ErrorCode = ErrTimeout | ErrProvider5xx | ErrRateLimited | ErrSchemaDrift | ErrNetworkLocal
  | ErrDBError | ErrPayloadWriteFailed | ErrCircuitOpen | ErrInvalidCredentials

definition ErrorCode_str :: "ErrorCode \<Rightarrow> string" where
  "ErrorCode_str c = (case c of ErrTimeout \<Rightarrow> ''timeout'' | ErrProvider5xx \<Rightarrow> ''provider_5xx''
     | ErrRateLimited \<Rightarrow> ''rate_limited'' | ErrSchemaDrift \<Rightarrow> ''schema_drift''
     | ErrNetworkLocal \<Rightarrow> ''network_local'' | ErrDBError \<Rightarrow> ''db_error''
     | ErrPayloadWriteFailed \<Rightarrow> ''payload_write_failed'' | ErrCircuitOpen \<Rightarrow> ''circuit_open''
     | ErrInvalidCredentials \<Rightarrow> ''invalid_credentials'')"

record RateLimit =
  rl_Limit :: int
  rl_Remaining :: int
  rl_Reset :: "instant option"
  rl_RetryAfter :: "duration option"

record ProviderError =
  pe_Code :: ErrorCode
  pe_HTTPStatus :: int
  pe_Retryable :: bool
  pe_RateLimit :: "RateLimit option"

definition NewProviderError :: "ErrorCode \<Rightarrow> int \<Rightarrow> bool \<Rightarrow> ProviderError" where
  "NewProviderError code httpStatus retryable =
     \<lparr>pe_Code = code, pe_HTTPStatus = httpStatus, pe_Retryable = retryable, pe_RateLimit = None\<rparr>"

definition ProviderError_Error :: "ProviderError \<Rightarrow> string" where
  "ProviderError_Error e =
     (if pe_HTTPStatus e > 0
      then ''provider error: '' @ ErrorCode_str (pe_Code e) @ '' (status '' @ itoa (pe_HTTPStatus e) @ '')''
      else ''provider error: '' @ ErrorCode_str (pe_Code e))"

definition ProviderError_Outcome :: "ProviderError \<Rightarrow> Outcome" where
  "ProviderError_Outcome e =
     (case pe_Code e of ErrTimeout \<Rightarrow> OutcomeTimeout | ErrRateLimited \<Rightarrow> OutcomeRateLimited
      | ErrInvalidCredentials \<Rightarrow> OutcomeAuthFailed | _ \<Rightarrow> OutcomeFailed)"


section \<open>Requests and results\<close>

record ForecastRequest =
  fq_ProviderID :: uuid
  fq_LocationID :: uuid
  fq_ProviderSlug :: string
  fq_BaseURL :: string
  fq_Credential :: string
  fq_Latitude :: real
  fq_Longitude :: real
  fq_Timezone :: string
  fq_IssuedAt :: instant

text \<open>A result carries an error message in place of the wrapped Go error.\<close>

record ForecastResult =
  fr_RawPayload :: string
  fr_Checksum :: string
  fr_HTTPStatusCode :: int
  fr_LatencyMS :: int
  fr_ProviderRequestID :: string
  fr_ModelRunTime :: "instant option"
  fr_SchemaVersion :: string
  fr_AdapterVersion :: string
  fr_IssuedAt :: instant
  fr_Snapshots :: "ForecastSnapshot list"
  fr_RecordsReceived :: int
  fr_InvalidCount :: int
  fr_InvalidReasons :: "string list"
  fr_UnmappedConditions :: "(string \<times> int) list"
  fr_RateLimit :: "RateLimit option"
  fr_Outcome :: Outcome
  fr_ErrorCode :: string
  fr_Err :: "string option"

record Capabilities =
  MaxForecastHorizon :: duration
  HourlyResolution :: bool
  RequiresCredential :: bool
  SupportsReplay :: bool

record ObservationRequest =
  oq_LocationID :: uuid
  oq_Source :: string
  oq_BaseURL :: string
  oq_Latitude :: real
  oq_Longitude :: real
  oq_Timezone :: string
  oq_WindowStart :: instant
  oq_WindowEnd :: instant

record ObservationResult =
  or_Observations :: "Observation list"
  or_RecordsReceived :: int
  or_SuspectCount :: int
  or_InvalidCount :: int
  or_InvalidReasons :: "string list"
  or_HTTPStatusCode :: int
  or_LatencyMS :: int
  or_Source :: string
  or_SchemaVersion :: string
  or_AdapterVersion :: string
  or_RateLimit :: "RateLimit option"
  or_Outcome :: Outcome
  or_ErrorCode :: string
  or_Err :: "string option"

record CollectionFilter =
  cf_ProviderID :: "uuid option"
  cf_LocationID :: "uuid option"
  cf_Status :: "CollectionStatus option"
  cf_Cursor :: uuid
  cf_Limit :: int


section \<open>Stored payloads\<close>

definition PayloadSchemeFile :: string where "PayloadSchemeFile = ''file://''"

definition Checksum :: "string \<Rightarrow> string" where
  "Checksum raw = hex_encode (Sum256 raw)"

definition VerifyChecksum :: "string \<Rightarrow> string \<Rightarrow> bool" where
  "VerifyChecksum raw checksum \<longleftrightarrow> Checksum raw = checksum"

definition BuildPayloadKey :: "(uuid \<Rightarrow> string) \<Rightarrow> string \<Rightarrow> instant \<Rightarrow> uuid \<Rightarrow> string" where
  "BuildPayloadKey ustr providerSlug t collectionID =
     PayloadSchemeFile @ providerSlug @ ''/'' @ pad0 4 (Year t) @ ''/'' @ pad0 2 (Month t) @ ''/'' @
     pad0 2 (DayOfMonth t) @ ''/'' @ ustr collectionID @ ''.json.gz''"

end
