(* ===== verification/Catalog.thy ===== *)
theory Catalog
  imports Platform Go_Time
begin

text \<open>
  The catalog module, \<^verbatim>\<open>internal/catalog\<close>: lifecycle status, providers and their
  configurations, the hourly schedule, locations with the great-circle duplicate check, the
  services that mutate them and the tables behind them
  (\<^verbatim>\<open>adapters/persistence/catalogpg\<close>). The time-zone database consulted by
  \<^verbatim>\<open>time.LoadLocation\<close> is a parameter \<open>tz_ok\<close>; fresh identifiers and clock readings are
  arguments. Trigonometry is read in exact arithmetic.
\<close>

section \<open>Status and validation errors\<close>

definition StatusActive :: string where "StatusActive = ''active''"
definition StatusDisabled :: string where "StatusDisabled = ''disabled''"
definition StatusArchived :: string where "StatusArchived = ''archived''"

lemmas status_defs = StatusActive_def StatusDisabled_def StatusArchived_def

definition Status_Valid :: "string \<Rightarrow> bool" where
  "Status_Valid s \<longleftrightarrow> s = StatusActive \<or> s = StatusDisabled \<or> s = StatusArchived"

definition Settable :: "string \<Rightarrow> bool" where
  "Settable s \<longleftrightarrow> s = StatusActive \<or> s = StatusDisabled"

definition Active :: "string \<Rightarrow> bool" where
  "Active s \<longleftrightarrow> s = StatusActive"

datatype cat_error = ErrNotFound | ErrInactive
  | ValidationError "(string \<times> string) list"
  | DuplicateLocationError uuid string real
  | NameConflictError string
  | StatusTransitionError string string
  | DbError string

definition ErrorOrNil :: "(string \<times> string) list \<Rightarrow> (cat_error, unit) result" where
  "ErrorOrNil errs = (if errs \<noteq> [] then Inl (ValidationError errs) else Inr ())"

text \<open>\<^verbatim>\<open>strings.TrimSpace\<close> on ASCII text.\<close>

definition is_space :: "char \<Rightarrow> bool" where
  "is_space c \<longleftrightarrow> c = CHR '' '' \<or> (let n = of_char c :: nat in 9 \<le> n \<and> n \<le> 13)"

definition TrimSpace :: "string \<Rightarrow> string" where
  "TrimSpace s = rev (dropWhile is_space (rev (dropWhile is_space s)))"


section \<open>Providers, configurations, schedules\<close>

record Provider =
  pr_ID :: uuid
  pr_Name :: string
  pr_Slug :: string
  pr_APIBaseURL :: string
  pr_Status :: string
  pr_AttributionText :: string
  pr_AttributionURL :: string
  pr_CreatedAt :: instant
  pr_UpdatedAt :: instant

definition Provider_Validate :: "Provider \<Rightarrow> (cat_error, unit) result" where
  "Provider_Validate p = ErrorOrNil (
     (if TrimSpace (pr_Name p) = [] then [(''name'', ''must not be empty'')] else []) @
     (if TrimSpace (pr_Slug p) = [] then [(''slug'', ''must not be empty'')] else []) @
     (if TrimSpace (pr_APIBaseURL p) = [] then [(''api_base_url'', ''must not be empty'')] else []) @
     (if TrimSpace (pr_AttributionText p) = [] then [(''attribution_text'', ''must not be empty (BR-ATTR-01)'')] else []) @
     (if TrimSpace (pr_AttributionURL p) = [] then [(''attribution_url'', ''must not be empty (BR-ATTR-01)'')] else []) @
     (if \<not> Status_Valid (pr_Status p) then [(''status'', ''must be one of active|disabled|archived'')] else []))"

record Schedule =
  Interval :: string
  MinuteOffset :: int

definition DefaultSchedule :: Schedule where
  "DefaultSchedule = \<lparr>Interval = ''hourly'', MinuteOffset = 0\<rparr>"

definition Schedule_Valid :: "Schedule \<Rightarrow> bool" where
  "Schedule_Valid s \<longleftrightarrow> Interval s = ''hourly'' \<and> MinuteOffset s \<ge> 0 \<and> MinuteOffset s \<le> 59"

function slot_loop :: "instant \<Rightarrow> instant \<Rightarrow> instant list" where
  "slot_loop cursor to = (if cursor < to then cursor # slot_loop (cursor + Hour) to else [])"
  by auto
termination by (relation "measure (\<lambda>(c, to). nat (to - c))") auto

declare slot_loop.simps [simp del]

definition SlotTimes :: "Schedule \<Rightarrow> instant \<Rightarrow> instant \<Rightarrow> instant list" where
  "SlotTimes s from to =
     (if \<not> Schedule_Valid s \<or> \<not> to > from then []
      else let cursor0 = Truncate from Hour + MinuteOffset s * Minute;
               cursor = (if cursor0 < from then cursor0 + Hour else cursor0)
           in slot_loop cursor to)"

record ProviderConfiguration =
  pc_ID :: uuid
  pc_WorkspaceID :: uuid
  pc_ProviderID :: uuid
  pc_Status :: string
  pc_CredentialRef :: string
  pc_CollectionSchedule :: Schedule
  pc_AdapterVersion :: string
  pc_ValidationState :: string
  pc_CreatedAt :: instant
  pc_UpdatedAt :: instant


section \<open>Locations\<close>

record Location =
  lo_ID :: uuid
  lo_WorkspaceID :: uuid
  lo_Name :: string
  lo_Latitude :: real
  lo_Longitude :: real
  lo_CountryCode :: string
  lo_Timezone :: string
  lo_Status :: string
  lo_CreatedAt :: instant
  lo_UpdatedAt :: instant

definition isAlpha :: "string \<Rightarrow> bool" where
  "isAlpha s \<longleftrightarrow> (\<forall>c \<in> set s. \<not> ((of_char c :: nat) < 65 \<or> (of_char c :: nat) > 90))"

definition upper :: "char \<Rightarrow> char" where
  "upper c = (let n = of_char c :: nat in if 97 \<le> n \<and> n \<le> 122 then char_of (n - 32) else c)"

definition ValidateCreation :: "(string \<Rightarrow> bool) \<Rightarrow> Location \<Rightarrow> (cat_error, unit) result" where
  "ValidateCreation tz_ok l = ErrorOrNil (
     (if TrimSpace (lo_Name l) = [] then [(''name'', ''must not be empty'')]
      else if length (lo_Name l) > 120 then [(''name'', ''must be at most 120 characters'')] else []) @
     (if lo_Latitude l < -90 \<or> lo_Latitude l > 90 then [(''latitude'', ''must be between -90 and 90'')] else []) @
     (if lo_Longitude l < -180 \<or> lo_Longitude l > 180 then [(''longitude'', ''must be between -180 and 180'')] else []) @
     (if length (lo_CountryCode l) \<noteq> 2 \<or> map upper (lo_CountryCode l) \<noteq> lo_CountryCode l \<or>
         \<not> isAlpha (lo_CountryCode l)
      then [(''country_code'', ''must be a two-letter uppercase ISO 3166-1 alpha-2 code'')] else []) @
     (if TrimSpace (lo_Timezone l) = [] then [(''timezone'', ''must not be empty'')]
      else if \<not> tz_ok (lo_Timezone l) then [(''timezone'', ''must be a valid IANA timezone identifier'')] else []) @
     (if \<not> Status_Valid (lo_Status l) then [(''status'', ''must be one of active|disabled|archived'')] else []))"

definition IsNearDuplicate :: "real \<Rightarrow> bool" where
  "IsNearDuplicate distanceDegrees \<longleftrightarrow> distanceDegrees < 0.05 - 0.000000001"

text \<open>\<^verbatim>\<open>math.Atan2\<close>.\<close>

definition Atan2 :: "real \<Rightarrow> real \<Rightarrow> real" where
  "Atan2 y x =
     (if x > 0 then arctan (y / x)
      else if x < 0 then (if y \<ge> 0 then arctan (y / x) + pi else arctan (y / x) - pi)
      else if y > 0 then pi / 2 else if y < 0 then - pi / 2 else 0)"

definition HaversineDegrees :: "real \<Rightarrow> real \<Rightarrow> real \<Rightarrow> real \<Rightarrow> real" where
  "HaversineDegrees lat1 lon1 lat2 lon2 =
     (let deg2rad = pi / 180;
          phi1 = lat1 * deg2rad;
          phi2 = lat2 * deg2rad;
          dPhi = (lat2 - lat1) * deg2rad;
          dLambda = (lon2 - lon1) * deg2rad;
          a0 = sin (dPhi / 2) * sin (dPhi / 2) +
               cos phi1 * cos phi2 * sin (dLambda / 2) * sin (dLambda / 2);
          a = (if a0 > 1 then 1 else a0);
          c = 2 * Atan2 (sqrt a) (sqrt (1 - a))
      in c * 180 / pi)"

section \<open>Tables\<close>

record catalog_db =
  db_locations :: "Location list"
  db_providers :: "Provider list"
  db_configs :: "ProviderConfiguration list"
  db_audit :: "AuditEvent list"

definition cat_record :: "instant \<Rightarrow> AuditEvent \<Rightarrow> catalog_db \<Rightarrow> catalog_db" where
  "cat_record wall e db = db\<lparr>db_audit := Record wall e (db_audit db)\<rparr>"

text \<open>The partial unique index \<^verbatim>\<open>locations_active_name_uidx\<close> and the primary key.\<close>

definition name_clash :: "Location \<Rightarrow> Location list \<Rightarrow> bool" where
  "name_clash l rows \<longleftrightarrow> lo_Status l = StatusActive \<and>
     (\<exists>r \<in> set rows. lo_ID r \<noteq> lo_ID l \<and> lo_Status r = StatusActive \<and>
        lo_WorkspaceID r = lo_WorkspaceID l \<and> lo_Name r = lo_Name l)"

definition LocRepo_Insert :: "Location \<Rightarrow> catalog_db \<Rightarrow> (cat_error, unit) result \<times> catalog_db" where
  "LocRepo_Insert l db =
     (if lo_ID l \<in> lo_ID ` set (db_locations db) then (Inl (DbError ''location write''), db)
      else if name_clash l (db_locations db) then (Inl (NameConflictError (lo_Name l)), db)
      else (Inr (), db\<lparr>db_locations := db_locations db @ [l]\<rparr>))"

definition LocRepo_GetByID :: "uuid \<Rightarrow> catalog_db \<Rightarrow> (cat_error, Location) result" where
  "LocRepo_GetByID i db = (case find (\<lambda>l. lo_ID l = i) (db_locations db) of
     None \<Rightarrow> Inl ErrNotFound | Some l \<Rightarrow> Inr l)"

definition LocRepo_List :: "bool option \<Rightarrow> uuid \<Rightarrow> nat \<Rightarrow> catalog_db \<Rightarrow> Location list" where
  "LocRepo_List act cursor limit db =
     keyset lo_ID (\<lambda>l. case act of None \<Rightarrow> True
         | Some b \<Rightarrow> if b then lo_Status l = StatusActive else lo_Status l \<noteq> StatusActive)
       cursor (limit + 1) (db_locations db)"

definition LocRepo_ListActive :: "catalog_db \<Rightarrow> Location list" where
  "LocRepo_ListActive db = sort_key lo_ID (filter (\<lambda>l. lo_Status l = StatusActive) (db_locations db))"

definition LocRepo_Update :: "Location \<Rightarrow> catalog_db \<Rightarrow> (cat_error, unit) result \<times> catalog_db" where
  "LocRepo_Update l db =
     (if \<exists>r \<in> set (db_locations db). lo_ID r = lo_ID l \<and> name_clash (r\<lparr>lo_Name := lo_Name l\<rparr>) (db_locations db)
      then (Inl (NameConflictError (lo_Name l)), db)
      else (Inr (), db\<lparr>db_locations := update_where (\<lambda>r. lo_ID r = lo_ID l)
              (\<lambda>r. r\<lparr>lo_Name := lo_Name l, lo_Timezone := lo_Timezone l\<rparr>) (db_locations db)\<rparr>))"

definition LocRepo_UpdateStatus :: "uuid \<Rightarrow> string \<Rightarrow> catalog_db \<Rightarrow> (cat_error, unit) result \<times> catalog_db" where
  "LocRepo_UpdateStatus i st db =
     (if \<exists>r \<in> set (db_locations db). lo_ID r = i \<and> name_clash (r\<lparr>lo_Status := st\<rparr>) (db_locations db)
      then (Inl (DbError ''update location status''), db)
      else (Inr (), db\<lparr>db_locations := update_where (\<lambda>r. lo_ID r = i)
              (\<lambda>r. r\<lparr>lo_Status := st\<rparr>) (db_locations db)\<rparr>))"


section \<open>The location service\<close>

definition SystemWorkspaceID :: uuid where "SystemWorkspaceID = 1"

definition actorName :: "(uuid \<Rightarrow> string) \<Rightarrow> Actor \<Rightarrow> string" where
  "actorName ustr a =
     (if ac_Name a \<noteq> [] then ac_Name a
      else case ac_UserID a of Some u \<Rightarrow> ustr u | None \<Rightarrow> ''system'')"

record CreateLocationInput =
  cl_WorkspaceID :: uuid
  cl_Name :: string
  cl_Latitude :: real
  cl_Longitude :: real
  cl_CountryCode :: string
  cl_Timezone :: string
  cl_AllowNearDuplicate :: bool
  cl_OverrideReason :: string
  cl_Actor :: Actor

text \<open>The first active location the new one is too close to.\<close>

fun near_duplicate :: "Location \<Rightarrow> Location list \<Rightarrow> cat_error option" where
  "near_duplicate loc [] = None"
| "near_duplicate loc (e # es) =
     (let dist = HaversineDegrees (lo_Latitude loc) (lo_Longitude loc) (lo_Latitude e) (lo_Longitude e)
      in if IsNearDuplicate dist then Some (DuplicateLocationError (lo_ID e) (lo_Name e) dist)
         else near_duplicate loc es)"

definition new_location :: "uuid \<Rightarrow> instant \<Rightarrow> CreateLocationInput \<Rightarrow> Location" where
  "new_location fresh now inp =
     \<lparr>lo_ID = fresh,
      lo_WorkspaceID = (if cl_WorkspaceID inp = nil_uuid then SystemWorkspaceID else cl_WorkspaceID inp),
      lo_Name = cl_Name inp, lo_Latitude = cl_Latitude inp, lo_Longitude = cl_Longitude inp,
      lo_CountryCode = cl_CountryCode inp, lo_Timezone = cl_Timezone inp, lo_Status = StatusActive,
      lo_CreatedAt = now, lo_UpdatedAt = now\<rparr>"

definition create_tx :: "(uuid \<Rightarrow> string) \<Rightarrow> instant \<Rightarrow> CreateLocationInput \<Rightarrow> Location \<Rightarrow> catalog_db \<Rightarrow>
    (cat_error, Location) result \<times> catalog_db" where
  "create_tx ustr wall inp loc db =
     (case (if cl_AllowNearDuplicate inp then None else near_duplicate loc (LocRepo_ListActive db)) of
        Some e \<Rightarrow> (Inl e, db)
      | None \<Rightarrow>
          (case LocRepo_Insert loc db of
             (Inl e, db1) \<Rightarrow> (Inl e, db1)
           | (Inr _, db1) \<Rightarrow>
               (Inr loc, cat_record wall \<lparr>ae_UserID = ac_UserID (cl_Actor inp), ae_Action = ''location.create'',
                  ae_ResourceType = ''location'', ae_ResourceID = Some (lo_ID loc),
                  ae_Details = [(''actor'', DStr (actorName ustr (cl_Actor inp))), (''name'', DStr (lo_Name loc)),
                    (''allow_near_duplicate'', DBool (cl_AllowNearDuplicate inp)),
                    (''override_reason'', DStr (cl_OverrideReason inp))],
                  ae_IPAddress = ac_IPAddress (cl_Actor inp), ae_At = None\<rparr> db1)))"

definition CreateLocation :: "(string \<Rightarrow> bool) \<Rightarrow> (uuid \<Rightarrow> string) \<Rightarrow> instant \<Rightarrow> uuid \<Rightarrow> instant \<Rightarrow> CreateLocationInput \<Rightarrow>
    catalog_db \<Rightarrow> (cat_error, Location) result \<times> catalog_db" where
  "CreateLocation tz_ok ustr wall fresh now inp db =
     (let loc = new_location fresh now inp in
      case ValidateCreation tz_ok loc of
        Inl e \<Rightarrow> (Inl e, db)
      | Inr _ \<Rightarrow>
          (if cl_AllowNearDuplicate inp \<and> TrimSpace (cl_OverrideReason inp) = []
           then (Inl (ValidationError [(''override_reason'', ''required when allow_near_duplicate is true'')]), db)
           else Run (create_tx ustr wall inp loc) db))"

definition ListLocations :: "(uuid \<Rightarrow> string) \<Rightarrow> (string \<Rightarrow> uuid option) \<Rightarrow> bool option \<Rightarrow> string \<Rightarrow> int \<Rightarrow>
    catalog_db \<Rightarrow> (cat_error, Location list \<times> PageInfo) result" where
  "ListLocations ustr uparse act cursor limit0 db =
     (let limit = page_limit limit0 in
      case parse_cursor uparse cursor of
        None \<Rightarrow> Inl (ValidationError [(''cursor'', ''must be a valid UUID'')])
      | Some c \<Rightarrow> Inr (cut_page ustr lo_ID limit (LocRepo_List act c limit db)))"

definition update_tx :: "(string \<Rightarrow> bool) \<Rightarrow> (uuid \<Rightarrow> string) \<Rightarrow> instant \<Rightarrow> uuid \<Rightarrow> string option \<Rightarrow> Actor \<Rightarrow> catalog_db \<Rightarrow>
    (cat_error, Location) result \<times> catalog_db" where
  "update_tx tz_ok ustr wall i name actor db =
     (case LocRepo_GetByID i db of
        Inl e \<Rightarrow> (Inl e, db)
      | Inr loc0 \<Rightarrow>
          (let loc = (case name of None \<Rightarrow> loc0 | Some n \<Rightarrow> loc0\<lparr>lo_Name := n\<rparr>);
               changes = (case name of None \<Rightarrow> [] | Some n \<Rightarrow> [(''name'', n)])
           in case ValidateCreation tz_ok loc of
                Inl e \<Rightarrow> (Inl e, db)
              | Inr _ \<Rightarrow>
                  (case LocRepo_Update loc db of
                     (Inl e, db1) \<Rightarrow> (Inl e, db1)
                   | (Inr _, db1) \<Rightarrow>
                       (Inr loc, cat_record wall \<lparr>ae_UserID = ac_UserID actor, ae_Action = ''location.update'',
                          ae_ResourceType = ''location'', ae_ResourceID = Some (lo_ID loc),
                          ae_Details = [(''actor'', DStr (actorName ustr actor)), (''changes'', DMap changes)],
                          ae_IPAddress = ac_IPAddress actor, ae_At = None\<rparr> db1))))"

definition UpdateLocation :: "(string \<Rightarrow> bool) \<Rightarrow> (uuid \<Rightarrow> string) \<Rightarrow> instant \<Rightarrow> uuid \<Rightarrow> string option \<Rightarrow> Actor \<Rightarrow> catalog_db \<Rightarrow>
    (cat_error, Location) result \<times> catalog_db" where
  "UpdateLocation tz_ok ustr wall i name actor db = Run (update_tx tz_ok ustr wall i name actor) db"

definition set_status_tx :: "(uuid \<Rightarrow> string) \<Rightarrow> instant \<Rightarrow> uuid \<Rightarrow> string \<Rightarrow> Actor \<Rightarrow> catalog_db \<Rightarrow>
    (cat_error, Location) result \<times> catalog_db" where
  "set_status_tx ustr wall i st actor db =
     (case LocRepo_GetByID i db of
        Inl e \<Rightarrow> (Inl e, db)
      | Inr loc \<Rightarrow>
          (if lo_Status loc = st then (Inl (StatusTransitionError (lo_Status loc) st), db)
           else case LocRepo_UpdateStatus i st db of
                  (Inl e, db1) \<Rightarrow> (Inl e, db1)
                | (Inr _, db1) \<Rightarrow>
                    (Inr (loc\<lparr>lo_Status := st\<rparr>),
                     cat_record wall \<lparr>ae_UserID = ac_UserID actor, ae_Action = ''location.set_status'',
                       ae_ResourceType = ''location'', ae_ResourceID = Some i,
                       ae_Details = [(''actor'', DStr (actorName ustr actor)), (''status'', DStr st)],
                       ae_IPAddress = ac_IPAddress actor, ae_At = None\<rparr> db1)))"

definition SetLocationStatus :: "(uuid \<Rightarrow> string) \<Rightarrow> instant \<Rightarrow> uuid \<Rightarrow> string \<Rightarrow> Actor \<Rightarrow> catalog_db \<Rightarrow>
    (cat_error, Location) result \<times> catalog_db" where
  "SetLocationStatus ustr wall i st actor db =
     (if \<not> Settable st
      then (Inl (ValidationError [(''status'', ''must be one of active|disabled'')]), db)
      else Run (set_status_tx ustr wall i st actor) db)"

section \<open>The provider and configuration services\<close>

definition ProvRepo_GetByID :: "uuid \<Rightarrow> catalog_db \<Rightarrow> (cat_error, Provider) result" where
  "ProvRepo_GetByID i db = (case find (\<lambda>p. pr_ID p = i) (db_providers db) of
     None \<Rightarrow> Inl ErrNotFound | Some p \<Rightarrow> Inr p)"

definition ProvRepo_GetBySlug :: "string \<Rightarrow> catalog_db \<Rightarrow> (cat_error, Provider) result" where
  "ProvRepo_GetBySlug s db = (case find (\<lambda>p. pr_Slug p = s) (db_providers db) of
     None \<Rightarrow> Inl ErrNotFound | Some p \<Rightarrow> Inr p)"

definition ProvRepo_SetStatus :: "uuid \<Rightarrow> string \<Rightarrow> instant \<Rightarrow> catalog_db \<Rightarrow> (cat_error, unit) result \<times> catalog_db" where
  "ProvRepo_SetStatus i st now db =
     (if \<forall>p \<in> set (db_providers db). pr_ID p \<noteq> i then (Inl ErrNotFound, db)
      else (Inr (), db\<lparr>db_providers := update_where (\<lambda>p. pr_ID p = i)
              (\<lambda>p. p\<lparr>pr_Status := st, pr_UpdatedAt := now\<rparr>) (db_providers db)\<rparr>))"

definition ProvRepo_Upsert :: "Provider \<Rightarrow> catalog_db \<Rightarrow> (cat_error, unit) result \<times> catalog_db" where
  "ProvRepo_Upsert p db =
     (if \<exists>r \<in> set (db_providers db). pr_ID r = pr_ID p
      then (Inr (), db\<lparr>db_providers := update_where (\<lambda>r. pr_ID r = pr_ID p)
             (\<lambda>r. r\<lparr>pr_Name := pr_Name p, pr_APIBaseURL := pr_APIBaseURL p, pr_Status := pr_Status p,
                    pr_AttributionText := pr_AttributionText p, pr_AttributionURL := pr_AttributionURL p,
                    pr_UpdatedAt := pr_UpdatedAt p\<rparr>) (db_providers db)\<rparr>)
      else if \<exists>r \<in> set (db_providers db). pr_Slug r = pr_Slug p
      then (Inl (DbError ''upsert provider''), db)
      else (Inr (), db\<lparr>db_providers := db_providers db @ [p]\<rparr>))"

definition provider_status_tx :: "uuid \<Rightarrow> string \<Rightarrow> Actor \<Rightarrow> instant \<Rightarrow> catalog_db \<Rightarrow>
    (cat_error, Provider) result \<times> catalog_db" where
  "provider_status_tx i st actor now db =
     (case ProvRepo_GetByID i db of
        Inl e \<Rightarrow> (Inl e, db)
      | Inr _ \<Rightarrow>
          (case ProvRepo_SetStatus i st now db of
             (Inl e, db1) \<Rightarrow> (Inl e, db1)
           | (Inr _, db1) \<Rightarrow>
               (case ProvRepo_GetByID i db1 of
                  Inl e \<Rightarrow> (Inl e, db1)
                | Inr p \<Rightarrow>
                    (Inr p, cat_record now \<lparr>ae_UserID = ac_UserID actor, ae_Action = ''provider.set_status'',
                       ae_ResourceType = ''provider'', ae_ResourceID = Some i,
                       ae_Details = [(''status'', DStr st), (''actor'', DStr (ac_Name actor))],
                       ae_IPAddress = ac_IPAddress actor, ae_At = Some now\<rparr> db1))))"

definition SetProviderStatus :: "uuid \<Rightarrow> string \<Rightarrow> Actor \<Rightarrow> instant \<Rightarrow> catalog_db \<Rightarrow>
    (cat_error, Provider) result \<times> catalog_db" where
  "SetProviderStatus i st actor now db =
     (if \<not> Settable st
      then (Inl (ValidationError [(''status'', ''must be one of active|disabled'')]), db)
      else Run (provider_status_tx i st actor now) db)"

definition ConfRepo_GetByID :: "uuid \<Rightarrow> catalog_db \<Rightarrow> (cat_error, ProviderConfiguration) result" where
  "ConfRepo_GetByID i db = (case find (\<lambda>c. pc_ID c = i) (db_configs db) of
     None \<Rightarrow> Inl ErrNotFound | Some c \<Rightarrow> Inr c)"

definition ConfRepo_GetByProviderID :: "uuid \<Rightarrow> catalog_db \<Rightarrow> (cat_error, ProviderConfiguration) result" where
  "ConfRepo_GetByProviderID i db =
     (case sort_key pc_CreatedAt (filter (\<lambda>c. pc_ProviderID c = i) (db_configs db)) of
        [] \<Rightarrow> Inl ErrNotFound | c # _ \<Rightarrow> Inr c)"

definition ConfRepo_ListActive :: "catalog_db \<Rightarrow> ProviderConfiguration list" where
  "ConfRepo_ListActive db =
     sort_key pc_CreatedAt (filter (\<lambda>c. pc_Status c = StatusActive) (db_configs db))"

text \<open>\<^verbatim>\<open>CHECK (validation_state IN (...))\<close> of \<^verbatim>\<open>provider_configurations\<close>.\<close>

definition validation_states :: "string list" where
  "validation_states = [''unvalidated'', ''validated'', ''failed'']"

definition ConfRepo_Update :: "ProviderConfiguration \<Rightarrow> catalog_db \<Rightarrow> (cat_error, unit) result \<times> catalog_db" where
  "ConfRepo_Update c db =
     (if \<forall>r \<in> set (db_configs db). pc_ID r \<noteq> pc_ID c then (Inl ErrNotFound, db)
      else if pc_ValidationState c \<notin> set validation_states
      then (Inl (DbError ''update configuration''), db)
      else (Inr (), db\<lparr>db_configs := update_where (\<lambda>r. pc_ID r = pc_ID c)
             (\<lambda>r. r\<lparr>pc_Status := pc_Status c, pc_CollectionSchedule := pc_CollectionSchedule c,
                    pc_AdapterVersion := pc_AdapterVersion c, pc_ValidationState := pc_ValidationState c,
                    pc_UpdatedAt := pc_UpdatedAt c\<rparr>) (db_configs db)\<rparr>))"

definition ConfRepo_Insert :: "ProviderConfiguration \<Rightarrow> catalog_db \<Rightarrow> (cat_error, unit) result \<times> catalog_db" where
  "ConfRepo_Insert c db =
     (if pc_ValidationState c \<notin> set validation_states then (Inl (DbError ''insert configuration''), db)
      else if \<exists>r \<in> set (db_configs db). pc_ID r = pc_ID c then (Inr (), db)
      else if \<exists>r \<in> set (db_configs db). pc_WorkspaceID r = pc_WorkspaceID c \<and> pc_ProviderID r = pc_ProviderID c
      then (Inl (DbError ''insert configuration''), db)
      else (Inr (), db\<lparr>db_configs := db_configs db @ [c]\<rparr>))"

record UpdateConfigInput =
  uc_Status :: "string option"
  uc_MinuteOffset :: "int option"
  uc_AdapterVersion :: "string option"
  uc_ValidationState :: "string option"

definition config_errors :: "UpdateConfigInput \<Rightarrow> (string \<times> string) list" where
  "config_errors inp =
     (case uc_Status inp of Some s \<Rightarrow> if \<not> Settable s then [(''status'', ''must be one of active|disabled'')] else []
        | None \<Rightarrow> []) @
     (case uc_MinuteOffset inp of
        Some m \<Rightarrow> if m < 0 \<or> m > 59 then [(''minute_offset'', ''must be between 0 and 59'')] else []
      | None \<Rightarrow> [])"

definition set_opt :: "'a option \<Rightarrow> ('a \<Rightarrow> 'r \<Rightarrow> 'r) \<Rightarrow> 'r \<Rightarrow> 'r" where
  "set_opt v f r = (case v of None \<Rightarrow> r | Some x \<Rightarrow> f x r)"

definition apply_config :: "UpdateConfigInput \<Rightarrow> instant \<Rightarrow> ProviderConfiguration \<Rightarrow> ProviderConfiguration" where
  "apply_config inp now c =
     (set_opt (uc_ValidationState inp) (\<lambda>v r. r\<lparr>pc_ValidationState := v\<rparr>)
      (set_opt (uc_AdapterVersion inp) (\<lambda>v r. r\<lparr>pc_AdapterVersion := v\<rparr>)
      (set_opt (uc_MinuteOffset inp) (\<lambda>v r. r\<lparr>pc_CollectionSchedule := (pc_CollectionSchedule r)\<lparr>MinuteOffset := v\<rparr>\<rparr>)
      (set_opt (uc_Status inp) (\<lambda>v r. r\<lparr>pc_Status := v\<rparr>) c))))\<lparr>pc_UpdatedAt := now\<rparr>"

definition changed_fields :: "UpdateConfigInput \<Rightarrow> string list" where
  "changed_fields inp =
     (if uc_Status inp \<noteq> None then [''status''] else []) @
     (if uc_MinuteOffset inp \<noteq> None then [''minute_offset''] else []) @
     (if uc_AdapterVersion inp \<noteq> None then [''adapter_version''] else []) @
     (if uc_ValidationState inp \<noteq> None then [''validation_state''] else [])"

definition config_tx :: "uuid \<Rightarrow> UpdateConfigInput \<Rightarrow> Actor \<Rightarrow> instant \<Rightarrow> catalog_db \<Rightarrow>
    (cat_error, ProviderConfiguration) result \<times> catalog_db" where
  "config_tx i inp actor now db =
     (case ConfRepo_GetByID i db of
        Inl e \<Rightarrow> (Inl e, db)
      | Inr c0 \<Rightarrow>
          (let c = apply_config inp now c0 in
           case ConfRepo_Update c db of
             (Inl e, db1) \<Rightarrow> (Inl e, db1)
           | (Inr _, db1) \<Rightarrow>
               (Inr c, cat_record now \<lparr>ae_UserID = ac_UserID actor, ae_Action = ''provider_configuration.update'',
                  ae_ResourceType = ''provider_configuration'', ae_ResourceID = Some i,
                  ae_Details = [(''fields'', DStrs (changed_fields inp)), (''actor'', DStr (ac_Name actor))],
                  ae_IPAddress = ac_IPAddress actor, ae_At = Some now\<rparr> db1)))"

definition UpdateConfiguration :: "uuid \<Rightarrow> UpdateConfigInput \<Rightarrow> Actor \<Rightarrow> instant \<Rightarrow> catalog_db \<Rightarrow>
    (cat_error, ProviderConfiguration) result \<times> catalog_db" where
  "UpdateConfiguration i inp actor now db =
     (case ErrorOrNil (config_errors inp) of
        Inl e \<Rightarrow> (Inl e, db)
      | Inr _ \<Rightarrow> Run (config_tx i inp actor now) db)"


section \<open>The schedule\<close>

lemma slot_loop_mem: "t \<in> set (slot_loop c to) \<longleftrightarrow> c \<le> t \<and> t < to \<and> (t - c) mod Hour = 0"
proof (induction c to rule: slot_loop.induct)
  case (1 c to)
  have "c + Hour \<le> t \<and> (t - (c + Hour)) mod Hour = 0 \<or> t = c \<longleftrightarrow> c \<le> t \<and> (t - c) mod Hour = 0"
  proof -
    have m: "(t - (c + Hour)) mod Hour = (t - c) mod Hour"
      using mod_mult_self2 [of "t - (c + Hour)" Hour 1] by simp
    show ?thesis
    proof (cases "c + Hour \<le> t")
      case False
      then have "t = c" if "c \<le> t" "Hour dvd t - c"
        using that zdvd_imp_le [of Hour "t - c"] by force
      with False show ?thesis by auto
    qed (use m in auto)
  qed
  with 1 show ?case by (subst slot_loop.simps) (cases "c < to"; auto)
qed

lemma slot_loop_sorted: "sorted_wrt (<) (slot_loop c to)"
proof (induction c to rule: slot_loop.induct)
  case (1 c to)
  then show ?case by (subst slot_loop.simps) (auto simp: slot_loop_mem)
qed

lemma SlotTimes_mem:
  assumes "Schedule_Valid s"
  shows "t \<in> set (SlotTimes s from to) \<longleftrightarrow>
    from \<le> t \<and> t < to \<and> t mod Hour = MinuteOffset s * Minute"
proof -
  define o' where "o' = MinuteOffset s * Minute"
  have o: "0 \<le> o'" "o' < Hour" using assms by (auto simp: Schedule_Valid_def o'_def)
  define h where "h = Truncate from Hour"
  have h: "h \<le> from" "from < h + Hour" "h mod Hour = 0"
    using Truncate_Hour_le [of "from"] Truncate_Hour_gt [of "from"] Truncate_Hour_mod [of "from"]
    by (simp_all add: h_def)
  define c where "c = (if h + o' < from then h + o' + Hour else h + o')"
  have "c mod Hour = (h mod Hour + o' mod Hour) mod Hour"
    by (auto simp: c_def mod_add_eq)
  then have cm: "c mod Hour = o'" using h(3) o by simp
  have "from \<le> c" "c < from + Hour" using h o by (auto simp: c_def)
  have hit: "(t - c) mod Hour = 0 \<longleftrightarrow> t mod Hour = o'"
    using cm by (metis mod_eq_dvd_iff dvd_eq_mod_eq_0)
  have "c \<le> t" if "from \<le> t" "t mod Hour = o'"
  proof (rule ccontr)
    assume "\<not> c \<le> t"
    with that \<open>c < from + Hour\<close> have "0 < c - t" "c - t < Hour" by auto
    moreover have "(c - t) mod Hour = 0" using that(2) cm by (metis mod_eq_dvd_iff dvd_eq_mod_eq_0)
    ultimately show False by simp
  qed
  with \<open>from \<le> c\<close> hit assms show ?thesis
    by (auto simp: SlotTimes_def Let_def slot_loop_mem h_def [symmetric] o'_def [symmetric] c_def [symmetric])
qed

lemma SlotTimes_sorted: "sorted_wrt (<) (SlotTimes s from to)"
  by (simp add: SlotTimes_def Let_def slot_loop_sorted)

section \<open>Distance\<close>

lemma cos_double_arctan: "cos (2 * arctan x) = (1 - x\<^sup>2) / (1 + x\<^sup>2)"
proof -
  have "cos (2 * arctan x) = 2 * (cos (arctan x))\<^sup>2 - 1" by (rule cos_double_cos)
  also have "(cos (arctan x))\<^sup>2 = 1 / (1 + x\<^sup>2)"
    by (simp add: cos_arctan power_divide)
  finally show ?thesis by (simp add: field_simps add_nonneg_eq_0_iff)
qed

text \<open>The haversine term is half the versed sine of the central angle.\<close>

definition hav :: "real \<Rightarrow> real \<Rightarrow> real \<Rightarrow> real \<Rightarrow> real" where
  "hav p1 l1 p2 l2 = (1 - (sin p1 * sin p2 + cos p1 * cos p2 * cos (l2 - l1))) / 2"

lemma hav_code:
  "sin ((p2 - p1) / 2) * sin ((p2 - p1) / 2) +
     cos p1 * cos p2 * sin ((l2 - l1) / 2) * sin ((l2 - l1) / 2) = hav p1 l1 p2 l2"
proof -
  have s: "sin (x / 2) * sin (x / 2) = (1 - cos x) / 2" for x :: real
    using cos_double_sin [of "x / 2"] by (simp add: power2_eq_square)
  have "cos p1 * cos p2 * sin ((l2 - l1) / 2) * sin ((l2 - l1) / 2) =
    cos p1 * cos p2 * ((1 - cos (l2 - l1)) / 2)" by (simp only: mult.assoc s)
  moreover have "cos (p2 - p1) = cos p1 * cos p2 + sin p1 * sin p2" by (simp add: cos_diff mult.commute)
  ultimately show ?thesis by (simp only: s hav_def) (simp add: field_simps)
qed

lemma hav_bounds: "0 \<le> hav p1 l1 p2 l2" "hav p1 l1 p2 l2 \<le> 1"
proof -
  let ?c = "cos (l2 - l1)"
  have "\<bar>sin p1 * sin p2 + cos p1 * cos p2 * ?c\<bar> \<le> \<bar>sin p1 * sin p2\<bar> + \<bar>cos p1 * cos p2 * ?c\<bar>"
    by (rule abs_triangle_ineq)
  also have "\<bar>cos p1 * cos p2 * ?c\<bar> \<le> \<bar>cos p1 * cos p2\<bar> * 1"
    unfolding abs_mult [of "cos p1 * cos p2"] by (intro mult_left_mono) (simp_all add: abs_cos_le_one)
  also have "\<bar>sin p1 * sin p2\<bar> + \<bar>cos p1 * cos p2\<bar> * 1 \<le> 1"
  proof -
    have m: "\<bar>a * b\<bar> \<le> (a\<^sup>2 + b\<^sup>2) / 2" for a b :: real
      using sum_squares_ge_zero [of "\<bar>a\<bar> - \<bar>b\<bar>" 0] by (simp add: abs_mult power2_eq_square algebra_simps)
    have "2 * \<bar>sin p1 * sin p2\<bar> \<le> (sin p1)\<^sup>2 + (sin p2)\<^sup>2" "2 * \<bar>cos p1 * cos p2\<bar> \<le> (cos p1)\<^sup>2 + (cos p2)\<^sup>2"
      using m [of "sin p1" "sin p2"] m [of "cos p1" "cos p2"] by simp_all
    with sin_cos_squared_add [of p1] sin_cos_squared_add [of p2] show ?thesis by linarith
  qed
  finally have "\<bar>sin p1 * sin p2 + cos p1 * cos p2 * ?c\<bar> \<le> 1" by simp
  then show "0 \<le> hav p1 l1 p2 l2" "hav p1 l1 p2 l2 \<le> 1" by (auto simp: hav_def abs_le_iff)
qed

lemma Atan2_half: "0 \<le> a \<Longrightarrow> a \<le> 1 \<Longrightarrow>
  0 \<le> Atan2 (sqrt a) (sqrt (1 - a)) \<and> Atan2 (sqrt a) (sqrt (1 - a)) \<le> pi / 2 \<and>
  cos (2 * Atan2 (sqrt a) (sqrt (1 - a))) = 1 - 2 * a"
proof (cases "a = 1")
  case False
  assume a: "0 \<le> a" "a \<le> 1"
  with False have p: "0 < sqrt (1 - a)" by simp
  have "(sqrt a / sqrt (1 - a))\<^sup>2 = a / (1 - a)" using a by (simp add: power_divide)
  then have "cos (2 * arctan (sqrt a / sqrt (1 - a))) = (1 - a / (1 - a)) / (1 + a / (1 - a))"
    by (simp add: cos_double_arctan)
  also have "\<dots> = 1 - 2 * a" using False a by (simp add: field_simps)
  finally show ?thesis
    using p a arctan_ubound [of "sqrt a / sqrt (1 - a)"] by (simp add: Atan2_def)
qed (simp add: Atan2_def)

lemma HaversineDegrees_hav:
  "HaversineDegrees lat1 lon1 lat2 lon2 =
    (let a = hav (lat1 * (pi / 180)) (lon1 * (pi / 180)) (lat2 * (pi / 180)) (lon2 * (pi / 180))
     in 2 * Atan2 (sqrt a) (sqrt (1 - a)) * 180 / pi)"
proof -
  let ?d = "pi / 180" and ?a = "hav (lat1 * (pi / 180)) (lon1 * (pi / 180)) (lat2 * (pi / 180)) (lon2 * (pi / 180))"
  have "(lat2 - lat1) * ?d / 2 = (lat2 * ?d - lat1 * ?d) / 2" "(lon2 - lon1) * ?d / 2 = (lon2 * ?d - lon1 * ?d) / 2"
    by (simp_all add: left_diff_distrib)
  then have "HaversineDegrees lat1 lon1 lat2 lon2 =
    (let a = (if ?a > 1 then 1 else ?a) in 2 * Atan2 (sqrt a) (sqrt (1 - a)) * 180 / pi)"
    unfolding HaversineDegrees_def Let_def by (simp only: hav_code)
  moreover have "\<not> ?a > 1" using hav_bounds(2) by (simp only: not_less)
  ultimately show ?thesis by (simp only: if_False Let_def)
qed

lemma Haversine_cos:
  defines "r \<equiv> \<lambda>x. x * (pi / 180)"
  shows "cos (HaversineDegrees lat1 lon1 lat2 lon2 * (pi / 180)) =
      sin (r lat1) * sin (r lat2) + cos (r lat1) * cos (r lat2) * cos (r lon2 - r lon1)"
    and "0 \<le> HaversineDegrees lat1 lon1 lat2 lon2" "HaversineDegrees lat1 lon1 lat2 lon2 \<le> 180"
proof -
  let ?a = "hav (r lat1) (r lon1) (r lat2) (r lon2)"
  let ?t = "Atan2 (sqrt ?a) (sqrt (1 - ?a))"
  have H: "HaversineDegrees lat1 lon1 lat2 lon2 = 2 * ?t * 180 / pi"
    by (simp add: HaversineDegrees_hav r_def Let_def)
  note A = Atan2_half [OF hav_bounds [of "r lat1" "r lon1" "r lat2" "r lon2"]]
  have "HaversineDegrees lat1 lon1 lat2 lon2 * (pi / 180) = 2 * ?t" by (simp add: H)
  with A show "cos (HaversineDegrees lat1 lon1 lat2 lon2 * (pi / 180)) =
      sin (r lat1) * sin (r lat2) + cos (r lat1) * cos (r lat2) * cos (r lon2 - r lon1)"
    by (simp add: hav_def field_simps)
  show "0 \<le> HaversineDegrees lat1 lon1 lat2 lon2" "HaversineDegrees lat1 lon1 lat2 lon2 \<le> 180"
    using A pi_gt_zero by (simp_all add: H divide_le_eq)
qed

lemma Haversine_sym: "HaversineDegrees lat1 lon1 lat2 lon2 = HaversineDegrees lat2 lon2 lat1 lon1"
proof -
  have "hav p1 l1 p2 l2 = hav p2 l2 p1 l1" for p1 l1 p2 l2
    using cos_minus [of "l2 - l1"] by (simp add: hav_def mult.commute mult.left_commute)
  then show ?thesis by (simp add: HaversineDegrees_hav)
qed

lemma Haversine_refl: "HaversineDegrees lat lon lat lon = 0"
  by (simp add: HaversineDegrees_def Let_def Atan2_def)

section \<open>Invariants of the location table\<close>

definition names_unique :: "Location list \<Rightarrow> bool" where
  "names_unique rows \<longleftrightarrow> (\<forall>l \<in> set rows. \<not> name_clash l rows)"

definition locations_inv :: "(string \<Rightarrow> bool) \<Rightarrow> catalog_db \<Rightarrow> bool" where
  "locations_inv tz_ok db \<longleftrightarrow> distinct (map lo_ID (db_locations db)) \<and> names_unique (db_locations db) \<and>
     (\<forall>l \<in> set (db_locations db). ValidateCreation tz_ok l = Inr ())"

text \<open>The part of a location that never changes after creation.\<close>

definition identity :: "Location \<Rightarrow> uuid \<times> uuid \<times> real \<times> real \<times> string \<times> string" where
  "identity l = (lo_ID l, lo_WorkspaceID l, lo_Latitude l, lo_Longitude l, lo_CountryCode l, lo_Timezone l)"

lemma name_clash_append: "name_clash l (xs @ ys) \<longleftrightarrow> name_clash l xs \<or> name_clash l ys"
  by (auto simp: name_clash_def)

lemma name_clash_single: "name_clash l [r] \<longleftrightarrow> name_clash r [l]"
  by (auto simp: name_clash_def)

lemma name_clash_mem: "name_clash l [r] \<Longrightarrow> r \<in> set rows \<Longrightarrow> name_clash l rows"
  by (auto simp: name_clash_def)

lemma names_unique_append:
  assumes "names_unique rows" "\<not> name_clash l rows"
  shows "names_unique (rows @ [l])"
proof -
  have "\<not> name_clash r [l]" if "r \<in> set rows" for r
    using that assms(2) name_clash_mem [of l r rows] name_clash_single by blast
  moreover have "\<not> name_clash l [l]" by (simp add: name_clash_def)
  ultimately show ?thesis using assms by (auto simp: names_unique_def name_clash_append)
qed

lemma names_unique_update:
  assumes u: "names_unique rows" and keep: "\<And>r. lo_ID (f r) = lo_ID r"
    and ok: "\<forall>r \<in> set rows. lo_ID r = i \<longrightarrow> \<not> name_clash (f r) rows"
  shows "names_unique (update_where (\<lambda>r. lo_ID r = i) f rows)"
  unfolding names_unique_def
proof (intro ballI notI)
  fix l'
  assume "l' \<in> set (update_where (\<lambda>r. lo_ID r = i) f rows)"
    and "name_clash l' (update_where (\<lambda>r. lo_ID r = i) f rows)"
  then obtain l r where lr: "l \<in> set rows" "l' = (if lo_ID l = i then f l else l)"
    "r \<in> set rows" and clash: "name_clash l' [if lo_ID r = i then f r else r]"
    by (auto simp: update_where_def name_clash_def)
  let ?r = "if lo_ID r = i then f r else r"
  have ne: "lo_ID r \<noteq> lo_ID l" using lr(2) clash keep by (auto simp: name_clash_def split: if_splits)
  consider "lo_ID l = i" "lo_ID r \<noteq> i" | "lo_ID l \<noteq> i" "lo_ID r = i" | "lo_ID l \<noteq> i" "lo_ID r \<noteq> i"
    using ne by metis
  then show False
  proof cases
    case 1
    with lr clash name_clash_mem [of "f l" r rows] ok show False by auto
  next
    case 2
    with lr clash have "name_clash (f r) [l]" by (simp add: name_clash_single)
    with 2 lr name_clash_mem [of "f r" l rows] ok show False by auto
  next
    case 3
    with lr clash name_clash_mem [of l r rows] u show False by (auto simp: names_unique_def)
  qed
qed

lemma GetByID_Inr: "LocRepo_GetByID i db = Inr l \<Longrightarrow> l \<in> set (db_locations db) \<and> lo_ID l = i"
  by (auto simp: LocRepo_GetByID_def find_Some_iff split: option.splits)

lemma cat_record_locations [simp]: "db_locations (cat_record w e db) = db_locations db"
  by (simp add: cat_record_def)

lemma ValidateCreation_status:
  "ValidateCreation tz l = Inr () \<Longrightarrow> Settable st \<Longrightarrow> ValidateCreation tz (l\<lparr>lo_Status := st\<rparr>) = Inr ()"
  by (auto simp: ValidateCreation_def ErrorOrNil_def Settable_def Status_Valid_def split: if_splits)

lemma create_tx_ok:
  assumes "create_tx ustr wall inp loc db = (Inr l, db')"
  shows "l = loc" "lo_ID loc \<notin> lo_ID ` set (db_locations db)" "\<not> name_clash loc (db_locations db)"
    and "db_locations db' = db_locations db @ [loc]"
    and "\<not> cl_AllowNearDuplicate inp \<Longrightarrow> near_duplicate loc (LocRepo_ListActive db) = None"
  using assms
  by (auto simp: create_tx_def LocRepo_Insert_def split: option.splits if_splits)

lemma create_tx_inv:
  assumes "locations_inv tz db" "ValidateCreation tz loc = Inr ()" "create_tx ustr wall inp loc db = (Inr l, db')"
  shows "locations_inv tz db'"
  using assms create_tx_ok [OF assms(3)]
  by (auto simp: locations_inv_def names_unique_append)

lemma update_tx_ok:
  assumes "update_tx tz ustr wall i name actor db = (Inr l, db')"
  obtains l0 where "l0 \<in> set (db_locations db)" "lo_ID l0 = i" "l = set_opt name (\<lambda>n l. l\<lparr>lo_Name := n\<rparr>) l0"
    "ValidateCreation tz l = Inr ()" "\<not> (\<exists>r \<in> set (db_locations db). lo_ID r = i \<and> name_clash (r\<lparr>lo_Name := lo_Name l\<rparr>) (db_locations db))"
    "db_locations db' = update_where (\<lambda>r. lo_ID r = i) (\<lambda>r. r\<lparr>lo_Name := lo_Name l, lo_Timezone := lo_Timezone l\<rparr>) (db_locations db)"
proof -
  from assms obtain l0 where l0: "LocRepo_GetByID i db = Inr l0"
    by (auto simp: update_tx_def split: sum.splits)
  note mem = GetByID_Inr [OF l0]
  let ?l = "set_opt name (\<lambda>n l. l\<lparr>lo_Name := n\<rparr>) l0"
  have id: "lo_ID ?l = i" using mem by (simp add: set_opt_def split: option.splits)
  have "(case name of None \<Rightarrow> l0 | Some n \<Rightarrow> l0\<lparr>lo_Name := n\<rparr>) = ?l" by (simp add: set_opt_def split: option.splits)
  with assms l0 id show thesis
    by (intro that [of l0])
      (auto simp: update_tx_def LocRepo_Update_def mem Let_def split: sum.splits if_splits)
qed

lemma update_tx_inv:
  assumes inv: "locations_inv tz db" and tx: "update_tx tz ustr wall i name actor db = (Inr l, db')"
  shows "locations_inv tz db'" and "map identity (db_locations db') = map identity (db_locations db)"
proof -
  from tx obtain l0 where m: "l0 \<in> set (db_locations db)" "lo_ID l0 = i" "l = set_opt name (\<lambda>n l. l\<lparr>lo_Name := n\<rparr>) l0"
    and v: "ValidateCreation tz l = Inr ()"
    and nc: "\<not> (\<exists>r \<in> set (db_locations db). lo_ID r = i \<and> name_clash (r\<lparr>lo_Name := lo_Name l\<rparr>) (db_locations db))"
    and rows: "db_locations db' = update_where (\<lambda>r. lo_ID r = i) (\<lambda>r. r\<lparr>lo_Name := lo_Name l, lo_Timezone := lo_Timezone l\<rparr>) (db_locations db)"
    by (rule update_tx_ok)
  have one: "r = l0" if "r \<in> set (db_locations db)" "lo_ID r = i" for r
    using inv that m by (auto simp: locations_inv_def intro: unique_row)
  have tzl: "lo_Timezone l = lo_Timezone l0" and l: "l0\<lparr>lo_Name := lo_Name l, lo_Timezone := lo_Timezone l\<rparr> = l"
    by (simp_all add: m(3) set_opt_def split: option.splits)
  show "map identity (db_locations db') = map identity (db_locations db)"
    using one tzl by (auto simp: rows update_where_def identity_def)
  have "map lo_ID (db_locations db') = map lo_ID (db_locations db)"
    by (simp add: rows map_update_where)
  moreover have "names_unique (db_locations db')"
    using inv nc unfolding rows locations_inv_def
    by (intro names_unique_update) (auto simp: name_clash_def)
  moreover have "\<forall>r \<in> set (db_locations db'). ValidateCreation tz r = Inr ()"
    using inv v one l by (auto simp: rows set_update_where locations_inv_def)
  ultimately show "locations_inv tz db'" using inv by (simp add: locations_inv_def)
qed

lemma set_status_tx_ok:
  assumes "set_status_tx ustr wall i st actor db = (Inr l, db')"
  shows "\<exists>l0. l0 \<in> set (db_locations db) \<and> lo_ID l0 = i \<and> lo_Status l0 \<noteq> st \<and> l = l0\<lparr>lo_Status := st\<rparr>"
    and "\<not> (\<exists>r \<in> set (db_locations db). lo_ID r = i \<and> name_clash (r\<lparr>lo_Status := st\<rparr>) (db_locations db))"
    and "db_locations db' = update_where (\<lambda>r. lo_ID r = i) (\<lambda>r. r\<lparr>lo_Status := st\<rparr>) (db_locations db)"
  using assms
  by (auto simp: set_status_tx_def LocRepo_UpdateStatus_def dest: GetByID_Inr split: sum.splits if_splits)

lemma set_status_tx_inv:
  assumes inv: "locations_inv tz db" and st: "Settable st" and tx: "set_status_tx ustr wall i st actor db = (Inr l, db')"
  shows "locations_inv tz db'" and "map identity (db_locations db') = map identity (db_locations db)"
proof -
  note ok = set_status_tx_ok [OF tx]
  show "map identity (db_locations db') = map identity (db_locations db)"
    by (simp add: ok(3) map_update_where identity_def)
  have "map lo_ID (db_locations db') = map lo_ID (db_locations db)" by (simp add: ok(3) map_update_where)
  moreover have "names_unique (db_locations db')"
    using inv ok(2) unfolding ok(3) locations_inv_def by (intro names_unique_update) auto
  moreover have "\<forall>r \<in> set (db_locations db'). ValidateCreation tz r = Inr ()"
    using inv st by (auto simp: ok(3) set_update_where locations_inv_def ValidateCreation_status)
  ultimately show "locations_inv tz db'" using inv by (simp add: locations_inv_def)
qed

lemma near_duplicate_None:
  "near_duplicate loc es = None \<longleftrightarrow>
    (\<forall>e \<in> set es. \<not> IsNearDuplicate (HaversineDegrees (lo_Latitude loc) (lo_Longitude loc) (lo_Latitude e) (lo_Longitude e)))"
  by (induction es) (auto simp: Let_def)

section \<open>Sequences of location operations\<close>

datatype location_op =
    OpCreate instant uuid instant CreateLocationInput
  | OpUpdate instant uuid "string option" Actor
  | OpStatus instant uuid string Actor

fun location_apply :: "(string \<Rightarrow> bool) \<Rightarrow> (uuid \<Rightarrow> string) \<Rightarrow> catalog_db \<Rightarrow> location_op \<Rightarrow> catalog_db" where
  "location_apply tz ustr db (OpCreate wall fresh now inp) = snd (CreateLocation tz ustr wall fresh now inp db)"
| "location_apply tz ustr db (OpUpdate wall i name actor) = snd (UpdateLocation tz ustr wall i name actor db)"
| "location_apply tz ustr db (OpStatus wall i st actor) = snd (SetLocationStatus ustr wall i st actor db)"

lemma CreateLocation_cases:
  assumes "CreateLocation tz ustr wall fresh now inp db = (r, db')"
  shows "(\<exists>e. r = Inl e \<and> db' = db) \<or>
    (r = Inr (new_location fresh now inp) \<and> ValidateCreation tz (new_location fresh now inp) = Inr () \<and>
     create_tx ustr wall inp (new_location fresh now inp) db = (Inr (new_location fresh now inp), db'))"
  using assms create_tx_ok(1)
  by (auto simp: CreateLocation_def Let_def split: sum.splits if_splits dest!: Run_cases)

lemma location_apply_inv:
  assumes "locations_inv tz db"
  shows "locations_inv tz (location_apply tz ustr db op) \<and>
    (\<exists>new. map identity (db_locations (location_apply tz ustr db op)) = map identity (db_locations db) @ new)"
proof (cases op)
  case (OpCreate wall fresh now inp)
  obtain r db' where c: "CreateLocation tz ustr wall fresh now inp db = (r, db')" by fastforce
  from CreateLocation_cases [OF c] assms show ?thesis
    using OpCreate c by (auto dest: create_tx_inv create_tx_ok(4))
next
  case (OpUpdate wall i name actor)
  obtain r db' where c: "Run (update_tx tz ustr wall i name actor) db = (r, db')" by fastforce
  from Run_cases [OF c] assms show ?thesis
    using OpUpdate c by (auto simp: UpdateLocation_def dest: update_tx_inv)
next
  case (OpStatus wall i st actor)
  obtain r db' where c: "Run (set_status_tx ustr wall i st actor) db = (r, db')" by fastforce
  from Run_cases [OF c] assms show ?thesis
    using OpStatus c by (cases "Settable st") (auto simp: SetLocationStatus_def dest: set_status_tx_inv)
qed

text \<open>C23. Over every sequence of location operations, accepted or refused, the table stays
  well-formed: identifiers are distinct, no two active locations of a workspace share a name
  and every row passes the creation checks. Coordinates, country and time zone of an existing
  location never change (BR-LOC-02), and no row is ever lost.
\<close>

theorem locations_stay_well_formed:
  assumes "locations_inv tz db"
  shows "locations_inv tz (foldl (location_apply tz ustr) db ops) \<and>
    (\<exists>new. map identity (db_locations (foldl (location_apply tz ustr) db ops)) = map identity (db_locations db) @ new)"
  using assms
proof (induction ops arbitrary: db)
  case (Cons op ops)
  note step = location_apply_inv [OF Cons.prems, of ustr op]
  from Cons.IH [OF conjunct1 [OF step]] conjunct2 [OF step] show ?case by auto
qed simp

text \<open>Sample data: two locations at the same place with different names, the first disabled.\<close>

definition loc_a :: Location where
  "loc_a = \<lparr>lo_ID = 7, lo_WorkspaceID = SystemWorkspaceID, lo_Name = ''A'', lo_Latitude = 0, lo_Longitude = 0,
     lo_CountryCode = ''MY'', lo_Timezone = ''UTC'', lo_Status = StatusDisabled, lo_CreatedAt = 0, lo_UpdatedAt = 0\<rparr>"

definition inp_b :: CreateLocationInput where
  "inp_b = \<lparr>cl_WorkspaceID = 0, cl_Name = ''B'', cl_Latitude = 0, cl_Longitude = 0, cl_CountryCode = ''MY'',
     cl_Timezone = ''UTC'', cl_AllowNearDuplicate = False, cl_OverrideReason = [],
     cl_Actor = \<lparr>ac_UserID = None, ac_Name = ''op'', ac_IPAddress = []\<rparr>\<rparr>"

definition db_a :: catalog_db where
  "db_a = \<lparr>db_locations = [loc_a], db_providers = [], db_configs = [], db_audit = []\<rparr>"

lemmas sample_defs = loc_a_def inp_b_def db_a_def status_defs

lemma Validate_a: "ValidateCreation (\<lambda>_. True) loc_a = Inr ()"
  by (simp add: ValidateCreation_def ErrorOrNil_def TrimSpace_def is_space_def Let_def isAlpha_def upper_def
      Status_Valid_def sample_defs)

lemma Validate_b: "ValidateCreation (\<lambda>_. True) (new_location 9 0 inp_b) = Inr ()"
  by (simp add: ValidateCreation_def ErrorOrNil_def TrimSpace_def is_space_def Let_def isAlpha_def upper_def
      Status_Valid_def sample_defs new_location_def)

lemma locations_inv_a: "locations_inv (\<lambda>_. True) db_a"
  using Validate_a by (simp add: locations_inv_def names_unique_def name_clash_def db_a_def)

theorem locations_stay_well_formed_witness:
  "locations_inv (\<lambda>_. True) (foldl (location_apply (\<lambda>_. True) uuid_string) db_a
     [OpCreate 0 9 0 inp_b, OpStatus 0 7 ''active'' (cl_Actor inp_b), OpUpdate 0 7 (Some ''B'') (cl_Actor inp_b)])"
  using locations_stay_well_formed [OF locations_inv_a] by blast

text \<open>A location created without the override is far from every location active at that
  moment: its great-circle distance to each of them is not below the near-duplicate limit
  (BR-LOC-01), in exact arithmetic.
\<close>

theorem created_location_not_near_duplicate:
  assumes "CreateLocation tz ustr wall fresh now inp db = (Inr l, db')" "\<not> cl_AllowNearDuplicate inp"
    and "e \<in> set (db_locations db)" "lo_Status e = StatusActive"
  shows "\<not> IsNearDuplicate (HaversineDegrees (lo_Latitude l) (lo_Longitude l) (lo_Latitude e) (lo_Longitude e)) \<and>
    \<not> IsNearDuplicate (HaversineDegrees (lo_Latitude e) (lo_Longitude e) (lo_Latitude l) (lo_Longitude l))"
proof -
  have "near_duplicate l (LocRepo_ListActive db) = None"
    using CreateLocation_cases [OF assms(1)] assms(2) by (auto dest: create_tx_ok(5))
  moreover have "e \<in> set (LocRepo_ListActive db)" using assms by (simp add: LocRepo_ListActive_def)
  ultimately show ?thesis
    using Haversine_sym [of "lo_Latitude e" "lo_Longitude e"] by (simp add: near_duplicate_None)
qed

definition loc_far :: Location where
  "loc_far = loc_a\<lparr>lo_ID := 8, lo_Status := StatusActive, lo_Longitude := 90\<rparr>"

lemma far_apart: "\<not> IsNearDuplicate (HaversineDegrees 0 0 0 90)"
proof
  let ?h = "HaversineDegrees 0 0 0 90"
  assume "IsNearDuplicate ?h"
  then have "?h < 90" by (simp add: IsNearDuplicate_def)
  then have "?h * (pi / 180) < pi / 2" using pi_gt_zero by simp
  moreover have "0 \<le> ?h * (pi / 180)" using Haversine_cos(2) by simp
  ultimately have "0 < cos (?h * (pi / 180))" by (intro cos_gt_zero_pi) (use pi_gt_zero in linarith)+
  with Haversine_cos(1) [of 0 0 0 90] show False by simp
qed

lemma create_b_far:
  "CreateLocation (\<lambda>_. True) uuid_string 0 9 0 inp_b (db_a\<lparr>db_locations := [loc_far]\<rparr>) =
    (Inr (new_location 9 0 inp_b), snd (CreateLocation (\<lambda>_. True) uuid_string 0 9 0 inp_b (db_a\<lparr>db_locations := [loc_far]\<rparr>)))"
  using Validate_b far_apart
  by (simp add: CreateLocation_def Run_def create_tx_def LocRepo_ListActive_def LocRepo_Insert_def name_clash_def
      loc_far_def new_location_def sample_defs Let_def)

theorem created_location_not_near_duplicate_witness:
  "\<not> IsNearDuplicate (HaversineDegrees 0 0 0 90)"
  using created_location_not_near_duplicate [OF create_b_far, of loc_far]
  by (simp add: loc_far_def new_location_def sample_defs)

text \<open>C39. Re-enabling a disabled location skips the near-duplicate check: from a well-formed table
  holding only a disabled location, creating a second one at the same coordinates and then
  re-enabling the first is accepted and leaves two active locations at distance zero.
\<close>

theorem reenable_skips_duplicate_check:
  "locations_inv (\<lambda>_. True) db_a \<and>
   db_locations (foldl (location_apply (\<lambda>_. True) uuid_string) db_a
     [OpCreate 0 9 0 inp_b, OpStatus 0 7 ''active'' (cl_Actor inp_b)]) =
     [loc_a\<lparr>lo_Status := StatusActive\<rparr>, new_location 9 0 inp_b] \<and>
   IsNearDuplicate (HaversineDegrees (lo_Latitude loc_a) (lo_Longitude loc_a)
     (lo_Latitude (new_location 9 0 inp_b)) (lo_Longitude (new_location 9 0 inp_b)))"
proof (intro conjI)
  show "locations_inv (\<lambda>_. True) db_a" by (rule locations_inv_a)
  show "IsNearDuplicate (HaversineDegrees (lo_Latitude loc_a) (lo_Longitude loc_a)
     (lo_Latitude (new_location 9 0 inp_b)) (lo_Longitude (new_location 9 0 inp_b)))"
    by (simp add: sample_defs new_location_def Haversine_refl IsNearDuplicate_def)
  have "db_locations (location_apply (\<lambda>_. True) uuid_string db_a (OpCreate 0 9 0 inp_b)) =
    [loc_a, new_location 9 0 inp_b]"
    using Validate_b
    by (simp add: CreateLocation_def Run_def create_tx_def LocRepo_ListActive_def LocRepo_Insert_def name_clash_def
        new_location_def sample_defs Let_def)
  then show "db_locations (foldl (location_apply (\<lambda>_. True) uuid_string) db_a
     [OpCreate 0 9 0 inp_b, OpStatus 0 7 ''active'' (cl_Actor inp_b)]) =
     [loc_a\<lparr>lo_Status := StatusActive\<rparr>, new_location 9 0 inp_b]"
    by (simp add: SetLocationStatus_def Settable_def Run_def set_status_tx_def LocRepo_GetByID_def
        LocRepo_UpdateStatus_def name_clash_def update_where_def new_location_def sample_defs
        del: location_apply.simps(1))
qed

text \<open>C31. A client that starts without a cursor and follows the cursors \<open>ListLocations\<close> hands out
  sees every location of the requested activity exactly once, in identifier order, in at
  most one page more than there are rows; the identifier text need only parse back.
\<close>

theorem ListLocations_pages_complete:
  assumes "uuid_text ustr uparse" and "distinct (map lo_ID (db_locations db))"
    and "nil_uuid \<notin> lo_ID ` set (db_locations db)"
  shows "walk (Suc (length (db_locations db))) (\<lambda>c. ListLocations ustr uparse act c limit db) [] =
    Some (sort_key lo_ID (filter (\<lambda>l. act = None \<or> act = Some (lo_Status l = StatusActive)) (db_locations db)))"
proof -
  let ?p = "\<lambda>l. case act of None \<Rightarrow> True | Some b \<Rightarrow> if b then lo_Status l = StatusActive else lo_Status l \<noteq> StatusActive"
  have lim: "0 < page_limit limit" by (simp add: page_limit_def)
  have fuel: "length (filter (\<lambda>l. 0 < lo_ID l \<and> ?p l) (db_locations db)) < Suc (length (db_locations db))"
    by (simp only: less_Suc_eq_le length_filter_le)
  have page: "ListLocations ustr uparse act c limit db =
      Inr (cut_page ustr lo_ID (page_limit limit) (keyset lo_ID ?p u (page_limit limit + 1) (db_locations db)))"
    if "parse_cursor uparse c = Some u" for c u
    using that by (simp add: ListLocations_def LocRepo_List_def Let_def)
  have start: "parse_cursor uparse [] = Some 0" by (simp add: parse_cursor_def)
  have "0 < lo_ID l" if "l \<in> set (db_locations db)" for l
  proof -
    have "lo_ID l \<noteq> 0" using assms(3) that by (metis imageI)
    then show ?thesis by (simp only: word_neq_0_conv)
  qed
  then have "filter (\<lambda>l. 0 < lo_ID l \<and> ?p l) (db_locations db) =
    filter (\<lambda>l. act = None \<or> act = Some (lo_Status l = StatusActive)) (db_locations db)"
    by (intro filter_cong) (cases act; simp)+
  then show ?thesis using uuid_text.walk_keyset [OF assms(1) page lim assms(2) start fuel]
    by (simp only:)
qed

theorem ListLocations_pages_complete_witness:
  "walk 3 (\<lambda>c. ListLocations uuid_string uuid_parse None c 1 (db_a\<lparr>db_locations := [loc_far, loc_a]\<rparr>)) [] =
     Some [loc_a, loc_far]"
  using ListLocations_pages_complete [OF rfc.uuid_text_axioms, of "db_a\<lparr>db_locations := [loc_far, loc_a]\<rparr>" None 1]
  by (simp add: loc_far_def loc_a_def db_a_def numeral_3_eq_3)

text \<open>C32. \<open>SlotTimes\<close> of a valid schedule is exactly the ascending list of the instants of the
  half-open window at the schedule's minute of an hour, so consecutive windows split the
  slots: none is missed and none is produced twice.
\<close>

theorem SlotTimes_exact_and_additive:
  assumes "Schedule_Valid s" "a \<le> b" "b \<le> c"
  shows "set (SlotTimes s a b) = {t. a \<le> t \<and> t < b \<and> t mod Hour = MinuteOffset s * Minute} \<and>
    sorted_wrt (<) (SlotTimes s a b) \<and> SlotTimes s a c = SlotTimes s a b @ SlotTimes s b c"
proof (intro conjI)
  show "set (SlotTimes s a b) = {t. a \<le> t \<and> t < b \<and> t mod Hour = MinuteOffset s * Minute}"
    by (auto simp: SlotTimes_mem [OF assms(1)])
  show "sorted_wrt (<) (SlotTimes s a b)" by (rule SlotTimes_sorted)
  show "SlotTimes s a c = SlotTimes s a b @ SlotTimes s b c"
  proof (rule strict_sorted_equal)
    show "sorted_wrt (<) (SlotTimes s a b @ SlotTimes s b c)"
      by (auto simp: sorted_wrt_append SlotTimes_sorted SlotTimes_mem [OF assms(1)])
    show "set (SlotTimes s a c) = set (SlotTimes s a b @ SlotTimes s b c)"
      using assms by (auto simp: SlotTimes_mem [OF assms(1)])
  qed (rule SlotTimes_sorted)
qed

theorem SlotTimes_exact_and_additive_witness:
  "SlotTimes DefaultSchedule 0 (2 * Hour) = SlotTimes DefaultSchedule 0 (Hour + 1) @ SlotTimes DefaultSchedule (Hour + 1) (2 * Hour)"
  using SlotTimes_exact_and_additive [of DefaultSchedule 0 "Hour + 1" "2 * Hour"]
  by (simp add: Schedule_Valid_def DefaultSchedule_def)

text \<open>In exact arithmetic \<open>HaversineDegrees\<close> is the central angle of the sphere, in degrees:
  it lies in [0, 180], its cosine is the spherical law of cosines, it is symmetric, and zero
  for equal coordinates.
\<close>

theorem HaversineDegrees_central_angle:
  "cos (HaversineDegrees lat1 lon1 lat2 lon2 * (pi / 180)) =
      sin (lat1 * (pi / 180)) * sin (lat2 * (pi / 180)) +
      cos (lat1 * (pi / 180)) * cos (lat2 * (pi / 180)) * cos (lon2 * (pi / 180) - lon1 * (pi / 180)) \<and>
   0 \<le> HaversineDegrees lat1 lon1 lat2 lon2 \<and> HaversineDegrees lat1 lon1 lat2 lon2 \<le> 180 \<and>
   HaversineDegrees lat1 lon1 lat2 lon2 = HaversineDegrees lat2 lon2 lat1 lon1 \<and>
   HaversineDegrees lat1 lon1 lat1 lon1 = 0"
  using Haversine_cos Haversine_sym Haversine_refl by blast

section \<open>Atomicity and the audit trail\<close>

text \<open>A refused call changes nothing; an accepted one appends exactly one audit record.\<close>

definition audited :: "string \<Rightarrow> uuid \<Rightarrow> Actor \<Rightarrow> (cat_error, 'a) result \<times> catalog_db \<Rightarrow> catalog_db \<Rightarrow> bool" where
  "audited act rid actor out db \<longleftrightarrow>
     (case out of
        (Inl _, db') \<Rightarrow> db' = db
      | (Inr _, db') \<Rightarrow> \<exists>e. db_audit db' = db_audit db @ [e] \<and> ae_Action e = act \<and> ae_ResourceID e = Some rid \<and>
          ae_UserID e = ac_UserID actor \<and> ae_IPAddress e = ac_IPAddress actor)"

lemma audited_Run:
  assumes "\<And>a db'. tx db = (Inr a, db') \<Longrightarrow> audited act rid actor (Inr a, db') db"
  shows "audited act rid actor (Run tx db) db"
  using assms by (auto simp: Run_def audited_def split: prod.splits sum.splits)

lemma audited_Inl [simp]: "audited act rid actor (Inl e, db) db"
  by (simp add: audited_def)

lemmas catalog_repo_defs = LocRepo_Insert_def LocRepo_Update_def LocRepo_UpdateStatus_def
  ProvRepo_SetStatus_def ConfRepo_Update_def cat_record_def Record_def

text \<open>C24. Every mutation of the catalog services is atomic and audited: when the call fails, for
  whatever reason, the tables and the audit trail are unchanged, and when it succeeds exactly
  one record is appended, with the action, the resource and the actor of the call.
\<close>

theorem catalog_mutations_atomic_and_audited:
  "audited ''location.create'' fresh (cl_Actor inp) (CreateLocation tz ustr wall fresh now inp db) db \<and>
   audited ''location.update'' i actor (UpdateLocation tz ustr wall i name actor db) db \<and>
   audited ''location.set_status'' i actor (SetLocationStatus ustr wall i st actor db) db \<and>
   audited ''provider.set_status'' i actor (SetProviderStatus i st actor now db) db \<and>
   audited ''provider_configuration.update'' i actor (UpdateConfiguration i cinp actor now db) db"
proof (intro conjI)
  have "audited ''location.create'' fresh (cl_Actor inp) (Run (create_tx ustr wall inp (new_location fresh now inp)) db) db"
    by (rule audited_Run)
      (auto simp: create_tx_def catalog_repo_defs audited_def new_location_def split: option.splits if_splits)
  then show "audited ''location.create'' fresh (cl_Actor inp) (CreateLocation tz ustr wall fresh now inp db) db"
    by (simp add: CreateLocation_def Let_def split: sum.splits)
  show "audited ''location.update'' i actor (UpdateLocation tz ustr wall i name actor db) db"
    unfolding UpdateLocation_def
    by (rule audited_Run)
      (auto simp: update_tx_def catalog_repo_defs audited_def Let_def dest: GetByID_Inr split: sum.splits if_splits option.splits)
  have "audited ''location.set_status'' i actor (Run (set_status_tx ustr wall i st actor) db) db"
    by (rule audited_Run)
      (auto simp: set_status_tx_def catalog_repo_defs audited_def Let_def split: sum.splits if_splits)
  then show "audited ''location.set_status'' i actor (SetLocationStatus ustr wall i st actor db) db"
    by (simp add: SetLocationStatus_def)
  have "audited ''provider.set_status'' i actor (Run (provider_status_tx i st actor now) db) db"
    by (rule audited_Run)
      (auto simp: provider_status_tx_def catalog_repo_defs audited_def Let_def split: sum.splits if_splits)
  then show "audited ''provider.set_status'' i actor (SetProviderStatus i st actor now db) db"
    by (simp add: SetProviderStatus_def)
  have "audited ''provider_configuration.update'' i actor (Run (config_tx i cinp actor now) db) db"
    by (rule audited_Run)
      (auto simp: config_tx_def catalog_repo_defs audited_def Let_def split: sum.splits if_splits)
  then show "audited ''provider_configuration.update'' i actor (UpdateConfiguration i cinp actor now db) db"
    by (simp add: UpdateConfiguration_def split: sum.splits)
qed

end
