(* ===== verification/Observing.thy ===== *)
theory Observing
  imports Ports Catalog Eval
begin


text \<open>
  Observation collection: \<^verbatim>\<open>internal/collection/observe.go\<close> over the table
  \<^verbatim>\<open>observations\<close> (\<^verbatim>\<open>adapters/persistence/observationpg\<close> and its constraints). The state is
  the list of rows in insertion order and the months that have a partition. A fetch is an
  argument, the value the source adapter returned; \<open>created\<close> is the database clock.
\<close>

section \<open>The table\<close>

record obs_db =
  od_rows :: "Observation list"
  od_partitions :: "instant list"

datatype obs_error = ObsInactive | ObsFetch string | ObsNoPartition | ObsCheckViolation
  | ObsDuplicateKey | ObsNotSuperseded uuid

definition observation_live :: "Observation \<Rightarrow> bool" where
  "observation_live r \<longleftrightarrow> ob_SupersededObservationID r = None"

definition obs_key :: "Observation \<Rightarrow> string \<times> uuid \<times> instant" where
  "obs_key r = (ob_Source r, ob_LocationID r, ob_ObservedAt r)"

text \<open>Enumerations and \<^verbatim>\<open>CHECK\<close>s of the table.\<close>

definition obs_checks :: "Observation \<Rightarrow> bool" where
  "obs_checks r \<longleftrightarrow> ObservationType_Valid (ob_ObservationType r) \<and>
     ob_QualityFlag r \<in> {''valid'', ''suspect'', ''corrected''} \<and>
     \<not> outside (ob_HumidityPct r) 0 100 \<and>
     (case ob_WindSpeedMS r of None \<Rightarrow> True | Some x \<Rightarrow> 0 \<le> x) \<and>
     \<not> outside (ob_WindDirectionDeg r) 0 360 \<and>
     (case ob_PrecipitationMM r of None \<Rightarrow> True | Some x \<Rightarrow> 0 \<le> x)"

definition EnsurePartitions :: "instant list \<Rightarrow> obs_db \<Rightarrow> obs_db" where
  "EnsurePartitions monthStarts db = db\<lparr>od_partitions := foldl (\<lambda>ps m. List.insert m ps) (od_partitions db) monthStarts\<rparr>"

definition ListCurrentByWindow :: "string \<Rightarrow> uuid \<Rightarrow> instant \<Rightarrow> instant \<Rightarrow> obs_db \<Rightarrow> Observation list" where
  "ListCurrentByWindow source loc start fin db =
     sort_key ob_ObservedAt (filter (\<lambda>r. ob_Source r = source \<and> ob_LocationID r = loc \<and>
       start \<le> ob_ObservedAt r \<and> ob_ObservedAt r \<le> fin \<and> observation_live r) (od_rows db))"

text \<open>
  \<^verbatim>\<open>INSERT ... ON CONFLICT DO NOTHING\<close>, row by row: the partition must exist, the checks must
  hold, a live row with the same key makes the row a no-op, a used identifier is an error.
\<close>

fun InsertBatch :: "instant \<Rightarrow> Observation list \<Rightarrow> obs_db \<Rightarrow> (obs_error, nat) result \<times> obs_db" where
  "InsertBatch created [] db = (Inr 0, db)"
| "InsertBatch created (r # rs) db =
     (if month_start (ob_ObservedAt r) \<notin> set (od_partitions db) then (Inl ObsNoPartition, db)
      else if \<not> obs_checks r then (Inl ObsCheckViolation, db)
      else if \<exists>q \<in> set (od_rows db). observation_live q \<and> obs_key q = obs_key r then InsertBatch created rs db
      else if \<exists>q \<in> set (od_rows db). ob_ID q = ob_ID r \<and> ob_ObservedAt q = ob_ObservedAt r
      then (Inl ObsDuplicateKey, db)
      else (case InsertBatch created rs (db\<lparr>od_rows := od_rows db @
                [r\<lparr>ob_SupersededObservationID := None, ob_CreatedAt := created\<rparr>]\<rparr>) of
              (Inl e, db') \<Rightarrow> (Inl e, db')
            | (Inr n, db') \<Rightarrow> (Inr (n + 1), db')))"

definition Supersede :: "uuid \<Rightarrow> instant \<Rightarrow> uuid \<Rightarrow> obs_db \<Rightarrow> (obs_error, unit) result \<times> obs_db" where
  "Supersede oldID oldObservedAt newID db =
     (let hit = (\<lambda>r. ob_ID r = oldID \<and> ob_ObservedAt r = oldObservedAt \<and> observation_live r)
      in if \<exists>r \<in> set (od_rows db). hit r
         then (Inr (), db\<lparr>od_rows := update_where hit (\<lambda>r. r\<lparr>ob_SupersededObservationID := Some newID\<rparr>) (od_rows db)\<rparr>)
         else (Inl (ObsNotSuperseded oldID), db))"

definition LatestObservedAt :: "string \<Rightarrow> uuid \<Rightarrow> obs_db \<Rightarrow> instant option" where
  "LatestObservedAt source loc db =
     (case map ob_ObservedAt (filter (\<lambda>r. ob_Source r = source \<and> ob_LocationID r = loc) (od_rows db)) of
        [] \<Rightarrow> None | t # ts \<Rightarrow> Some (fold max ts t))"


section \<open>The service\<close>

record correction =
  co_oldID :: uuid
  co_oldObservedAt :: instant
  co_newID :: uuid
  co_observedAt :: instant

definition observationMonthStarts :: "Observation list \<Rightarrow> instant list" where
  "observationMonthStarts obs = nub (map (\<lambda>r. month_start (ob_ObservedAt r)) obs)"

text \<open>The map from hour to live row; a later entry replaces an earlier one.\<close>

definition by_hour :: "Observation list \<Rightarrow> instant \<rightharpoonup> Observation" where
  "by_hour existing = map_of (map (\<lambda>r. (ob_ObservedAt r, r)) (rev existing))"

fun observe_plan :: "(real \<Rightarrow> real) \<Rightarrow> (instant \<rightharpoonup> Observation) \<Rightarrow> Observation list \<Rightarrow>
    Observation list \<times> correction list" where
  "observe_plan fl byHour [] = ([], [])"
| "observe_plan fl byHour (r # rs) =
     (let (ins, cs) = observe_plan fl byHour rs in
      case byHour (ob_ObservedAt r) of
        None \<Rightarrow> (r # ins, cs)
      | Some prev \<Rightarrow>
          (if DiffersFrom fl r prev
           then (r\<lparr>ob_QualityFlag := QualityCorrected\<rparr> # ins,
                 \<lparr>co_oldID = ob_ID prev, co_oldObservedAt = ob_ObservedAt prev, co_newID = ob_ID r,
                   co_observedAt = ob_ObservedAt r\<rparr> # cs)
           else (ins, cs)))"

fun supersede_all :: "correction list \<Rightarrow> obs_db \<Rightarrow> (obs_error, unit) result \<times> obs_db" where
  "supersede_all [] db = (Inr (), db)"
| "supersede_all (c # cs) db =
     (case Supersede (co_oldID c) (co_oldObservedAt c) (co_newID c) db of
        (Inl e, db') \<Rightarrow> (Inl e, db')
      | (Inr _, db') \<Rightarrow> supersede_all cs db')"

definition observe_tx :: "(real \<Rightarrow> real) \<Rightarrow> instant \<Rightarrow> string \<Rightarrow> uuid \<Rightarrow> instant \<Rightarrow> instant \<Rightarrow> Observation list \<Rightarrow>
    obs_db \<Rightarrow> (obs_error, nat \<times> Observation list \<times> correction list) result \<times> obs_db" where
  "observe_tx fl created source loc start fin obs db =
     (let db1 = EnsurePartitions (observationMonthStarts obs) db;
          (ins, cs) = observe_plan fl (by_hour (ListCurrentByWindow source loc start fin db1)) obs
      in case supersede_all cs db1 of
           (Inl e, db2) \<Rightarrow> (Inl e, db2)
         | (Inr _, db2) \<Rightarrow>
             (case InsertBatch created ins db2 of
                (Inl e, db3) \<Rightarrow> (Inl e, db3)
              | (Inr n, db3) \<Rightarrow> (Inr (n, ins, cs), db3)))"

definition type_mix :: "Observation list \<Rightarrow> (string \<times> nat) list" where
  "type_mix obs = (let ts = map ob_ObservationType obs in map (\<lambda>t. (t, count_list ts t)) (nub ts))"

definition observe_events :: "string \<Rightarrow> uuid \<Rightarrow> nat \<times> Observation list \<times> correction list \<Rightarrow> Event list" where
  "observe_events source loc = (\<lambda>(stored, storedObs, cs).
     ObservationCollected loc source (int stored) (type_mix storedObs) #
     map (\<lambda>c. ObservationCorrected loc (co_observedAt c) (co_oldID c) (co_newID c)) cs)"

text \<open>\<open>Observe\<close> returns the rows stored, the table and the events published after the commit.\<close>

definition Observe :: "(real \<Rightarrow> real) \<Rightarrow> instant \<Rightarrow> string \<Rightarrow> Location \<Rightarrow> instant \<Rightarrow> instant \<Rightarrow>
    (string, ObservationResult) result \<Rightarrow> obs_db \<Rightarrow> ((obs_error, nat) result \<times> Event list) \<times> obs_db" where
  "Observe fl created source location start fin fetch db =
     (if \<not> Active (lo_Status location) then ((Inl ObsInactive, []), db)
      else case fetch of
        Inl e \<Rightarrow> ((Inl (ObsFetch e), []), db)
      | Inr res \<Rightarrow>
          (if or_Outcome res \<noteq> OutcomeSuccess
           then ((Inl (ObsFetch (Outcome_str (or_Outcome res) @ '': '' @
                   (if or_ErrorCode res \<noteq> [] then or_ErrorCode res else ''error''))), []), db)
           else case Run (observe_tx fl created source (lo_ID location) start fin (or_Observations res)) db of
                  (Inl e, db') \<Rightarrow> ((Inl e, []), db')
                | (Inr out, db') \<Rightarrow> ((Inr (fst out), observe_events source (lo_ID location) out), db')))"

section \<open>What each step does\<close>

abbreviation obs_pk :: "Observation \<Rightarrow> uuid \<times> instant" where
  "obs_pk r \<equiv> (ob_ID r, ob_ObservedAt r)"

abbreviation corr_pk :: "correction \<Rightarrow> uuid \<times> instant" where
  "corr_pk c \<equiv> (co_oldID c, co_oldObservedAt c)"

definition stored_row :: "instant \<Rightarrow> Observation \<Rightarrow> Observation" where
  "stored_row created r = r\<lparr>ob_SupersededObservationID := None, ob_CreatedAt := created\<rparr>"

definition superseded_row :: "correction list \<Rightarrow> Observation \<Rightarrow> Observation" where
  "superseded_row cs r =
     (if observation_live r
      then case map_of (map (\<lambda>c. (corr_pk c, co_newID c)) cs) (obs_pk r) of
             None \<Rightarrow> r | Some i \<Rightarrow> r\<lparr>ob_SupersededObservationID := Some i\<rparr>
      else r)"

definition corrects :: "(real \<Rightarrow> real) \<Rightarrow> (instant \<rightharpoonup> Observation) \<Rightarrow> Observation \<Rightarrow> bool" where
  "corrects fl byHour r = (case byHour (ob_ObservedAt r) of None \<Rightarrow> False | Some p \<Rightarrow> DiffersFrom fl r p)"

definition plan_row :: "(real \<Rightarrow> real) \<Rightarrow> (instant \<rightharpoonup> Observation) \<Rightarrow> Observation \<Rightarrow> Observation" where
  "plan_row fl byHour r = (if corrects fl byHour r then r\<lparr>ob_QualityFlag := QualityCorrected\<rparr> else r)"

definition plan_correction :: "(instant \<rightharpoonup> Observation) \<Rightarrow> Observation \<Rightarrow> correction" where
  "plan_correction byHour r = (let p = the (byHour (ob_ObservedAt r)) in
     \<lparr>co_oldID = ob_ID p, co_oldObservedAt = ob_ObservedAt p, co_newID = ob_ID r, co_observedAt = ob_ObservedAt r\<rparr>)"

lemma observe_plan_eq:
  "observe_plan fl bh obs =
    (map (plan_row fl bh) (filter (\<lambda>r. bh (ob_ObservedAt r) = None \<or> corrects fl bh r) obs),
     map (plan_correction bh) (filter (corrects fl bh) obs))"
  by (induction obs) (auto simp: Let_def plan_row_def plan_correction_def corrects_def split: option.splits)

lemma plan_row_simps [simp]:
  "ob_ID (plan_row fl bh r) = ob_ID r" "ob_ObservedAt (plan_row fl bh r) = ob_ObservedAt r"
  "obs_key (plan_row fl bh r) = obs_key r"
  by (simp_all add: plan_row_def obs_key_def)

lemma stored_row_simps [simp]:
  "ob_ID (stored_row t r) = ob_ID r" "ob_ObservedAt (stored_row t r) = ob_ObservedAt r"
  "obs_key (stored_row t r) = obs_key r" "observation_live (stored_row t r)"
  "obs_checks (stored_row t r) = obs_checks r" "ob_QualityFlag (stored_row t r) = ob_QualityFlag r"
  by (simp_all add: stored_row_def obs_key_def observation_live_def obs_checks_def)

lemma superseded_row_simps [simp]:
  "ob_ID (superseded_row cs r) = ob_ID r" "ob_ObservedAt (superseded_row cs r) = ob_ObservedAt r"
  "obs_key (superseded_row cs r) = obs_key r" "obs_checks (superseded_row cs r) = obs_checks r"
  by (auto simp: superseded_row_def obs_key_def obs_checks_def split: option.splits)

lemma superseded_row_Cons: "superseded_row cs (superseded_row [c] r) = superseded_row (c # cs) r"
  by (auto simp: superseded_row_def observation_live_def split: option.splits)

lemma Supersede_rows:
  "Supersede (co_oldID c) (co_oldObservedAt c) (co_newID c) db = (Inr (), db') \<Longrightarrow>
    od_rows db' = map (superseded_row [c]) (od_rows db) \<and> od_partitions db' = od_partitions db \<and>
    (\<exists>r \<in> set (od_rows db). obs_pk r = corr_pk c \<and> observation_live r)"
  by (auto simp: Supersede_def Let_def update_where_def superseded_row_def split: if_splits)

lemma superseded_row_live:
  "observation_live (superseded_row cs r) \<longleftrightarrow> observation_live r \<and> obs_pk r \<notin> corr_pk ` set cs"
proof -
  have "map_of (map (\<lambda>c. (corr_pk c, co_newID c)) cs) (obs_pk r) = None \<longleftrightarrow> obs_pk r \<notin> corr_pk ` set cs"
    by (force simp: map_of_eq_None_iff)
  then show ?thesis by (auto simp: superseded_row_def observation_live_def split: option.splits)
qed

lemma supersede_all_ok:
  assumes "supersede_all cs db = (Inr u, db')"
  shows "od_rows db' = map (superseded_row cs) (od_rows db) \<and> od_partitions db' = od_partitions db \<and>
    (distinct (map obs_pk (od_rows db)) \<longrightarrow> distinct (map corr_pk cs)) \<and>
    (\<forall>c \<in> set cs. \<exists>r \<in> set (od_rows db). obs_pk r = corr_pk c \<and> observation_live r)"
  using assms
proof (induction cs arbitrary: db)
  case Nil
  then show ?case by (auto simp: superseded_row_def intro!: map_idI [symmetric])
next
  case (Cons c cs)
  obtain r1 db1 where s: "Supersede (co_oldID c) (co_oldObservedAt c) (co_newID c) db = (r1, db1)" by fastforce
  with Cons.prems have r1: "r1 = Inr ()" and rest: "supersede_all cs db1 = (Inr u, db')"
    by (auto split: sum.splits)
  note one = Supersede_rows [OF s [unfolded r1]]
  note ih = Cons.IH [OF rest]
  have new: "corr_pk c \<notin> corr_pk ` set cs" if pk: "distinct (map obs_pk (od_rows db))"
  proof
    assume "corr_pk c \<in> corr_pk ` set cs"
    with ih one obtain q where q: "q \<in> set (od_rows db)" "obs_pk q = corr_pk c" "observation_live (superseded_row [c] q)"
      by fastforce
    then show False by (simp add: superseded_row_live)
  qed
  have "od_rows db' = map (superseded_row (c # cs)) (od_rows db)"
    using ih one by (simp add: superseded_row_Cons)
  moreover have "\<exists>r \<in> set (od_rows db). obs_pk r = corr_pk c' \<and> observation_live r" if "c' \<in> set (c # cs)" for c'
    using that ih one by (force simp: superseded_row_live)
  moreover have "distinct (map corr_pk (c # cs))" if pk: "distinct (map obs_pk (od_rows db))"
    using new [OF pk] ih one pk by (simp add: comp_def)
  ultimately show ?case using ih one by simp
qed

lemma InsertBatch_ok:
  assumes "InsertBatch created rs db = (Inr n, db')"
  obtains new where "od_rows db' = od_rows db @ new" "od_partitions db' = od_partitions db" "length new = n"
    "set new \<subseteq> stored_row created ` set rs"
    "distinct (map obs_pk (od_rows db)) \<longrightarrow> distinct (map obs_pk (od_rows db'))"
    "distinct (map obs_key (filter observation_live (od_rows db))) \<longrightarrow>
       distinct (map obs_key (filter observation_live (od_rows db')))"
    "\<forall>r \<in> set rs. obs_checks r \<and> month_start (ob_ObservedAt r) \<in> set (od_partitions db) \<and>
       (\<exists>q \<in> set (od_rows db'). observation_live q \<and> obs_key q = obs_key r)"
  using assms
proof (induction rs arbitrary: db n thesis)
  case Nil
  then show ?case by simp
next
  case (Cons r rs)
  show ?case
  proof (cases "\<exists>q \<in> set (od_rows db). observation_live q \<and> obs_key q = obs_key r")
    case True
    with Cons.prems(2) have c: "obs_checks r" "month_start (ob_ObservedAt r) \<in> set (od_partitions db)"
      and rest: "InsertBatch created rs db = (Inr n, db')" by (auto split: if_splits)
    show ?thesis
      by (rule Cons.IH [OF _ rest], rule Cons.prems(1)) (use True c in auto)
  next
    case False
    let ?db = "db\<lparr>od_rows := od_rows db @ [stored_row created r]\<rparr>"
    from False Cons.prems(2) obtain m where c: "obs_checks r" "month_start (ob_ObservedAt r) \<in> set (od_partitions db)"
      and pk: "\<not> (\<exists>q \<in> set (od_rows db). obs_pk q = obs_pk r)"
      and m: "n = m + 1" and rest: "InsertBatch created rs ?db = (Inr m, db')"
      by (auto simp: stored_row_def split: if_splits prod.splits sum.splits)
    show ?thesis
    proof (rule Cons.IH [OF _ rest])
      fix new
      assume h: "od_rows db' = od_rows ?db @ new" "od_partitions db' = od_partitions ?db" "length new = m"
        "set new \<subseteq> stored_row created ` set rs"
        "distinct (map obs_pk (od_rows ?db)) \<longrightarrow> distinct (map obs_pk (od_rows db'))"
        "distinct (map obs_key (filter observation_live (od_rows ?db))) \<longrightarrow>
           distinct (map obs_key (filter observation_live (od_rows db')))"
        "\<forall>r \<in> set rs. obs_checks r \<and> month_start (ob_ObservedAt r) \<in> set (od_partitions ?db) \<and>
           (\<exists>q \<in> set (od_rows db'). observation_live q \<and> obs_key q = obs_key r)"
      show thesis
      proof (rule Cons.prems(1))
        show "od_rows db' = od_rows db @ stored_row created r # new" using h(1) by simp
        show "length (stored_row created r # new) = n" using h(3) m by simp
        show "set (stored_row created r # new) \<subseteq> stored_row created ` set (r # rs)" using h(4) by auto
        show "distinct (map obs_pk (od_rows db)) \<longrightarrow> distinct (map obs_pk (od_rows db'))"
          using pk by (intro impI h(5) [rule_format]) force
        show "distinct (map obs_key (filter observation_live (od_rows db))) \<longrightarrow>
            distinct (map obs_key (filter observation_live (od_rows db')))"
          using False by (intro impI h(6) [rule_format]) force
        show "\<forall>q \<in> set (r # rs). obs_checks q \<and> month_start (ob_ObservedAt q) \<in> set (od_partitions db) \<and>
           (\<exists>q' \<in> set (od_rows db'). observation_live q' \<and> obs_key q' = obs_key q)"
          using h(1,7) c by auto
      qed (use h(2) in simp)
    qed
  qed
qed

lemma by_hour_Some:
  "by_hour (ListCurrentByWindow source loc start fin db) t = Some p \<Longrightarrow>
    p \<in> set (od_rows db) \<and> observation_live p \<and> ob_ObservedAt p = t \<and> ob_Source p = source \<and> ob_LocationID p = loc \<and>
    start \<le> t \<and> t \<le> fin"
  by (auto simp: by_hour_def ListCurrentByWindow_def dest!: map_of_SomeD)

lemma by_hour_None:
  "by_hour (ListCurrentByWindow source loc start fin db) t = None \<Longrightarrow> p \<in> set (od_rows db) \<Longrightarrow> observation_live p \<Longrightarrow>
    ob_ObservedAt p = t \<Longrightarrow> ob_Source p = source \<Longrightarrow> ob_LocationID p = loc \<Longrightarrow> start \<le> t \<Longrightarrow> t \<le> fin \<Longrightarrow> False"
  by (force simp: by_hour_def ListCurrentByWindow_def map_of_eq_None_iff)

lemma EnsurePartitions_simps [simp]:
  "od_rows (EnsurePartitions ms db) = od_rows db"
  "set (od_partitions (EnsurePartitions ms db)) = set (od_partitions db) \<union> set ms"
proof -
  have "set (foldl (\<lambda>ps m. List.insert m ps) ps ms) = set ps \<union> set ms" for ps
    by (induction ms arbitrary: ps) auto
  then show "set (od_partitions (EnsurePartitions ms db)) = set (od_partitions db) \<union> set ms"
    by (simp add: EnsurePartitions_def)
qed (simp add: EnsurePartitions_def)

section \<open>The invariant of the table\<close>

definition obs_inv :: "obs_db \<Rightarrow> bool" where
  "obs_inv db \<longleftrightarrow> distinct (map obs_pk (od_rows db)) \<and>
     distinct (map obs_key (filter observation_live (od_rows db))) \<and>
     (\<forall>r \<in> set (od_rows db). \<exists>q \<in> set (od_rows db). observation_live q \<and> obs_key q = obs_key r) \<and>
     (\<forall>r \<in> set (od_rows db). \<forall>i. ob_SupersededObservationID r = Some i \<longrightarrow>
        (\<exists>q \<in> set (od_rows db). ob_ID q = i \<and> obs_key q = obs_key r)) \<and>
     (\<forall>r \<in> set (od_rows db). obs_checks r \<and> month_start (ob_ObservedAt r) \<in> set (od_partitions db))"

text \<open>Every fetched row carries the source and the location of the request.\<close>

definition rows_of_request :: "string \<Rightarrow> uuid \<Rightarrow> Observation list \<Rightarrow> bool" where
  "rows_of_request source loc obs \<longleftrightarrow> (\<forall>r \<in> set obs. ob_Source r = source \<and> ob_LocationID r = loc)"

text \<open>What a committed transaction did, \<open>bh\<close> being the map of live rows of the window.\<close>

definition observed :: "(real \<Rightarrow> real) \<Rightarrow> instant \<Rightarrow> (instant \<rightharpoonup> Observation) \<Rightarrow> Observation list \<Rightarrow>
    obs_db \<Rightarrow> Observation list \<Rightarrow> obs_db \<Rightarrow> bool" where
  "observed fl created bh obs db new db' \<longleftrightarrow>
     (let cs = map (plan_correction bh) (filter (corrects fl bh) obs) in
      od_rows db' = map (superseded_row cs) (od_rows db) @ new \<and>
      set (od_partitions db) \<subseteq> set (od_partitions db') \<and>
      set new \<subseteq> stored_row created ` plan_row fl bh ` {r \<in> set obs. bh (ob_ObservedAt r) = None \<or> corrects fl bh r} \<and>
      (distinct (map obs_pk (od_rows db)) \<longrightarrow> distinct (map obs_pk (od_rows db')) \<and> distinct (map corr_pk cs)) \<and>
      (distinct (map obs_key (filter observation_live (od_rows db))) \<longrightarrow>
         distinct (map obs_key (filter observation_live (od_rows db')))) \<and>
      (\<forall>r \<in> set obs. bh (ob_ObservedAt r) = None \<or> corrects fl bh r \<longrightarrow>
         obs_checks (plan_row fl bh r) \<and> month_start (ob_ObservedAt r) \<in> set (od_partitions db') \<and>
         (\<exists>q \<in> set (od_rows db'). observation_live q \<and> obs_key q = obs_key r)))"

lemma distinct_live_superseded:
  assumes "distinct (map obs_key (filter observation_live rows))"
  shows "distinct (map obs_key (filter observation_live (map (superseded_row cs) rows)))"
  using assms by (induction rows) (auto simp: superseded_row_live split: if_splits)

lemma observe_tx_ok:
  assumes "observe_tx fl created source loc start fin obs db = (Inr (n, ins, cs), db')"
  defines "bh \<equiv> by_hour (ListCurrentByWindow source loc start fin db)"
  obtains new where "observed fl created bh obs db new db'" "length new = n"
    "ins = map (plan_row fl bh) (filter (\<lambda>r. bh (ob_ObservedAt r) = None \<or> corrects fl bh r) obs)"
    "cs = map (plan_correction bh) (filter (corrects fl bh) obs)"
proof -
  let ?db1 = "EnsurePartitions (observationMonthStarts obs) db"
  let ?ins = "map (plan_row fl bh) (filter (\<lambda>r. bh (ob_ObservedAt r) = None \<or> corrects fl bh r) obs)"
  let ?cs = "map (plan_correction bh) (filter (corrects fl bh) obs)"
  have bh: "by_hour (ListCurrentByWindow source loc start fin ?db1) = bh"
    by (simp add: bh_def ListCurrentByWindow_def)
  from assms(1) obtain db2 where s: "supersede_all ?cs ?db1 = (Inr (), db2)"
    and i: "InsertBatch created ?ins db2 = (Inr n, db')" and eq: "ins = ?ins" "cs = ?cs"
    by (auto simp: observe_tx_def Let_def bh observe_plan_eq split: prod.splits sum.splits)
  note sup = supersede_all_ok [OF s]
  from i obtain new where new: "od_rows db' = od_rows db2 @ new" "od_partitions db' = od_partitions db2" "length new = n"
    "set new \<subseteq> stored_row created ` set ?ins"
    "distinct (map obs_pk (od_rows db2)) \<longrightarrow> distinct (map obs_pk (od_rows db'))"
    "distinct (map obs_key (filter observation_live (od_rows db2))) \<longrightarrow>
       distinct (map obs_key (filter observation_live (od_rows db')))"
    "\<forall>r \<in> set ?ins. obs_checks r \<and> month_start (ob_ObservedAt r) \<in> set (od_partitions db2) \<and>
       (\<exists>q \<in> set (od_rows db'). observation_live q \<and> obs_key q = obs_key r)"
    by (rule InsertBatch_ok)
  have "observed fl created bh obs db new db'"
    unfolding observed_def Let_def
  proof (intro conjI impI)
    show "set new \<subseteq> stored_row created ` plan_row fl bh ` {r \<in> set obs. bh (ob_ObservedAt r) = None \<or> corrects fl bh r}"
      using new(4) by auto
    show "distinct (map obs_pk (od_rows db'))" if "distinct (map obs_pk (od_rows db))"
      using that sup by (intro new(5) [rule_format]) (simp add: comp_def)
    show "distinct (map obs_key (filter observation_live (od_rows db')))"
      if "distinct (map obs_key (filter observation_live (od_rows db)))"
      using distinct_live_superseded [OF that, of ?cs] sup by (intro new(6) [rule_format]) simp
    show "\<forall>r \<in> set obs. bh (ob_ObservedAt r) = None \<or> corrects fl bh r \<longrightarrow>
         obs_checks (plan_row fl bh r) \<and> month_start (ob_ObservedAt r) \<in> set (od_partitions db') \<and>
         (\<exists>q \<in> set (od_rows db'). observation_live q \<and> obs_key q = obs_key r)"
      using new(2,7) by auto
  qed (use sup new in auto)
  from that [OF this new(3) eq] show thesis .
qed

lemma observed_live:
  "observed fl created bh obs db new db' \<Longrightarrow> r \<in> set obs \<Longrightarrow> bh (ob_ObservedAt r) = None \<or> corrects fl bh r \<Longrightarrow>
    \<exists>q \<in> set (od_rows db'). observation_live q \<and> obs_key q = obs_key r"
  unfolding observed_def Let_def by blast

lemma observed_checks:
  "observed fl created bh obs db new db' \<Longrightarrow> r \<in> set obs \<Longrightarrow> bh (ob_ObservedAt r) = None \<or> corrects fl bh r \<Longrightarrow>
    obs_checks (plan_row fl bh r) \<and> month_start (ob_ObservedAt r) \<in> set (od_partitions db')"
  unfolding observed_def Let_def by blast

text \<open>A corrected row was the live row of its key, and its correction is now that row.\<close>

lemma correction_source:
  assumes inv: "obs_inv db" and bh: "bh = by_hour (ListCurrentByWindow source loc start fin db)"
    and r: "r \<in> set (od_rows db)" "obs_pk r \<in> corr_pk ` plan_correction bh ` {x \<in> set obs. corrects fl bh x}"
    and own: "rows_of_request source loc obs"
  obtains o' where "o' \<in> set obs" "corrects fl bh o'" "bh (ob_ObservedAt o') = Some r" "obs_key o' = obs_key r"
    "obs_pk r = corr_pk (plan_correction bh o')" "observation_live r"
proof -
  from r(2) obtain o' where o': "o' \<in> set obs" "corrects fl bh o'" "obs_pk r = corr_pk (plan_correction bh o')" by auto
  then obtain p where p: "bh (ob_ObservedAt o') = Some p" by (auto simp: corrects_def split: option.splits)
  note P = by_hour_Some [OF p [unfolded bh]]
  have "obs_pk r = obs_pk p" using o'(3) p by (simp add: plan_correction_def)
  then have "r = p" using inv r(1) P by (auto simp: obs_inv_def intro: unique_row)
  with that [of o'] o' p P own show thesis by (auto simp: obs_key_def rows_of_request_def)
qed

lemma observed_keeps_live:
  assumes inv: "obs_inv db" and bh: "bh = by_hour (ListCurrentByWindow source loc start fin db)"
    and own: "rows_of_request source loc obs" and ob: "observed fl created bh obs db new db'"
    and r: "r \<in> set (od_rows db')"
  shows "\<exists>q \<in> set (od_rows db'). observation_live q \<and> obs_key q = obs_key r"
proof -
  let ?cs = "map (plan_correction bh) (filter (corrects fl bh) obs)"
  note O = ob [unfolded observed_def Let_def]
  show ?thesis
  proof (cases "r \<in> set new")
    case True
    with O have "observation_live r" by auto
    with r show ?thesis by blast
  next
    case False
    with r O obtain r0 where r0: "r0 \<in> set (od_rows db)" "r = superseded_row ?cs r0" by auto
    with inv obtain q where q: "q \<in> set (od_rows db)" "observation_live q" "obs_key q = obs_key r0"
      unfolding obs_inv_def by blast
    show ?thesis
    proof (cases "obs_pk q \<in> corr_pk ` set ?cs")
      case False
      then have "observation_live (superseded_row ?cs q)" using q by (simp add: superseded_row_live)
      moreover have "superseded_row ?cs q \<in> set (od_rows db')" using q O by auto
      ultimately show ?thesis using q r0 by (metis superseded_row_simps(3))
    next
      case True
      then have "obs_pk q \<in> corr_pk ` plan_correction bh ` {x \<in> set obs. corrects fl bh x}" by simp
      from correction_source [OF inv bh q(1) this own]
      obtain o' where "o' \<in> set obs" "corrects fl bh o'" "obs_key o' = obs_key q" by metis
      with observed_live [OF ob, of o'] q r0 show ?thesis by simp
    qed
  qed
qed

lemma observed_new_row:
  assumes inv: "obs_inv db" and bh: "bh = by_hour (ListCurrentByWindow source loc start fin db)"
    and own: "rows_of_request source loc obs" and ob: "observed fl created bh obs db new db'"
    and o': "o' \<in> set obs" "corrects fl bh o'"
  shows "stored_row created (plan_row fl bh o') \<in> set new"
proof -
  let ?cs = "map (plan_correction bh) (filter (corrects fl bh) obs)"
  note O = ob [unfolded observed_def Let_def]
  from o' obtain p where p: "bh (ob_ObservedAt o') = Some p" by (auto simp: corrects_def split: option.splits)
  note P = by_hour_Some [OF p [unfolded bh]]
  have kp: "obs_key o' = obs_key p" using P own o' by (auto simp: obs_key_def rows_of_request_def)
  from observed_live [OF ob o'(1)] o'(2) obtain q where
    q: "q \<in> set (od_rows db')" "observation_live q" "obs_key q = obs_key o'" by blast
  have "q \<in> set new"
  proof (rule ccontr)
    assume "q \<notin> set new"
    with q O obtain q0 where q0: "q0 \<in> set (od_rows db)" "q = superseded_row ?cs q0" by auto
    with q have l: "observation_live q0" "obs_pk q0 \<notin> corr_pk ` set ?cs" by (simp_all add: superseded_row_live)
    have "q0 = p" using q q0 kp l P inv unique_row [of obs_key "filter observation_live (od_rows db)" q0 p]
      by (auto simp: obs_inv_def)
    moreover have "obs_pk p = corr_pk (plan_correction bh o')" using p P by (simp add: plan_correction_def)
    ultimately show False using l o' by auto
  qed
  with O obtain o2 where o2: "o2 \<in> set obs" "bh (ob_ObservedAt o2) = None \<or> corrects fl bh o2"
    "q = stored_row created (plan_row fl bh o2)" by auto
  have same: "ob_ObservedAt o2 = ob_ObservedAt o'" using q(3) o2(3) by (simp add: obs_key_def)
  with p o2(2) have c2: "corrects fl bh o2" by simp
  have "corr_pk (plan_correction bh o2) = corr_pk (plan_correction bh o')" using same by (simp add: plan_correction_def Let_def)
  moreover have "distinct (map (corr_pk \<circ> plan_correction bh) (filter (corrects fl bh) obs))"
    using O inv by (simp add: obs_inv_def)
  ultimately have "o2 = o'" using o2(1) c2 o' by (auto dest!: unique_row [where a = o2 and b = o'])
  with \<open>q \<in> set new\<close> o2(3) show ?thesis by simp
qed
lemma observed_target:
  assumes inv: "obs_inv db" and bh: "bh = by_hour (ListCurrentByWindow source loc start fin db)"
    and own: "rows_of_request source loc obs" and ob: "observed fl created bh obs db new db'"
    and r: "r \<in> set (od_rows db')" "ob_SupersededObservationID r = Some i"
  shows "\<exists>q \<in> set (od_rows db'). ob_ID q = i \<and> obs_key q = obs_key r"
proof -
  let ?cs = "map (plan_correction bh) (filter (corrects fl bh) obs)"
  note O = ob [unfolded observed_def Let_def]
  from O r have "r \<notin> set new" by (auto simp: stored_row_def)
  with r O obtain r0 where r0: "r0 \<in> set (od_rows db)" "r = superseded_row ?cs r0" by auto
  show ?thesis
  proof (cases "ob_SupersededObservationID r0 = Some i")
    case True
    with inv r0 obtain q where "q \<in> set (od_rows db)" "ob_ID q = i" "obs_key q = obs_key r0"
      unfolding obs_inv_def by blast
    with r0 O show ?thesis by (intro bexI [of _ "superseded_row ?cs q"]) auto
  next
    case False
    with r r0 have l: "observation_live r0" and m: "map_of (map (\<lambda>c. (corr_pk c, co_newID c)) ?cs) (obs_pk r0) = Some i"
      by (auto simp: superseded_row_def split: if_splits option.splits)
    from map_of_SomeD [OF m] obtain o' where o': "o' \<in> set obs" "corrects fl bh o'"
      and pk: "obs_pk r0 = corr_pk (plan_correction bh o')" and i: "i = co_newID (plan_correction bh o')" by auto
    have "obs_pk r0 \<in> corr_pk ` plan_correction bh ` {x \<in> set obs. corrects fl bh x}" using o' pk by blast
    from o' obtain p where p: "bh (ob_ObservedAt o') = Some p" by (auto simp: corrects_def split: option.splits)
    note P = by_hour_Some [OF p [unfolded bh]]
    have "obs_pk r0 = obs_pk p" using pk p by (simp add: plan_correction_def)
    then have "r0 = p" using inv r0 P by (auto simp: obs_inv_def intro: unique_row)
    then have "obs_key o' = obs_key r0" using P own o' by (auto simp: obs_key_def rows_of_request_def)
    moreover have "stored_row created (plan_row fl bh o') \<in> set (od_rows db')"
      using observed_new_row [OF inv bh own ob o'] O by simp
    ultimately show ?thesis
      using i r0 by (intro bexI [of _ "stored_row created (plan_row fl bh o')"]) (auto simp: plan_correction_def Let_def)
  qed
qed

lemma observed_inv:
  assumes inv: "obs_inv db" and bh: "bh = by_hour (ListCurrentByWindow source loc start fin db)"
    and own: "rows_of_request source loc obs" and ob: "observed fl created bh obs db new db'"
  shows "obs_inv db'"
  unfolding obs_inv_def
proof (intro conjI ballI allI impI)
  note O = ob [unfolded observed_def Let_def]
  show "distinct (map obs_pk (od_rows db'))" "distinct (map obs_key (filter observation_live (od_rows db')))"
    using O inv unfolding obs_inv_def by blast+
  show "\<exists>q \<in> set (od_rows db'). observation_live q \<and> obs_key q = obs_key r" if "r \<in> set (od_rows db')" for r
    by (rule observed_keeps_live [OF inv bh own ob that])
  show "\<exists>q \<in> set (od_rows db'). ob_ID q = i \<and> obs_key q = obs_key r"
    if "r \<in> set (od_rows db')" "ob_SupersededObservationID r = Some i" for r i
    by (rule observed_target [OF inv bh own ob that])
  fix r
  assume r: "r \<in> set (od_rows db')"
  have "obs_checks r \<and> month_start (ob_ObservedAt r) \<in> set (od_partitions db')"
  proof (cases "r \<in> set new")
    case True
    with O obtain o' where "o' \<in> set obs" "bh (ob_ObservedAt o') = None \<or> corrects fl bh o'"
      "r = stored_row created (plan_row fl bh o')" by auto
    with observed_checks [OF ob, of o'] show ?thesis by simp
  next
    case False
    with r O inv show ?thesis by (auto simp: obs_inv_def)
  qed
  then show "obs_checks r" "month_start (ob_ObservedAt r) \<in> set (od_partitions db')" by simp_all
qed

text \<open>The rows of a call: those the adapter returned, if it returned any.\<close>

definition fetched :: "(string, ObservationResult) result \<Rightarrow> Observation list" where
  "fetched fetch = (case fetch of Inl _ \<Rightarrow> [] | Inr res \<Rightarrow> or_Observations res)"

lemma Observe_cases:
  assumes "Observe fl created source location start fin fetch db = ((r, evs), db')"
  shows "(\<exists>e. r = Inl e \<and> evs = [] \<and> db' = db) \<or>
    (\<exists>n ins cs. r = Inr n \<and> evs = observe_events source (lo_ID location) (n, ins, cs) \<and> Active (lo_Status location) \<and>
      observe_tx fl created source (lo_ID location) start fin (fetched fetch) db = (Inr (n, ins, cs), db'))"
  using assms
  by (auto simp: Observe_def fetched_def split: if_splits sum.splits prod.splits dest!: Run_cases)

text \<open>C4. Observation history is kept correctly by every collection, whatever the source returns
  and whether or not the call succeeds: each (source, location, hour) that has a row has
  exactly one live row, every superseded row points to a stored row of the same key, primary
  keys stay distinct, every row satisfies the table's checks and has its month's partition.
  Rows are never lost or edited: each earlier row stays in place and differs at most in its
  supersession mark, which is set only once. A failed call changes nothing and publishes nothing.
\<close>

theorem Observe_keeps_history:
  assumes "obs_inv db" and "rows_of_request source (lo_ID location) (fetched fetch)"
    and "Observe fl created source location start fin fetch db = ((r, evs), db')"
  shows "obs_inv db' \<and>
    (\<exists>upd new. od_rows db' = map upd (od_rows db) @ new \<and>
       (\<forall>x. (upd x)\<lparr>ob_SupersededObservationID := None\<rparr> = x\<lparr>ob_SupersededObservationID := None\<rparr> \<and>
            (\<not> observation_live x \<longrightarrow> upd x = x)) \<and>
       (case r of Inl _ \<Rightarrow> db' = db \<and> evs = [] | Inr n \<Rightarrow> length new = n))"
  using Observe_cases [OF assms(3)]
proof (elim disjE exE conjE)
  fix e
  assume "r = Inl e" "evs = []" "db' = db"
  with assms(1) show ?thesis by (auto intro!: exI [of _ id] exI [of _ "[]"])
next
  fix n ins cs
  assume r: "r = Inr n" and tx: "observe_tx fl created source (lo_ID location) start fin (fetched fetch) db = (Inr (n, ins, cs), db')"
  let ?bh = "by_hour (ListCurrentByWindow source (lo_ID location) start fin db)"
  from tx obtain new where ob: "observed fl created ?bh (fetched fetch) db new db'" and n: "length new = n"
    by (rule observe_tx_ok)
  let ?upd = "superseded_row (map (plan_correction ?bh) (filter (corrects fl ?bh) (fetched fetch)))"
  have "(?upd x)\<lparr>ob_SupersededObservationID := None\<rparr> = x\<lparr>ob_SupersededObservationID := None\<rparr> \<and>
    (\<not> observation_live x \<longrightarrow> ?upd x = x)" for x
    by (auto simp: superseded_row_def split: option.splits)
  moreover have "od_rows db' = map ?upd (od_rows db) @ new" using ob by (simp add: observed_def Let_def)
  ultimately show ?thesis
    using observed_inv [OF assms(1) refl assms(2) ob] r n by (auto intro!: exI [of _ ?upd] exI [of _ new])
qed

section \<open>A clean batch is stored, and storing it again changes nothing\<close>

text \<open>
  A batch of the requested source and location, one row per hour, inside the window, passing
  the table's checks, with identifiers the table does not use.
\<close>

definition clean_batch :: "string \<Rightarrow> uuid \<Rightarrow> instant \<Rightarrow> instant \<Rightarrow> obs_db \<Rightarrow> Observation list \<Rightarrow> bool" where
  "clean_batch source loc start fin db obs \<longleftrightarrow> rows_of_request source loc obs \<and> distinct (map ob_ObservedAt obs) \<and>
     (\<forall>r \<in> set obs. start \<le> ob_ObservedAt r \<and> ob_ObservedAt r \<le> fin \<and> obs_checks r \<and>
        ob_ID r \<notin> ob_ID ` set (od_rows db))"

lemma supersede_all_succeeds:
  assumes "distinct (map corr_pk cs)"
    and "\<forall>c \<in> set cs. \<exists>r \<in> set (od_rows db). obs_pk r = corr_pk c \<and> observation_live r"
  shows "\<exists>db'. supersede_all cs db = (Inr (), db')"
  using assms
proof (induction cs arbitrary: db)
  case (Cons c cs)
  then obtain r where "r \<in> set (od_rows db)" "obs_pk r = corr_pk c" "observation_live r" by auto
  then have "\<exists>db1. Supersede (co_oldID c) (co_oldObservedAt c) (co_newID c) db = (Inr (), db1)"
    by (auto simp: Supersede_def Let_def)
  then obtain db1 where s: "Supersede (co_oldID c) (co_oldObservedAt c) (co_newID c) db = (Inr (), db1)" ..
  note one = Supersede_rows [OF s]
  have "\<exists>r \<in> set (od_rows db1). obs_pk r = corr_pk c' \<and> observation_live r" if c': "c' \<in> set cs" for c'
  proof -
    from c' Cons.prems obtain q where q: "q \<in> set (od_rows db)" "obs_pk q = corr_pk c'" "observation_live q" by auto
    moreover have "corr_pk c' \<noteq> corr_pk c"
    proof
      assume "corr_pk c' = corr_pk c"
      moreover have "corr_pk c' \<in> corr_pk ` set cs" using c' by (rule imageI)
      ultimately show False using Cons.prems(1) by simp
    qed
    ultimately show ?thesis
      using one by (intro bexI [of _ "superseded_row [c] q"]) (auto simp: superseded_row_live)
  qed
  then have "\<exists>db'. supersede_all cs db1 = (Inr (), db')" using Cons.prems(1) by (intro Cons.IH) auto
  then show ?case by (simp add: s)
qed simp

lemma InsertBatch_succeeds:
  assumes "distinct (map obs_pk rs)"
    and "\<forall>r \<in> set rs. month_start (ob_ObservedAt r) \<in> set (od_partitions db) \<and> obs_checks r \<and>
      obs_pk r \<notin> obs_pk ` set (od_rows db)"
  shows "\<exists>n db'. InsertBatch created rs db = (Inr n, db')"
  using assms
proof (induction rs arbitrary: db)
  case (Cons r rs)
  let ?db = "db\<lparr>od_rows := od_rows db @ [stored_row created r]\<rparr>"
  have d: "distinct (map obs_pk rs)" and r: "obs_pk r \<notin> obs_pk ` set rs" using Cons.prems(1) by simp_all
  have "obs_pk x \<noteq> obs_pk r" if "x \<in> set rs" for x
    using imageI [OF that, of obs_pk] r by metis
  then have "\<exists>n db'. InsertBatch created rs ?db = (Inr n, db')"
    using Cons.prems(2) by (intro Cons.IH [OF d]) simp
  moreover have "\<exists>n db'. InsertBatch created rs db = (Inr n, db')"
    using Cons.prems(2) by (intro Cons.IH [OF d]) simp
  moreover have "\<not> (\<exists>q \<in> set (od_rows db). ob_ID q = ob_ID r \<and> ob_ObservedAt q = ob_ObservedAt r)"
    using Cons.prems(2) by (metis (no_types, lifting) image_eqI list.set_intros(1))
  ultimately show ?case using Cons.prems(2) by (auto simp: stored_row_def)
qed simp

lemma obs_checks_plan_row: "obs_checks r \<Longrightarrow> obs_checks (plan_row fl bh r)"
  by (auto simp: plan_row_def obs_checks_def QualityCorrected_def)

lemma plan_correction_hour:
  assumes "bh = by_hour (ListCurrentByWindow source loc start fin db)" "corrects fl bh r"
  shows "co_oldObservedAt (plan_correction bh r) = ob_ObservedAt r"
  using assms by (auto simp: corrects_def plan_correction_def Let_def dest: by_hour_Some split: option.splits)

lemma observe_tx_succeeds:
  assumes clean: "clean_batch source loc start fin db obs"
  shows "\<exists>n ins cs db'. observe_tx fl created source loc start fin obs db = (Inr (n, ins, cs), db')"
proof -
  let ?db1 = "EnsurePartitions (observationMonthStarts obs) db"
  define bh where bh: "bh = by_hour (ListCurrentByWindow source loc start fin db)"
  have bh1: "by_hour (ListCurrentByWindow source loc start fin ?db1) = bh"
    by (simp add: bh ListCurrentByWindow_def)
  let ?ins = "map (plan_row fl bh) (filter (\<lambda>r. bh (ob_ObservedAt r) = None \<or> corrects fl bh r) obs)"
  let ?cs = "map (plan_correction bh) (filter (corrects fl bh) obs)"
  have hours: "distinct (map ob_ObservedAt (filter P obs))" for P
    using clean by (simp add: clean_batch_def distinct_map_filter)
  have "map co_oldObservedAt ?cs = map ob_ObservedAt (filter (corrects fl bh) obs)"
    using plan_correction_hour [OF bh] by (auto simp: comp_def)
  with hours have "distinct (map co_oldObservedAt ?cs)" by (simp only:)
  then have d: "distinct (map corr_pk ?cs)" by (auto simp: distinct_map inj_on_def)
  have "\<forall>c \<in> set ?cs. \<exists>r \<in> set (od_rows ?db1). obs_pk r = corr_pk c \<and> observation_live r"
  proof
    fix c
    assume "c \<in> set ?cs"
    then obtain r p where "bh (ob_ObservedAt r) = Some p" "c = plan_correction bh r"
      by (auto simp: corrects_def split: option.splits)
    with by_hour_Some [of source loc start fin db "ob_ObservedAt r" p]
    show "\<exists>r \<in> set (od_rows ?db1). obs_pk r = corr_pk c \<and> observation_live r"
      by (intro bexI [of _ p]) (auto simp: bh plan_correction_def)
  qed
  from supersede_all_succeeds [OF d this] obtain db2 where s: "supersede_all ?cs ?db1 = (Inr (), db2)" by blast
  note sup = supersede_all_ok [OF s]
  have "\<exists>n db'. InsertBatch created ?ins db2 = (Inr n, db')"
  proof (rule InsertBatch_succeeds)
    have "distinct (map ob_ObservedAt ?ins)" using hours by (simp add: comp_def)
    then show "distinct (map obs_pk ?ins)" by (auto simp: distinct_map inj_on_def)
    have "ob_ID ` set (od_rows db2) = ob_ID ` set (od_rows db)" using sup by (auto simp: image_iff)
    then show "\<forall>r \<in> set ?ins. month_start (ob_ObservedAt r) \<in> set (od_partitions db2) \<and> obs_checks r \<and>
        obs_pk r \<notin> obs_pk ` set (od_rows db2)"
      using clean sup obs_checks_plan_row by (fastforce simp: clean_batch_def observationMonthStarts_def)
  qed
  with s show ?thesis by (auto simp: observe_tx_def Let_def bh1 observe_plan_eq)
qed

lemma observed_current:
  assumes inv: "obs_inv db" and clean: "clean_batch source loc start fin db obs"
    and bh: "bh = by_hour (ListCurrentByWindow source loc start fin db)"
    and ob: "observed fl created bh obs db new db'" and r: "r \<in> set obs"
  shows "\<exists>q \<in> set (od_rows db'). observation_live q \<and> obs_key q = obs_key r \<and>
    (q = stored_row created (plan_row fl bh r) \<or> bh (ob_ObservedAt r) = Some q \<and> \<not> DiffersFrom fl r q)"
proof -
  let ?cs = "map (plan_correction bh) (filter (corrects fl bh) obs)"
  have own: "rows_of_request source loc obs" using clean by (simp add: clean_batch_def)
  have R: "od_rows db' = map (superseded_row ?cs) (od_rows db) @ new"
    and N: "set new \<subseteq> stored_row created ` plan_row fl bh ` {r \<in> set obs. bh (ob_ObservedAt r) = None \<or> corrects fl bh r}"
    using ob unfolding observed_def Let_def by blast+
  have same: "x = r" if "x \<in> set obs" "ob_ObservedAt x = ob_ObservedAt r" for x
    using unique_row [of ob_ObservedAt obs x r] that r clean by (simp add: clean_batch_def)
  show ?thesis
  proof (cases "bh (ob_ObservedAt r)")
    case None
    with observed_live [OF ob r] obtain q where q: "q \<in> set (od_rows db')" "observation_live q" "obs_key q = obs_key r" by auto
    have "q \<in> set new"
    proof (rule ccontr)
      assume "q \<notin> set new"
      with q(1) R obtain q0 where q0: "q0 \<in> set (od_rows db)" "q = superseded_row ?cs q0" by auto
      with q have "observation_live q0" "obs_key q0 = obs_key r" by (simp_all add: superseded_row_live)
      with by_hour_None [OF None [unfolded bh] q0(1)] clean r own show False
        by (auto simp: obs_key_def clean_batch_def rows_of_request_def)
    qed
    with N obtain x where "x \<in> set obs" "q = stored_row created (plan_row fl bh x)" by auto
    moreover from this q(3) have "x = r" by (intro same) (auto simp: obs_key_def)
    ultimately show ?thesis using q by blast
  next
    case (Some p)
    note P = by_hour_Some [OF Some [unfolded bh]]
    show ?thesis
    proof (cases "corrects fl bh r")
      case True
      with observed_new_row [OF inv bh own ob r] R show ?thesis
        by (intro bexI [of _ "stored_row created (plan_row fl bh r)"]) auto
    next
      case False
      have "obs_pk p \<notin> corr_pk ` set ?cs"
      proof
        assume "obs_pk p \<in> corr_pk ` set ?cs"
        then obtain x where "x \<in> set obs" "corrects fl bh x" "ob_ObservedAt p = co_oldObservedAt (plan_correction bh x)" by auto
        with plan_correction_hour [OF bh] P same [of x] False show False by auto
      qed
      then have "superseded_row ?cs p = p"
        by (auto simp: superseded_row_def dest!: map_of_SomeD split: option.splits)
      with P R have "p \<in> set (od_rows db')" by (metis Un_iff image_eqI set_append set_map)
      with P Some False own r show ?thesis
        by (intro bexI [of _ p]) (auto simp: obs_key_def rows_of_request_def corrects_def)
    qed
  qed
qed
definition fetch_succeeded :: "Location \<Rightarrow> (string, ObservationResult) result \<Rightarrow> bool" where
  "fetch_succeeded location fetch \<longleftrightarrow> Active (lo_Status location) \<and>
     (case fetch of Inl _ \<Rightarrow> False | Inr res \<Rightarrow> or_Outcome res = OutcomeSuccess)"

lemma Observe_tx:
  assumes "fetch_succeeded location fetch"
    and "observe_tx fl created source (lo_ID location) start fin (fetched fetch) db = (Inr (n, ins, cs), db')"
  shows "Observe fl created source location start fin fetch db =
    ((Inr n, observe_events source (lo_ID location) (n, ins, cs)), db')"
  using assms by (auto simp: fetch_succeeded_def Observe_def fetched_def Run_def split: sum.splits)

text \<open>The values a correction threshold looks at, with the hour they are for.\<close>

definition reading :: "Observation \<Rightarrow> (string \<times> uuid \<times> instant) \<times> real option list" where
  "reading r = (obs_key r, [ob_TemperatureC r, ob_HumidityPct r, ob_WindSpeedMS r, ob_WindDirectionDeg r,
     ob_PressureHPa r, ob_PrecipitationMM r])"

lemma DiffersFrom_reading: "reading a = reading b \<Longrightarrow> DiffersFrom fl a q = DiffersFrom fl b q"
  by (simp add: reading_def DiffersFrom_def)

lemma reading_stored [simp]: "reading (stored_row t (plan_row fl bh r)) = reading r"
  by (simp add: reading_def stored_row_def plan_row_def obs_key_def)

lemma DiffersFrom_same_reading: "reading a = reading q \<Longrightarrow> \<not> DiffersFrom fl64 a q"
  using DiffersFrom_reading [of a q fl64 q] b64.DiffersFrom_refl by blast


lemma insert_present: "set ms \<subseteq> set ps \<Longrightarrow> foldl (\<lambda>ps m. List.insert m ps) ps ms = ps"
  by (induction ms arbitrary: ps) auto

text \<open>Nothing happens when every fetched row agrees with the live row of its hour.\<close>

lemma Observe_unchanged:
  assumes inv: "obs_inv db" and ok: "fetch_succeeded location fetch"
    and agree: "\<forall>r \<in> set (fetched fetch). start \<le> ob_ObservedAt r \<and> ob_ObservedAt r \<le> fin \<and>
      (\<exists>q \<in> set (od_rows db). observation_live q \<and> obs_key q = (source, lo_ID location, ob_ObservedAt r) \<and>
        \<not> DiffersFrom fl r q)"
  shows "Observe fl created source location start fin fetch db =
    ((Inr 0, [ObservationCollected (lo_ID location) source 0 []]), db)"
proof -
  let ?obs = "fetched fetch" and ?db1 = "EnsurePartitions (observationMonthStarts (fetched fetch)) db"
  have "set (observationMonthStarts ?obs) \<subseteq> set (od_partitions db)"
  proof
    fix m
    assume "m \<in> set (observationMonthStarts ?obs)"
    then obtain r where r: "r \<in> set ?obs" "m = month_start (ob_ObservedAt r)" by (auto simp: observationMonthStarts_def)
    with agree obtain q where "q \<in> set (od_rows db)" "ob_ObservedAt q = ob_ObservedAt r" by (auto simp: obs_key_def)
    with inv r show "m \<in> set (od_partitions db)" by (metis obs_inv_def)
  qed
  then have E: "?db1 = db" by (simp add: EnsurePartitions_def insert_present)
  let ?bh = "by_hour (ListCurrentByWindow source (lo_ID location) start fin db)"
  have "?bh (ob_ObservedAt r) \<noteq> None \<and> \<not> corrects fl ?bh r" if r: "r \<in> set ?obs" for r
  proof -
    from agree r obtain q where q: "q \<in> set (od_rows db)" "observation_live q"
      "obs_key q = (source, lo_ID location, ob_ObservedAt r)" "\<not> DiffersFrom fl r q" by blast
    from by_hour_None [of source "lo_ID location" start fin db "ob_ObservedAt r", OF _ q(1,2)] agree r q(3)
    obtain p where p: "?bh (ob_ObservedAt r) = Some p" by (cases "?bh (ob_ObservedAt r)") (auto simp: obs_key_def)
    have "p = q"
      using by_hour_Some [OF p] q inv unique_row [of obs_key "filter observation_live (od_rows db)" p q]
      by (auto simp: obs_inv_def obs_key_def)
    with p q show ?thesis by (simp add: corrects_def)
  qed
  then have "filter (corrects fl ?bh) ?obs = []" "filter (\<lambda>r. ?bh (ob_ObservedAt r) = None \<or> corrects fl ?bh r) ?obs = []"
    by (auto simp: filter_empty_conv)
  then have "observe_tx fl created source (lo_ID location) start fin ?obs db = (Inr (0, [], []), db)"
    by (simp add: observe_tx_def Let_def E observe_plan_eq)
  from Observe_tx [OF ok this] show ?thesis by (simp add: observe_events_def type_mix_def nub_def)
qed

text \<open>C29. Collecting the same readings again is a no-op: after a clean batch has been stored,
  another successful fetch of the same window that returns only readings of that batch, under
  whatever new identifiers, stores nothing, corrects nothing and leaves the table as it is.
\<close>

theorem Observe_idempotent:
  assumes inv: "obs_inv db" and ok: "fetch_succeeded location fetch" "fetch_succeeded location again"
    and clean: "clean_batch source (lo_ID location) start fin db (fetched fetch)"
    and run: "Observe fl64 created source location start fin fetch db = ((Inr n, evs), db')"
    and sub: "reading ` set (fetched again) \<subseteq> reading ` set (fetched fetch)"
  shows "Observe fl64 later source location start fin again db' =
    ((Inr 0, [ObservationCollected (lo_ID location) source 0 []]), db')"
proof (rule Observe_unchanged)
  have own: "rows_of_request source (lo_ID location) (fetched fetch)" using clean by (simp add: clean_batch_def)
  let ?bh = "by_hour (ListCurrentByWindow source (lo_ID location) start fin db)"
  from Observe_cases [OF run] obtain ins cs where
    tx: "observe_tx fl64 created source (lo_ID location) start fin (fetched fetch) db = (Inr (n, ins, cs), db')" by auto
  from tx obtain new where ob: "observed fl64 created ?bh (fetched fetch) db new db'" by (rule observe_tx_ok)
  show "obs_inv db'" by (rule observed_inv [OF inv refl own ob])
  show "fetch_succeeded location again" by (rule ok(2))
  show "\<forall>r \<in> set (fetched again). start \<le> ob_ObservedAt r \<and> ob_ObservedAt r \<le> fin \<and>
      (\<exists>q \<in> set (od_rows db'). observation_live q \<and> obs_key q = (source, lo_ID location, ob_ObservedAt r) \<and>
        \<not> DiffersFrom fl64 r q)"
  proof
    fix r
    assume "r \<in> set (fetched again)"
    with sub obtain r0 where r0: "r0 \<in> set (fetched fetch)" and eq: "reading r = reading r0" by auto
    from observed_current [OF inv clean refl ob r0] obtain q where q: "q \<in> set (od_rows db')"
      "observation_live q" "obs_key q = obs_key r0"
      "q = stored_row created (plan_row fl64 ?bh r0) \<or> \<not> DiffersFrom fl64 r0 q" by blast
    then have "\<not> DiffersFrom fl64 r q"
      using DiffersFrom_same_reading [of r q] DiffersFrom_reading [OF eq, of fl64 q] eq by auto
    moreover have "obs_key r0 = (source, lo_ID location, ob_ObservedAt r)" "ob_ObservedAt r = ob_ObservedAt r0"
      using own r0 eq by (auto simp: rows_of_request_def obs_key_def reading_def)
    ultimately show "start \<le> ob_ObservedAt r \<and> ob_ObservedAt r \<le> fin \<and>
      (\<exists>q \<in> set (od_rows db'). observation_live q \<and> obs_key q = (source, lo_ID location, ob_ObservedAt r) \<and>
        \<not> DiffersFrom fl64 r q)"
      using q clean r0 by (auto simp: clean_batch_def)
  qed
qed

section \<open>A concrete run\<close>

definition sample_obs :: "uuid \<Rightarrow> real option \<Rightarrow> string \<Rightarrow> Observation" where
  "sample_obs i temp flag = \<lparr>ob_ID = i, ob_LocationID = 7, ob_Source = ''src'', ob_ObservationType = ''reanalysis'',
     ob_ObservedAt = 0, ob_TemperatureC = temp, ob_HumidityPct = None, ob_WindSpeedMS = None,
     ob_WindDirectionDeg = None, ob_PressureHPa = None, ob_PrecipitationMM = None,
     ob_ProviderConditionCode = [], ob_CanonicalConditionCode = [], ob_QualityFlag = flag,
     ob_SupersededObservationID = None, ob_CreatedAt = 0\<rparr>"

definition sample_obs_db :: obs_db where
  "sample_obs_db = \<lparr>od_rows = [sample_obs 1 None ''valid''], od_partitions = [month_start 0]\<rparr>"

definition sample_fetch :: "Observation list \<Rightarrow> (string, ObservationResult) result" where
  "sample_fetch obs = Inr \<lparr>or_Observations = obs, or_RecordsReceived = 1, or_SuspectCount = 0, or_InvalidCount = 0,
     or_InvalidReasons = [], or_HTTPStatusCode = 200, or_LatencyMS = 1, or_Source = ''src'', or_SchemaVersion = [],
     or_AdapterVersion = [], or_RateLimit = None, or_Outcome = OutcomeSuccess, or_ErrorCode = [], or_Err = None\<rparr>"

abbreviation sample_reading :: Observation where
  "sample_reading \<equiv> sample_obs 2 (Some 99) ''suspect''"

abbreviation sample_location :: Location where
  "sample_location \<equiv> loc_a\<lparr>lo_Status := StatusActive\<rparr>"

lemma sample_obs_inv: "obs_inv sample_obs_db"
  by (simp add: obs_inv_def sample_obs_db_def sample_obs_def obs_checks_def observation_live_def
      ObservationType_Valid_def outside_def)

lemma sample_fetched [simp]: "fetched (sample_fetch obs) = obs"
  by (simp add: fetched_def sample_fetch_def)

lemma sample_succeeded: "fetch_succeeded sample_location (sample_fetch obs)"
  by (simp add: fetch_succeeded_def sample_fetch_def Active_def)

lemma sample_clean: "clean_batch ''src'' (lo_ID sample_location) 0 0 sample_obs_db [sample_reading]"
  by (simp add: clean_batch_def rows_of_request_def sample_obs_def sample_obs_db_def obs_checks_def loc_a_def
      ObservationType_Valid_def outside_def)

theorem Observe_keeps_history_witness:
  "obs_inv (snd (Observe fl64 0 ''src'' sample_location 0 0 (sample_fetch [sample_reading]) sample_obs_db))"
proof -
  let ?o = "Observe fl64 0 ''src'' sample_location 0 0 (sample_fetch [sample_reading]) sample_obs_db"
  have "rows_of_request ''src'' (lo_ID sample_location) (fetched (sample_fetch [sample_reading]))"
    by (simp add: rows_of_request_def sample_obs_def loc_a_def)
  from Observe_keeps_history [OF sample_obs_inv this, of fl64 0 0 0 "fst (fst ?o)" "snd (fst ?o)" "snd ?o"]
  show ?thesis by simp
qed


lemma sample_run:
  "\<exists>n evs db'. Observe fl64 0 ''src'' sample_location 0 0 (sample_fetch [sample_reading]) sample_obs_db = ((Inr n, evs), db')"
  using observe_tx_succeeds [OF sample_clean, of fl64 0] Observe_tx [OF sample_succeeded, of fl64 0 "''src''" 0 0 "[sample_reading]" sample_obs_db]
  by (metis sample_fetched)

theorem Observe_idempotent_witness:
  "\<exists>db'. Observe fl64 5 ''src'' sample_location 0 0 (sample_fetch [sample_obs 3 (Some 99) ''valid'']) db' =
     ((Inr 0, [ObservationCollected 7 ''src'' 0 []]), db') \<and> db' \<noteq> sample_obs_db"
proof -
  obtain n evs db' where run: "Observe fl64 0 ''src'' sample_location 0 0 (sample_fetch [sample_reading]) sample_obs_db = ((Inr n, evs), db')"
    using sample_run by blast
  have "reading (sample_obs 3 (Some 99) ''valid'') = reading sample_reading"
    by (simp add: reading_def sample_obs_def obs_key_def)
  then have "Observe fl64 5 ''src'' sample_location 0 0 (sample_fetch [sample_obs 3 (Some 99) ''valid'']) db' =
     ((Inr 0, [ObservationCollected (lo_ID sample_location) ''src'' 0 []]), db')"
    using Observe_idempotent [OF sample_obs_inv sample_succeeded sample_succeeded _ run, of "[sample_obs 3 (Some 99) ''valid'']" 5]
      sample_clean by simp
  moreover have "db' \<noteq> sample_obs_db"
    using run by (auto simp: Observe_def sample_fetch_def Active_def Run_def observe_tx_def sample_obs_db_def sample_obs_def
      ListCurrentByWindow_def by_hour_def observation_live_def DiffersFrom_def floatDiffers_def loc_a_def
      EnsurePartitions_def observationMonthStarts_def nub_def Supersede_def update_where_def obs_key_def
      obs_checks_def ObservationType_Valid_def outside_def QualityCorrected_def Let_def split: if_splits)
  ultimately show ?thesis by (auto simp: loc_a_def)
qed


end
