(* ===== verification/Matching.thy ===== *)
theory Matching
  imports Observing
begin

text \<open>
  The matching engine: candidate selection (\<^verbatim>\<open>internal/analysis/domain/match.go\<close>), the
  batch (\<^verbatim>\<open>internal/analysis/match.go\<close>) and the table \<^verbatim>\<open>matched_evaluations\<close>
  (\<^verbatim>\<open>adapters/persistence/analysispg/analysispg.go\<close>). A batch reads the snapshots and the
  observations and only adds pairs. The identifiers drawn by \<^verbatim>\<open>ids.New\<close> are a sequence
  \<open>ids\<close>, of which the table's state remembers how many were used.
\<close>

section \<open>Candidate selection\<close>

record SnapshotToMatch =
  sm_ID :: uuid
  sm_ProviderID :: uuid
  sm_LocationID :: uuid
  sm_TargetTime :: instant
  sm_ForecastHorizonMinutes :: int

record ObservationCandidate =
  oc_ID :: uuid
  oc_ObservationType :: string
  oc_QualityFlag :: string
  oc_ObservedAt :: instant

record MatchedEvaluation =
  me_ID :: uuid
  me_ForecastSnapshotID :: uuid
  me_ObservationID :: uuid
  me_ProviderID :: uuid
  me_LocationID :: uuid
  me_ForecastHorizonMinutes :: int
  me_TargetTime :: instant
  me_MatchRule :: string
  me_TimeDeltaMinutes :: int
  me_ComputedAt :: instant

definition MatchExactHour :: string where "MatchExactHour = ''exact_hour''"

definition provenanceRank :: "string \<Rightarrow> int" where
  "provenanceRank t =
     (if t = StationObservation then 1 else if t = Interpolated \<or> t = Reanalysis then 2
      else if t = ProviderEstimated then 3 else 99)"

definition absDuration :: "duration \<Rightarrow> duration" where
  "absDuration d = (if d < 0 then - d else d)"

definition candidateLess :: "(uuid \<Rightarrow> string) \<Rightarrow> ObservationCandidate \<Rightarrow> ObservationCandidate \<Rightarrow> instant \<Rightarrow> bool" where
  "candidateLess ustr a b targetHour =
     (let ac = (oc_QualityFlag a = QualityCorrected); bc = (oc_QualityFlag b = QualityCorrected);
          ra = provenanceRank (oc_ObservationType a); rb = provenanceRank (oc_ObservationType b);
          da = absDuration (oc_ObservedAt a - targetHour); db = absDuration (oc_ObservedAt b - targetHour)
      in if ac \<noteq> bc then ac
         else if ra \<noteq> rb then ra < rb
         else if da \<noteq> db then da < db
         else str_less (ustr (oc_ID a)) (ustr (oc_ID b)))"

fun select_from :: "(uuid \<Rightarrow> string) \<Rightarrow> instant \<Rightarrow> ObservationCandidate option \<Rightarrow> ObservationCandidate option list \<Rightarrow>
    ObservationCandidate option" where
  "select_from ustr h best [] = best"
| "select_from ustr h best (None # cs) = select_from ustr h best cs"
| "select_from ustr h best (Some c # cs) =
     select_from ustr h (if best = None \<or> candidateLess ustr c (the best) h then Some c else best) cs"

text \<open>The candidates are pointers, \<open>None\<close> a nil one.\<close>

definition SelectCandidate :: "(uuid \<Rightarrow> string) \<Rightarrow> instant \<Rightarrow> ObservationCandidate option list \<Rightarrow> ObservationCandidate option" where
  "SelectCandidate ustr targetHour candidates = select_from ustr targetHour None candidates"


section \<open>The table and the batch\<close>

record match_tbl =
  mt_pairs :: "MatchedEvaluation list"
  mt_drawn :: nat

definition unmatched :: "MatchedEvaluation list \<Rightarrow> ForecastSnapshot \<Rightarrow> bool" where
  "unmatched pairs s \<longleftrightarrow> (\<forall>p \<in> set pairs. me_ForecastSnapshotID p \<noteq> fs_ID s)"

definition to_match :: "ForecastSnapshot \<Rightarrow> SnapshotToMatch" where
  "to_match s = \<lparr>sm_ID = fs_ID s, sm_ProviderID = fs_ProviderID s, sm_LocationID = fs_LocationID s,
     sm_TargetTime = fs_TargetTime s, sm_ForecastHorizonMinutes = fs_ForecastHorizonMinutes s\<rparr>"

definition ListUnmatchedSnapshots :: "ForecastSnapshot list \<Rightarrow> instant \<Rightarrow> instant \<Rightarrow> uuid \<Rightarrow> nat \<Rightarrow>
    MatchedEvaluation list \<Rightarrow> SnapshotToMatch list" where
  "ListUnmatchedSnapshots snaps from to after limit pairs =
     map to_match (keyset fs_ID (\<lambda>s. from \<le> fs_TargetTime s \<and> fs_TargetTime s < to \<and> unmatched pairs s) after limit snaps)"

definition FindCandidates :: "Observation list \<Rightarrow> uuid \<Rightarrow> instant \<Rightarrow> ObservationCandidate list" where
  "FindCandidates obs loc hour =
     map (\<lambda>r. \<lparr>oc_ID = ob_ID r, oc_ObservationType = ob_ObservationType r, oc_QualityFlag = ob_QualityFlag r,
            oc_ObservedAt = ob_ObservedAt r\<rparr>)
       (filter (\<lambda>r. ob_LocationID r = loc \<and> ob_ObservedAt r = hour \<and> ob_QualityFlag r \<noteq> QualitySuspect \<and>
          observation_live r) obs)"

datatype match_error = MatchDuplicateID

text \<open>\<^verbatim>\<open>ON CONFLICT (forecast_snapshot_id, observation_id) DO NOTHING\<close>, row by row.\<close>

fun InsertMatches :: "MatchedEvaluation list \<Rightarrow> match_tbl \<Rightarrow> (match_error, nat) result \<times> match_tbl" where
  "InsertMatches [] tbl = (Inr 0, tbl)"
| "InsertMatches (p # ps) tbl =
     (if \<exists>q \<in> set (mt_pairs tbl). me_ForecastSnapshotID q = me_ForecastSnapshotID p \<and> me_ObservationID q = me_ObservationID p
      then InsertMatches ps tbl
      else if \<exists>q \<in> set (mt_pairs tbl). me_ID q = me_ID p then (Inl MatchDuplicateID, tbl)
      else (case InsertMatches ps (tbl\<lparr>mt_pairs := mt_pairs tbl @ [p]\<rparr>) of
              (Inl e, tbl') \<Rightarrow> (Inl e, tbl')
            | (Inr n, tbl') \<Rightarrow> (Inr (n + 1), tbl')))"

definition newPair :: "uuid \<Rightarrow> instant \<Rightarrow> SnapshotToMatch \<Rightarrow> uuid \<Rightarrow> instant \<Rightarrow> MatchedEvaluation" where
  "newPair fresh now snap obsID observedAt =
     (let d = observedAt - sm_TargetTime snap;
          delta = (if d < 0 then - ((- d) div Minute) else d div Minute);
          delta' = (if delta < 0 then - delta else delta)
      in \<lparr>me_ID = fresh, me_ForecastSnapshotID = sm_ID snap, me_ObservationID = obsID,
          me_ProviderID = sm_ProviderID snap, me_LocationID = sm_LocationID snap,
          me_ForecastHorizonMinutes = sm_ForecastHorizonMinutes snap, me_TargetTime = sm_TargetTime snap,
          me_MatchRule = MatchExactHour, me_TimeDeltaMinutes = delta', me_ComputedAt = now\<rparr>)"

text \<open>The pairs of a chunk, drawing one identifier for each.\<close>

fun chunk_matches :: "(uuid \<Rightarrow> string) \<Rightarrow> (nat \<Rightarrow> uuid) \<Rightarrow> instant \<Rightarrow> Observation list \<Rightarrow> nat \<Rightarrow> SnapshotToMatch list \<Rightarrow>
    MatchedEvaluation list" where
  "chunk_matches ustr ids now obs k [] = []"
| "chunk_matches ustr ids now obs k (snap # chunk) =
     (let hour = Truncate (sm_TargetTime snap) Hour in
      case SelectCandidate ustr hour (map Some (FindCandidates obs (sm_LocationID snap) hour)) of
        None \<Rightarrow> chunk_matches ustr ids now obs k chunk
      | Some c \<Rightarrow> newPair (ids k) now snap (oc_ID c) (oc_ObservedAt c) # chunk_matches ustr ids now obs (Suc k) chunk)"

definition store_matches :: "MatchedEvaluation list \<Rightarrow> match_tbl \<Rightarrow> (match_error, nat) result \<times> match_tbl" where
  "store_matches matches tbl =
     (let tbl1 = tbl\<lparr>mt_drawn := mt_drawn tbl + length matches\<rparr>
      in if matches = [] then (Inr 0, tbl1) else Run (InsertMatches matches) tbl1)"

lemma ListUnmatched_after:
  "s \<in> set (ListUnmatchedSnapshots snaps from to after limit pairs) \<Longrightarrow> after < sm_ID s \<and> sm_ID s \<in> fs_ID ` set snaps"
  by (auto simp: ListUnmatchedSnapshots_def keyset_def to_match_def dest!: in_set_takeD)

function match_loop :: "(uuid \<Rightarrow> string) \<Rightarrow> (nat \<Rightarrow> uuid) \<Rightarrow> instant \<Rightarrow> nat \<Rightarrow> ForecastSnapshot list \<Rightarrow> Observation list \<Rightarrow>
    instant \<Rightarrow> instant \<Rightarrow> uuid \<Rightarrow> nat \<Rightarrow> match_tbl \<Rightarrow> (nat \<times> match_error option) \<times> match_tbl" where
  "match_loop ustr ids now chunkSize snaps obs from to after created tbl =
     (let chunk = ListUnmatchedSnapshots snaps from to after chunkSize (mt_pairs tbl) in
      if chunk = [] then ((created, None), tbl)
      else case store_matches (chunk_matches ustr ids now obs (mt_drawn tbl) chunk) tbl of
             (Inl e, tbl') \<Rightarrow> ((created, Some e), tbl')
           | (Inr n, tbl') \<Rightarrow>
               (if length chunk < chunkSize then ((created + n, None), tbl')
                else match_loop ustr ids now chunkSize snaps obs from to (sm_ID (last chunk)) (created + n) tbl'))"
  by pat_completeness auto
termination
proof (relation "measure (\<lambda>(ustr, ids, now, chunkSize, snaps, obs, from, to, after, created, tbl).
    card {i \<in> fs_ID ` set snaps. after < i})", goal_cases)
  case (2 ustr ids now chunkSize snaps obs "from" to after created tbl chunk x tbl' n)
  then have "last chunk \<in> set (ListUnmatchedSnapshots snaps from to after chunkSize (mt_pairs tbl))" by simp
  from ListUnmatched_after [OF this] show ?case
    by (auto intro!: psubset_card_mono)
qed simp

declare match_loop.simps [simp del]

record RematchTarget =
  rt_Snapshot :: SnapshotToMatch
  rt_NewObservationID :: uuid
  rt_NewObservedAt :: instant

definition ListRematchTargets :: "nat \<Rightarrow> Observation list \<Rightarrow> MatchedEvaluation list \<Rightarrow> RematchTarget list" where
  "ListRematchTargets limit obs pairs =
     take limit (sort_key (\<lambda>t. sm_ID (rt_Snapshot t))
       [\<lparr>rt_Snapshot = \<lparr>sm_ID = me_ForecastSnapshotID p, sm_ProviderID = me_ProviderID p, sm_LocationID = me_LocationID p,
            sm_TargetTime = me_TargetTime p, sm_ForecastHorizonMinutes = me_ForecastHorizonMinutes p\<rparr>,
         rt_NewObservationID = ob_ID n, rt_NewObservedAt = ob_ObservedAt n\<rparr>.
        p \<leftarrow> pairs, r \<leftarrow> obs, ob_ID r = me_ObservationID p, n \<leftarrow> obs, ob_SupersededObservationID r = Some (ob_ID n),
        \<not> (\<exists>q \<in> set pairs. me_ForecastSnapshotID q = me_ForecastSnapshotID p \<and> me_ObservationID q = ob_ID n)])"

fun rematch_pairs :: "(nat \<Rightarrow> uuid) \<Rightarrow> instant \<Rightarrow> nat \<Rightarrow> RematchTarget list \<Rightarrow> MatchedEvaluation list" where
  "rematch_pairs ids now k [] = []"
| "rematch_pairs ids now k (t # ts) =
     newPair (ids k) now (rt_Snapshot t) (rt_NewObservationID t) (rt_NewObservedAt t) # rematch_pairs ids now (Suc k) ts"

definition rematchBatchLimit :: nat where "rematchBatchLimit = 5000"
definition defaultChunkSize :: nat where "defaultChunkSize = 5000"
definition matchWindowBack :: duration where "matchWindowBack = 30 * 24 * Hour"
definition publicationMargin :: duration where "publicationMargin = 2 * Hour"

definition rematch :: "(nat \<Rightarrow> uuid) \<Rightarrow> instant \<Rightarrow> nat \<Rightarrow> Observation list \<Rightarrow> match_tbl \<Rightarrow> (match_error, nat) result \<times> match_tbl" where
  "rematch ids now limit obs tbl =
     (let targets = ListRematchTargets limit obs (mt_pairs tbl)
      in if targets = [] then (Inr 0, tbl)
         else store_matches (rematch_pairs ids now (mt_drawn tbl) targets) tbl)"

definition CountUnmatched :: "ForecastSnapshot list \<Rightarrow> instant \<Rightarrow> instant \<Rightarrow> MatchedEvaluation list \<Rightarrow> nat" where
  "CountUnmatched snaps from to pairs =
     length (filter (\<lambda>s. from \<le> fs_TargetTime s \<and> fs_TargetTime s < to \<and> unmatched pairs s) snaps)"

text \<open>\<open>MatchBatch\<close> returns the pairs created and the error, if any.\<close>

definition MatchBatch :: "(uuid \<Rightarrow> string) \<Rightarrow> (nat \<Rightarrow> uuid) \<Rightarrow> nat \<Rightarrow> instant \<Rightarrow> ForecastSnapshot list \<Rightarrow> Observation list \<Rightarrow>
    match_tbl \<Rightarrow> (nat \<times> match_error option) \<times> match_tbl" where
  "MatchBatch ustr ids chunkSize now snaps obs tbl =
     (let from = now - matchWindowBack; to = now - publicationMargin in
      case match_loop ustr ids now chunkSize snaps obs from to nil_uuid 0 tbl of
        ((created, Some e), tbl1) \<Rightarrow> ((created, Some e), tbl1)
      | ((created, None), tbl1) \<Rightarrow>
          (case rematch ids now rematchBatchLimit obs tbl1 of
             (Inl e, tbl2) \<Rightarrow> ((created, Some e), tbl2)
           | (Inr n, tbl2) \<Rightarrow> ((created + n, None), tbl2)))"

section \<open>Selection is a total order\<close>

lemma str_less_neg_trans: "\<not> str_less a b \<Longrightarrow> \<not> str_less b c \<Longrightarrow> \<not> str_less a c"
  using str_less_total str_less_trans by metis

definition not_corrected :: "ObservationCandidate \<Rightarrow> int" where
  "not_corrected c = (if oc_QualityFlag c = QualityCorrected then 0 else 1)"

lemma candidateLess_lex:
  "candidateLess ustr a b h \<longleftrightarrow>
    not_corrected a < not_corrected b \<or> not_corrected a = not_corrected b \<and>
    (provenanceRank (oc_ObservationType a) < provenanceRank (oc_ObservationType b) \<or>
     provenanceRank (oc_ObservationType a) = provenanceRank (oc_ObservationType b) \<and>
     (absDuration (oc_ObservedAt a - h) < absDuration (oc_ObservedAt b - h) \<or>
      absDuration (oc_ObservedAt a - h) = absDuration (oc_ObservedAt b - h) \<and>
      str_less (ustr (oc_ID a)) (ustr (oc_ID b))))"
  by (auto simp: candidateLess_def Let_def not_corrected_def)

lemma candidateLess_asym: "candidateLess ustr a b h \<Longrightarrow> \<not> candidateLess ustr b a h"
  using str_less_asym [of "ustr (oc_ID a)" "ustr (oc_ID b)"] by (auto simp: candidateLess_lex)

lemma candidateLess_neg_trans:
  assumes "\<not> candidateLess ustr a b h" "\<not> candidateLess ustr b c h"
  shows "\<not> candidateLess ustr a c h"
proof -
  note s = str_less_neg_trans [of "ustr (oc_ID a)" "ustr (oc_ID b)" "ustr (oc_ID c)"]
  from assms show ?thesis
    unfolding candidateLess_lex not_less de_Morgan_disj de_Morgan_conj using s by linarith
qed

context uuid_text
begin

lemma candidateLess_total: "oc_ID a \<noteq> oc_ID b \<Longrightarrow> candidateLess ustr a b h \<or> candidateLess ustr b a h"
  using str_less_total [of "ustr (oc_ID a)" "ustr (oc_ID b)"] by (auto simp: candidateLess_lex text_inj)

end

definition candidates_of :: "'a option list \<Rightarrow> 'a list" where
  "candidates_of cs = map the (filter (\<lambda>c. c \<noteq> None) cs)"

lemma candidates_of_simps [simp]:
  "candidates_of [] = []" "candidates_of (None # cs) = candidates_of cs"
  "candidates_of (Some c # cs) = c # candidates_of cs" "candidates_of (map Some xs) = xs"
  by (simp_all add: candidates_of_def comp_def)

lemma set_candidates_of: "c \<in> set (candidates_of cs) \<longleftrightarrow> Some c \<in> set cs"
  by (induction cs rule: list.induct) (auto simp: candidates_of_def)

lemma select_from_best_of:
  "select_from ustr h best cs =
    (case best of
       Some b \<Rightarrow> Some (best_of (\<lambda>a b. candidateLess ustr a b h) b (candidates_of cs))
     | None \<Rightarrow> (case candidates_of cs of [] \<Rightarrow> None
                | c # cs \<Rightarrow> Some (best_of (\<lambda>a b. candidateLess ustr a b h) c cs)))"
  by (induction ustr h best cs rule: select_from.induct) (auto split: option.splits)

lemma SelectCandidate_None: "SelectCandidate ustr h cs = None \<longleftrightarrow> candidates_of cs = []"
  by (simp add: SelectCandidate_def select_from_best_of split: list.splits)

lemma SelectCandidate_Some:
  assumes "SelectCandidate ustr h cs = Some b"
  shows "b \<in> set (candidates_of cs)" and "c \<in> set (candidates_of cs) \<Longrightarrow> \<not> candidateLess ustr c b h"
proof -
  let ?lt = "\<lambda>a b. candidateLess ustr a b h"
  from assms obtain x xs where x: "candidates_of cs = x # xs" "b = best_of ?lt x xs"
    by (auto simp: SelectCandidate_def select_from_best_of split: list.splits)
  show "b \<in> set (candidates_of cs)" using best_of_in [of ?lt x xs] x by simp
  show "\<not> ?lt c b" if "c \<in> set (candidates_of cs)"
    unfolding x(2)
  proof (rule best_of_max [of ?lt])
    show "\<And>a b. ?lt a b \<Longrightarrow> \<not> ?lt b a" by (rule candidateLess_asym)
    show "\<And>a b c. \<not> ?lt a b \<Longrightarrow> \<not> ?lt b c \<Longrightarrow> \<not> ?lt a c" by (rule candidateLess_neg_trans)
    show "c \<in> insert x (set xs)" using that x(1) by simp
  qed
qed

text \<open>C30. Candidate selection returns the unique best observation under the documented order
  (corrected first, then provenance, then nearness to the hour, then identifier), and its
  result does not depend on the order of the candidates, for any identifier text that parses
  back.
\<close>

theorem SelectCandidate_order_independent:
  assumes "uuid_text ustr uparse" and "distinct (map oc_ID (candidates_of cs))" and "mset cs = mset cs'"
  shows "SelectCandidate ustr h cs' = SelectCandidate ustr h cs \<and>
    (case SelectCandidate ustr h cs of
       None \<Rightarrow> candidates_of cs = []
     | Some b \<Rightarrow> Some b \<in> set cs \<and> (\<forall>c. Some c \<in> set cs \<longrightarrow> c = b \<or> candidateLess ustr b c h))"
proof -
  have set: "set cs' = set cs" using assms(3) by (metis set_mset_mset)
  have best: "c = b \<or> candidateLess ustr b c h"
    if "SelectCandidate ustr h ds = Some b" "set ds = set cs" "Some c \<in> set cs" for ds b c
  proof -
    note B = SelectCandidate_Some [OF that(1)]
    have in_cs: "b \<in> set (candidates_of cs)" "c \<in> set (candidates_of cs)"
      using B(1) that by (simp_all add: set_candidates_of)
    have "c = b" if "oc_ID c = oc_ID b" using unique_row [OF assms(2) in_cs(2,1) that] .
    moreover have "\<not> candidateLess ustr c b h" using B(2) that by (simp add: set_candidates_of)
    ultimately show ?thesis using uuid_text.candidateLess_total [OF assms(1), of c b h] by blast
  qed
  have none: "candidates_of cs' = [] \<longleftrightarrow> candidates_of cs = []"
    by (simp add: candidates_of_def filter_empty_conv set)
  show ?thesis
  proof (cases "SelectCandidate ustr h cs")
    case None
    then have "candidates_of cs = []" by (simp add: SelectCandidate_None)
    with None none SelectCandidate_None [of ustr h cs'] show ?thesis by simp
  next
    case (Some b)
    then have "candidates_of cs' \<noteq> []" using none SelectCandidate_None [of ustr h cs] by simp
    then obtain b' where b': "SelectCandidate ustr h cs' = Some b'" using SelectCandidate_None [of ustr h cs'] by auto
    have mem: "Some b \<in> set cs" "Some b' \<in> set cs"
      using SelectCandidate_Some(1) [OF Some] SelectCandidate_Some(1) [OF b'] set by (simp_all add: set_candidates_of)
    then have "b' = b"
      using best [OF Some refl mem(2)] best [OF b' set mem(1)] candidateLess_asym [of ustr b b' h] by blast
    moreover have "\<forall>c. Some c \<in> set cs \<longrightarrow> c = b \<or> candidateLess ustr b c h" using best [OF Some refl] by blast
    ultimately show ?thesis using b' Some mem by simp
  qed
qed
section \<open>The invariant of the pairs\<close>

abbreviation pair_src :: "MatchedEvaluation \<Rightarrow> uuid \<times> uuid" where
  "pair_src p \<equiv> (me_ForecastSnapshotID p, me_ObservationID p)"

text \<open>Observations have distinct identifiers, and corrections stay on the key they correct.\<close>

definition obs_rows_ok :: "Observation list \<Rightarrow> bool" where
  "obs_rows_ok obs \<longleftrightarrow> distinct (map ob_ID obs) \<and> distinct (map obs_key (filter observation_live obs)) \<and>
     (\<forall>r \<in> set obs. \<forall>i. ob_SupersededObservationID r = Some i \<longrightarrow>
        (\<exists>q \<in> set obs. ob_ID q = i \<and> obs_key q = obs_key r))"

definition pair_of :: "ForecastSnapshot \<Rightarrow> Observation \<Rightarrow> MatchedEvaluation \<Rightarrow> bool" where
  "pair_of s r p \<longleftrightarrow> me_ForecastSnapshotID p = fs_ID s \<and> me_ProviderID p = fs_ProviderID s \<and>
     me_LocationID p = fs_LocationID s \<and> me_TargetTime p = fs_TargetTime s \<and>
     me_ForecastHorizonMinutes p = fs_ForecastHorizonMinutes s \<and> me_ObservationID p = ob_ID r \<and>
     ob_LocationID r = fs_LocationID s \<and> ob_ObservedAt r = Truncate (fs_TargetTime s) Hour"

definition match_inv :: "ForecastSnapshot list \<Rightarrow> Observation list \<Rightarrow> MatchedEvaluation list \<Rightarrow> bool" where
  "match_inv snaps obs pairs \<longleftrightarrow> distinct (map pair_src pairs) \<and>
     (\<forall>p \<in> set pairs. \<exists>s \<in> set snaps. \<exists>r \<in> set obs. pair_of s r p) \<and>
     (\<forall>p \<in> set pairs. \<forall>q \<in> set pairs. \<forall>r \<in> set obs. \<forall>r' \<in> set obs.
        me_ForecastSnapshotID p = me_ForecastSnapshotID q \<and> ob_ID r = me_ObservationID p \<and> ob_ID r' = me_ObservationID q \<longrightarrow>
        obs_key r = obs_key r')"

definition live_pair :: "Observation list \<Rightarrow> MatchedEvaluation \<Rightarrow> bool" where
  "live_pair obs p \<longleftrightarrow> (\<exists>r \<in> set obs. ob_ID r = me_ObservationID p \<and> observation_live r)"

lemma InsertMatches_ok:
  assumes "InsertMatches ps tbl = (Inr n, tbl')"
  shows "\<exists>new. mt_pairs tbl' = mt_pairs tbl @ new \<and> mt_drawn tbl' = mt_drawn tbl \<and> length new = n \<and> set new \<subseteq> set ps \<and>
    (distinct (map pair_src (mt_pairs tbl)) \<longrightarrow> distinct (map pair_src (mt_pairs tbl'))) \<and>
    (\<forall>p \<in> set ps. \<exists>q \<in> set (mt_pairs tbl'). pair_src q = pair_src p)"
  using assms
proof (induction ps arbitrary: tbl n)
  case (Cons p ps)
  show ?case
  proof (cases "\<exists>q \<in> set (mt_pairs tbl). pair_src q = pair_src p")
    case True
    with Cons.prems have "InsertMatches ps tbl = (Inr n, tbl')" by auto
    from Cons.IH [OF this] obtain new where new: "mt_pairs tbl' = mt_pairs tbl @ new" "mt_drawn tbl' = mt_drawn tbl"
      "length new = n" "set new \<subseteq> set ps"
      "distinct (map pair_src (mt_pairs tbl)) \<longrightarrow> distinct (map pair_src (mt_pairs tbl'))"
      "\<forall>p \<in> set ps. \<exists>q \<in> set (mt_pairs tbl'). pair_src q = pair_src p" by blast
    moreover have "\<exists>q \<in> set (mt_pairs tbl'). pair_src q = pair_src p" using True new(1) by auto
    ultimately show ?thesis by (intro exI [of _ new]) auto
  next
    case False
    let ?tbl = "tbl\<lparr>mt_pairs := mt_pairs tbl @ [p]\<rparr>"
    from False Cons.prems obtain m where m: "n = m + 1" "InsertMatches ps ?tbl = (Inr m, tbl')"
      by (auto split: if_splits prod.splits sum.splits)
    from Cons.IH [OF m(2)] obtain new where new: "mt_pairs tbl' = mt_pairs ?tbl @ new" "mt_drawn tbl' = mt_drawn ?tbl"
      "length new = m" "set new \<subseteq> set ps"
      "distinct (map pair_src (mt_pairs ?tbl)) \<longrightarrow> distinct (map pair_src (mt_pairs tbl'))"
      "\<forall>p \<in> set ps. \<exists>q \<in> set (mt_pairs tbl'). pair_src q = pair_src p" by blast
    have "pair_src p \<notin> pair_src ` set (mt_pairs tbl)" 
    proof
      assume "pair_src p \<in> pair_src ` set (mt_pairs tbl)"
      then obtain q where "pair_src p = pair_src q" "q \<in> set (mt_pairs tbl)" by (rule imageE)
      with False show False by force
    qed
    then have "distinct (map pair_src (mt_pairs tbl)) \<longrightarrow> distinct (map pair_src (mt_pairs tbl'))"
      using new(5) by simp
    with new m show ?thesis by (intro exI [of _ "p # new"]) auto
  qed
qed simp

lemma store_matches_ok:
  assumes "store_matches ps tbl = (r, tbl')"
  shows "\<exists>new. mt_pairs tbl' = mt_pairs tbl @ new \<and> set new \<subseteq> set ps \<and>
    (distinct (map pair_src (mt_pairs tbl)) \<longrightarrow> distinct (map pair_src (mt_pairs tbl'))) \<and>
    (case r of Inl _ \<Rightarrow> new = []
     | Inr n \<Rightarrow> length new = n \<and> (\<forall>p \<in> set ps. \<exists>q \<in> set (mt_pairs tbl'). pair_src q = pair_src p))"
proof (cases "ps = []")
  case True
  with assms show ?thesis by (auto simp: store_matches_def)
next
  case False
  let ?tbl = "tbl\<lparr>mt_drawn := mt_drawn tbl + length ps\<rparr>"
  from assms False have "Run (InsertMatches ps) ?tbl = (r, tbl')" by (simp add: store_matches_def Let_def)
  from Run_cases [OF this] show ?thesis
  proof (elim disjE exE conjE)
    fix e
    assume "r = Inl e" "tbl' = ?tbl"
    then show ?thesis by simp
  next
    fix n
    assume r: "r = Inr n" and i: "InsertMatches ps ?tbl = (Inr n, tbl')"
    from InsertMatches_ok [OF i] obtain new where "mt_pairs tbl' = mt_pairs ?tbl @ new" "length new = n" "set new \<subseteq> set ps"
      "distinct (map pair_src (mt_pairs ?tbl)) \<longrightarrow> distinct (map pair_src (mt_pairs tbl'))"
      "\<forall>p \<in> set ps. \<exists>q \<in> set (mt_pairs tbl'). pair_src q = pair_src p" by blast
    then show ?thesis using r by (intro exI [of _ new]) simp
  qed
qed

text \<open>Adding correct pairs keeps the invariant when pairs of one snapshot agree on the key.\<close>

lemma match_inv_append:
  assumes inv: "match_inv snaps obs pairs" and dist: "distinct (map pair_src (pairs @ new))"
    and ok: "\<forall>p \<in> set new. \<exists>s \<in> set snaps. \<exists>r \<in> set obs. pair_of s r p"
    and key: "\<forall>p \<in> set new. \<forall>q \<in> set pairs \<union> set new. \<forall>r \<in> set obs. \<forall>r' \<in> set obs.
      me_ForecastSnapshotID p = me_ForecastSnapshotID q \<and> ob_ID r = me_ObservationID p \<and> ob_ID r' = me_ObservationID q \<longrightarrow>
      obs_key r = obs_key r'"
  shows "match_inv snaps obs (pairs @ new)"
  unfolding match_inv_def
proof (intro conjI ballI impI)
  show "distinct (map pair_src (pairs @ new))" by (rule dist)
  show "\<exists>s \<in> set snaps. \<exists>r \<in> set obs. pair_of s r p" if "p \<in> set (pairs @ new)" for p
    using that inv ok unfolding match_inv_def by auto
  fix p q r r'
  assume m: "p \<in> set (pairs @ new)" "q \<in> set (pairs @ new)" "r \<in> set obs" "r' \<in> set obs"
    and e: "me_ForecastSnapshotID p = me_ForecastSnapshotID q \<and> ob_ID r = me_ObservationID p \<and> ob_ID r' = me_ObservationID q"
  consider "p \<in> set new" | "q \<in> set new" | "p \<in> set pairs" "q \<in> set pairs" using m by auto
  then show "obs_key r = obs_key r'"
  proof cases
    case 1
    with key m e show ?thesis by auto
  next
    case 2
    with key m e have "obs_key r' = obs_key r" by auto
    then show ?thesis ..
  next
    case 3
    with inv m e show ?thesis unfolding match_inv_def by blast
  qed
qed

lemma live_pair_unique:
  assumes "match_inv snaps obs pairs" "obs_rows_ok obs" "p \<in> set pairs" "q \<in> set pairs"
    and "me_ForecastSnapshotID p = me_ForecastSnapshotID q" "live_pair obs p" "live_pair obs q"
  shows "p = q"
proof -
  from assms(6,7) obtain r r' where r: "r \<in> set obs" "ob_ID r = me_ObservationID p" "observation_live r"
    "r' \<in> set obs" "ob_ID r' = me_ObservationID q" "observation_live r'" by (auto simp: live_pair_def)
  with assms have "obs_key r = obs_key r'" unfolding match_inv_def by blast
  with r assms(2) have "r = r'" by (intro unique_row [of obs_key "filter observation_live obs"]) (auto simp: obs_rows_ok_def)
  with r assms show ?thesis by (intro unique_row [of pair_src pairs]) (auto simp: match_inv_def)
qed
section \<open>What a chunk adds\<close>

lemma newPair_simps [simp]:
  "me_ForecastSnapshotID (newPair i t s ob at') = sm_ID s" "me_ObservationID (newPair i t s ob at') = ob"
  "me_ProviderID (newPair i t s ob at') = sm_ProviderID s" "me_LocationID (newPair i t s ob at') = sm_LocationID s"
  "me_TargetTime (newPair i t s ob at') = sm_TargetTime s"
  "me_ForecastHorizonMinutes (newPair i t s ob at') = sm_ForecastHorizonMinutes s"
  by (simp_all add: newPair_def Let_def)

lemma candidate_row:
  assumes "SelectCandidate ustr h (map Some (FindCandidates obs loc hour)) = Some c"
  shows "\<exists>r \<in> set obs. ob_ID r = oc_ID c \<and> ob_LocationID r = loc \<and> ob_ObservedAt r = hour \<and> observation_live r"
proof -
  have "c \<in> set (FindCandidates obs loc hour)" using SelectCandidate_Some(1) [OF assms] by simp
  then show ?thesis by (auto simp: FindCandidates_def)
qed

lemma chunk_matches_mem:
  assumes "p \<in> set (chunk_matches ustr ids now obs k chunk)"
  shows "\<exists>snap \<in> set chunk. \<exists>r \<in> set obs. sm_ID snap = me_ForecastSnapshotID p \<and> sm_ProviderID snap = me_ProviderID p \<and>
    sm_LocationID snap = me_LocationID p \<and> sm_TargetTime snap = me_TargetTime p \<and>
    sm_ForecastHorizonMinutes snap = me_ForecastHorizonMinutes p \<and> ob_ID r = me_ObservationID p \<and>
    ob_LocationID r = sm_LocationID snap \<and> ob_ObservedAt r = Truncate (sm_TargetTime snap) Hour"
  using assms
proof (induction chunk arbitrary: k)
  case (Cons snap chunk)
  show ?case
  proof (cases "\<exists>k'. p \<in> set (chunk_matches ustr ids now obs k' chunk)")
    case True
    with Cons.IH show ?thesis by (meson list.set_intros(2))
  next
    case False
    with Cons.prems obtain c where
      "SelectCandidate ustr (Truncate (sm_TargetTime snap) Hour)
         (map Some (FindCandidates obs (sm_LocationID snap) (Truncate (sm_TargetTime snap) Hour))) = Some c"
      "p = newPair (ids k) now snap (oc_ID c) (oc_ObservedAt c)"
      by (auto simp: Let_def split: option.splits)
    with candidate_row show ?thesis by fastforce
  qed
qed simp

lemma chunk_matches_complete:
  assumes "snap \<in> set chunk" "FindCandidates obs (sm_LocationID snap) (Truncate (sm_TargetTime snap) Hour) \<noteq> []"
  shows "\<exists>p \<in> set (chunk_matches ustr ids now obs k chunk). me_ForecastSnapshotID p = sm_ID snap"
  using assms
proof (induction chunk arbitrary: k)
  case (Cons s chunk)
  obtain c where "SelectCandidate ustr (Truncate (sm_TargetTime snap) Hour)
      (map Some (FindCandidates obs (sm_LocationID snap) (Truncate (sm_TargetTime snap) Hour))) = Some c"
    using Cons.prems(2) SelectCandidate_None by (metis candidates_of_simps(4) option.exhaust)
  with Cons show ?case by (auto simp: Let_def split: option.splits)
qed simp

lemma chunk_matches_none:
  assumes "\<forall>snap \<in> set chunk. FindCandidates obs (sm_LocationID snap) (Truncate (sm_TargetTime snap) Hour) = []"
  shows "chunk_matches ustr ids now obs k chunk = []"
  using assms by (induction chunk arbitrary: k) (auto simp: Let_def SelectCandidate_None split: option.splits)

lemma chunk_snapshot_ids: "set (map me_ForecastSnapshotID (chunk_matches ustr ids now obs k chunk)) \<subseteq> sm_ID ` set chunk"
proof
  fix i
  assume "i \<in> set (map me_ForecastSnapshotID (chunk_matches ustr ids now obs k chunk))"
  then obtain p where "p \<in> set (chunk_matches ustr ids now obs k chunk)" "i = me_ForecastSnapshotID p" by auto
  with chunk_matches_mem [OF this(1)] show "i \<in> sm_ID ` set chunk" by force
qed

lemma distinct_chunk_matches:
  assumes "distinct (map sm_ID chunk)"
  shows "distinct (map me_ForecastSnapshotID (chunk_matches ustr ids now obs k chunk))"
  using assms
proof (induction chunk arbitrary: k)
  case (Cons s chunk)
  with chunk_snapshot_ids [of ustr ids now obs _ chunk] show ?case
    by (auto simp: Let_def split: option.splits)
qed simp

lemma ListUnmatched_distinct:
  assumes "distinct (map fs_ID snaps)"
  shows "distinct (map sm_ID (ListUnmatchedSnapshots snaps from to after limit pairs))"
proof -
  have "distinct (map fs_ID (sort_key fs_ID (filter P snaps)))" for P
    using assms by (metis distinct_map_filter distinct_map distinct_sort set_sort)
  then have "distinct (take limit (map fs_ID (sort_key fs_ID (filter P snaps))))" for P by (rule distinct_take)
  then show ?thesis by (simp add: ListUnmatchedSnapshots_def keyset_def to_match_def comp_def take_map)
qed

lemma ListUnmatched_mem:
  "snap \<in> set (ListUnmatchedSnapshots snaps from to after limit pairs) \<Longrightarrow>
    \<exists>s \<in> set snaps. snap = to_match s \<and> unmatched pairs s \<and> from \<le> fs_TargetTime s \<and> fs_TargetTime s < to \<and> after < fs_ID s"
  by (auto simp: ListUnmatchedSnapshots_def keyset_def dest!: in_set_takeD)

lemma chunk_inv:
  assumes inv: "match_inv snaps obs (mt_pairs tbl)" and ids: "distinct (map fs_ID snaps)" and ok: "obs_rows_ok obs"
    and st: "store_matches (chunk_matches ustr ids now obs k (ListUnmatchedSnapshots snaps from to after limit (mt_pairs tbl))) tbl = (r, tbl')"
  shows "match_inv snaps obs (mt_pairs tbl') \<and> (\<exists>new. mt_pairs tbl' = mt_pairs tbl @ new)"
proof -
  let ?chunk = "ListUnmatchedSnapshots snaps from to after limit (mt_pairs tbl)"
  let ?ps = "chunk_matches ustr ids now obs k ?chunk"
  from store_matches_ok [OF st] obtain new where new: "mt_pairs tbl' = mt_pairs tbl @ new" "set new \<subseteq> set ?ps"
    "distinct (map pair_src (mt_pairs tbl)) \<longrightarrow> distinct (map pair_src (mt_pairs tbl'))" by blast
  have fresh: "\<exists>s \<in> set snaps. \<exists>r \<in> set obs. pair_of s r p \<and> unmatched (mt_pairs tbl) s" if p: "p \<in> set new" for p
  proof -
    from chunk_matches_mem [of p ustr ids now obs k ?chunk] p new(2)
    obtain snap r where "snap \<in> set ?chunk" "r \<in> set obs" "sm_ID snap = me_ForecastSnapshotID p"
      "sm_ProviderID snap = me_ProviderID p" "sm_LocationID snap = me_LocationID p" "sm_TargetTime snap = me_TargetTime p"
      "sm_ForecastHorizonMinutes snap = me_ForecastHorizonMinutes p" "ob_ID r = me_ObservationID p"
      "ob_LocationID r = sm_LocationID snap" "ob_ObservedAt r = Truncate (sm_TargetTime snap) Hour" by blast
    moreover from ListUnmatched_mem [OF this(1)] obtain s where "s \<in> set snaps" "snap = to_match s" "unmatched (mt_pairs tbl) s" by blast
    ultimately show ?thesis by (intro bexI [of _ s] bexI [of _ r]) (auto simp: pair_of_def to_match_def)
  qed
  have "match_inv snaps obs (mt_pairs tbl @ new)"
  proof (rule match_inv_append [OF inv])
    show "distinct (map pair_src (mt_pairs tbl @ new))" using new inv by (simp add: match_inv_def)
    show "\<forall>p \<in> set new. \<exists>s \<in> set snaps. \<exists>r \<in> set obs. pair_of s r p" using fresh by blast
    show "\<forall>p \<in> set new. \<forall>q \<in> set (mt_pairs tbl) \<union> set new. \<forall>r \<in> set obs. \<forall>r' \<in> set obs.
      me_ForecastSnapshotID p = me_ForecastSnapshotID q \<and> ob_ID r = me_ObservationID p \<and> ob_ID r' = me_ObservationID q \<longrightarrow>
      obs_key r = obs_key r'"
    proof (intro ballI impI, elim conjE)
      fix p q r r'
      assume p: "p \<in> set new" and q: "q \<in> set (mt_pairs tbl) \<union> set new" and r: "r \<in> set obs" "r' \<in> set obs"
        and e: "me_ForecastSnapshotID p = me_ForecastSnapshotID q" "ob_ID r = me_ObservationID p" "ob_ID r' = me_ObservationID q"
      have "q \<notin> set (mt_pairs tbl)" using fresh [OF p] e(1) by (auto simp: unmatched_def pair_of_def)
      with q have "q \<in> set new" by simp
      moreover have "distinct (map me_ForecastSnapshotID ?ps)"
        by (rule distinct_chunk_matches [OF ListUnmatched_distinct [OF ids]])
      ultimately have "p = q" using p new(2) e(1) by (intro unique_row [of me_ForecastSnapshotID ?ps]) auto
      with e have "ob_ID r = ob_ID r'" by simp
      then have "r = r'" using r ok by (intro unique_row [of ob_ID obs]) (auto simp: obs_rows_ok_def)
      then show "obs_key r = obs_key r'" by simp
    qed
  qed
  with new(1) show ?thesis by auto
qed

lemma match_loop_inv:
  assumes "match_inv snaps obs (mt_pairs tbl)" "distinct (map fs_ID snaps)" "obs_rows_ok obs"
    and "match_loop ustr ids now chunkSize snaps obs from to after created tbl = (out, tbl')"
  shows "match_inv snaps obs (mt_pairs tbl') \<and> (\<exists>new. mt_pairs tbl' = mt_pairs tbl @ new)"
  using assms
proof (induction ustr ids now chunkSize snaps obs "from" to after created tbl arbitrary: out tbl' rule: match_loop.induct)
  case (1 ustr ids now chunkSize snaps obs "from" to after created tbl)
  let ?chunk = "ListUnmatchedSnapshots snaps from to after chunkSize (mt_pairs tbl)"
  obtain r tbl1 where st: "store_matches (chunk_matches ustr ids now obs (mt_drawn tbl) ?chunk) tbl = (r, tbl1)" by fastforce
  note step = chunk_inv [OF 1(2,3,4) st]
  show ?case
  proof (cases "?chunk = [] \<or> (\<exists>e. r = Inl e) \<or> length ?chunk < chunkSize")
    case True
    with 1(5) st step 1(2) show ?thesis by (subst (asm) match_loop.simps) (auto simp: Let_def split: if_splits sum.splits)
  next
    case False
    then obtain n where r: "r = Inr n" by (cases r) auto
    with False 1(5) st have rec: "match_loop ustr ids now chunkSize snaps obs from to (sm_ID (last ?chunk)) (created + n) tbl1 = (out, tbl')"
      by (subst (asm) match_loop.simps) (simp add: Let_def)
    have "match_inv snaps obs (mt_pairs tbl') \<and> (\<exists>new. mt_pairs tbl' = mt_pairs tbl1 @ new)"
      by (rule 1(1) [OF refl _ st [symmetric] r _ _ 1(3,4) rec]) (use False step in auto)
    with step show ?thesis by auto
  qed
qed

section \<open>The batch\<close>

lemma rematch_pairs_mem:
  "p \<in> set (rematch_pairs ids now k ts) \<Longrightarrow>
    \<exists>t \<in> set ts. \<exists>i. p = newPair i now (rt_Snapshot t) (rt_NewObservationID t) (rt_NewObservedAt t)"
  by (induction ts arbitrary: k) auto

lemma rematch_pairs_src:
  "t \<in> set ts \<Longrightarrow> \<exists>p \<in> set (rematch_pairs ids now k ts). pair_src p = (sm_ID (rt_Snapshot t), rt_NewObservationID t)"
  by (induction ts arbitrary: k) auto

text \<open>A rematch target comes from a pair on a corrected observation.\<close>

definition rematch_of :: "Observation list \<Rightarrow> MatchedEvaluation list \<Rightarrow> RematchTarget \<Rightarrow> MatchedEvaluation \<Rightarrow> Observation \<Rightarrow>
    Observation \<Rightarrow> bool" where
  "rematch_of obs pairs t p r n \<longleftrightarrow> p \<in> set pairs \<and> r \<in> set obs \<and> n \<in> set obs \<and> ob_ID r = me_ObservationID p \<and>
     ob_SupersededObservationID r = Some (ob_ID n) \<and>
     \<not> (\<exists>q \<in> set pairs. me_ForecastSnapshotID q = me_ForecastSnapshotID p \<and> me_ObservationID q = ob_ID n) \<and>
     rt_Snapshot t = \<lparr>sm_ID = me_ForecastSnapshotID p, sm_ProviderID = me_ProviderID p, sm_LocationID = me_LocationID p,
       sm_TargetTime = me_TargetTime p, sm_ForecastHorizonMinutes = me_ForecastHorizonMinutes p\<rparr> \<and>
     rt_NewObservationID t = ob_ID n \<and> rt_NewObservedAt t = ob_ObservedAt n"

definition rematch_all :: "Observation list \<Rightarrow> MatchedEvaluation list \<Rightarrow> RematchTarget list" where
  "rematch_all obs pairs =
     [\<lparr>rt_Snapshot = \<lparr>sm_ID = me_ForecastSnapshotID p, sm_ProviderID = me_ProviderID p, sm_LocationID = me_LocationID p,
            sm_TargetTime = me_TargetTime p, sm_ForecastHorizonMinutes = me_ForecastHorizonMinutes p\<rparr>,
         rt_NewObservationID = ob_ID n, rt_NewObservedAt = ob_ObservedAt n\<rparr>.
        p \<leftarrow> pairs, r \<leftarrow> obs, ob_ID r = me_ObservationID p, n \<leftarrow> obs, ob_SupersededObservationID r = Some (ob_ID n),
        \<not> (\<exists>q \<in> set pairs. me_ForecastSnapshotID q = me_ForecastSnapshotID p \<and> me_ObservationID q = ob_ID n)]"

lemma ListRematchTargets_all:
  "ListRematchTargets limit obs pairs = take limit (sort_key (\<lambda>t. sm_ID (rt_Snapshot t)) (rematch_all obs pairs))"
  by (simp add: ListRematchTargets_def rematch_all_def)

lemma rematch_all_mem: "t \<in> set (rematch_all obs pairs) \<longleftrightarrow> (\<exists>p r n. rematch_of obs pairs t p r n)"
  by (cases t) (auto simp: rematch_all_def rematch_of_def)

lemma ListRematchTargets_mem:
  "t \<in> set (ListRematchTargets limit obs pairs) \<Longrightarrow> \<exists>p r n. rematch_of obs pairs t p r n"
  by (auto simp: ListRematchTargets_all simp flip: rematch_all_mem dest: in_set_takeD)

lemma rematch_key:
  assumes "obs_rows_ok obs" "rematch_of obs pairs t p r n"
  shows "obs_key n = obs_key r"
proof -
  from assms obtain q where "q \<in> set obs" "ob_ID q = ob_ID n" "obs_key q = obs_key r"
    unfolding obs_rows_ok_def rematch_of_def by blast
  moreover have "q = n" using assms calculation by (intro unique_row [of ob_ID obs]) (auto simp: obs_rows_ok_def rematch_of_def)
  ultimately show ?thesis by simp
qed

lemma rematch_cases:
  assumes "rematch ids now limit obs tbl = (r, tbl')"
  shows "\<exists>new. mt_pairs tbl' = mt_pairs tbl @ new \<and>
    (distinct (map pair_src (mt_pairs tbl)) \<longrightarrow> distinct (map pair_src (mt_pairs tbl'))) \<and>
    (\<forall>p \<in> set new. \<exists>t \<in> set (ListRematchTargets limit obs (mt_pairs tbl)). \<exists>i.
       p = newPair i now (rt_Snapshot t) (rt_NewObservationID t) (rt_NewObservedAt t)) \<and>
    (case r of Inl _ \<Rightarrow> new = []
     | Inr n \<Rightarrow> length new = n \<and> (\<forall>t \<in> set (ListRematchTargets limit obs (mt_pairs tbl)).
         \<exists>q \<in> set (mt_pairs tbl'). pair_src q = (sm_ID (rt_Snapshot t), rt_NewObservationID t)))"
proof (cases "ListRematchTargets limit obs (mt_pairs tbl) = []")
  case True
  with assms show ?thesis by (auto simp: rematch_def)
next
  case False
  let ?ts = "ListRematchTargets limit obs (mt_pairs tbl)"
  let ?ps = "rematch_pairs ids now (mt_drawn tbl) ?ts"
  from False assms have st: "store_matches ?ps tbl = (r, tbl')" by (simp add: rematch_def Let_def)
  from store_matches_ok [OF st] obtain new where new: "mt_pairs tbl' = mt_pairs tbl @ new" "set new \<subseteq> set ?ps"
    "distinct (map pair_src (mt_pairs tbl)) \<longrightarrow> distinct (map pair_src (mt_pairs tbl'))"
    "case r of Inl _ \<Rightarrow> new = []
     | Inr n \<Rightarrow> length new = n \<and> (\<forall>p \<in> set ?ps. \<exists>q \<in> set (mt_pairs tbl'). pair_src q = pair_src p)" by blast
  have hit: "\<exists>q \<in> set (mt_pairs tbl'). pair_src q = (sm_ID (rt_Snapshot t), rt_NewObservationID t)"
    if "r = Inr n" "t \<in> set ?ts" for n t
  proof -
    from rematch_pairs_src [OF that(2)] obtain p where p: "p \<in> set ?ps"
      "pair_src p = (sm_ID (rt_Snapshot t), rt_NewObservationID t)" by blast
    from new(4) that(1) p(1) obtain q where "q \<in> set (mt_pairs tbl')" "pair_src q = pair_src p" by auto
    with p(2) show ?thesis by (intro bexI [of _ q]) (rule trans)
  qed
  have mem: "\<forall>p \<in> set new. \<exists>t \<in> set ?ts. \<exists>i. p = newPair i now (rt_Snapshot t) (rt_NewObservationID t) (rt_NewObservedAt t)"
    using new(2) rematch_pairs_mem by blast
  show ?thesis
  proof (cases r)
    case (Inl e)
    with new mem show ?thesis by (intro exI [of _ new]) simp
  next
    case (Inr n)
    with hit have "\<forall>t \<in> set ?ts. \<exists>q \<in> set (mt_pairs tbl'). pair_src q = (sm_ID (rt_Snapshot t), rt_NewObservationID t)" by blast
    with new mem Inr show ?thesis by (intro exI [of _ new]) simp
  qed
qed

lemma rematch_inv:
  assumes inv: "match_inv snaps obs (mt_pairs tbl)" and ok: "obs_rows_ok obs"
    and run: "rematch ids now limit obs tbl = (out, tbl')"
  shows "match_inv snaps obs (mt_pairs tbl') \<and> (\<exists>new. mt_pairs tbl' = mt_pairs tbl @ new)"
proof -
  from rematch_cases [OF run] obtain new where new: "mt_pairs tbl' = mt_pairs tbl @ new"
    "distinct (map pair_src (mt_pairs tbl)) \<longrightarrow> distinct (map pair_src (mt_pairs tbl'))"
    and mem: "\<forall>p \<in> set new. \<exists>t \<in> set (ListRematchTargets limit obs (mt_pairs tbl)). \<exists>i.
       p = newPair i now (rt_Snapshot t) (rt_NewObservationID t) (rt_NewObservedAt t)" by blast
  have src: "\<exists>q \<in> set (mt_pairs tbl). \<exists>r \<in> set obs. \<exists>n \<in> set obs. ob_ID r = me_ObservationID q \<and> obs_key n = obs_key r \<and>
      me_ForecastSnapshotID p = me_ForecastSnapshotID q \<and> me_ObservationID p = ob_ID n \<and>
      (\<forall>s. pair_of s r q \<longrightarrow> pair_of s n p)" if p: "p \<in> set new" for p
  proof -
    from mem p obtain t i where t: "t \<in> set (ListRematchTargets limit obs (mt_pairs tbl))"
      and pt: "p = newPair i now (rt_Snapshot t) (rt_NewObservationID t) (rt_NewObservedAt t)" by blast
    from ListRematchTargets_mem [OF t] obtain q r n where R: "rematch_of obs (mt_pairs tbl) t q r n" by blast
    have k: "obs_key n = obs_key r" by (rule rematch_key [OF ok R])
    with R pt show ?thesis
      by (intro bexI [of _ q] bexI [of _ r] bexI [of _ n]) (auto simp: rematch_of_def pair_of_def obs_key_def)
  qed
  have "match_inv snaps obs (mt_pairs tbl @ new)"
  proof (rule match_inv_append [OF inv])
    show "distinct (map pair_src (mt_pairs tbl @ new))" using new inv by (simp add: match_inv_def)
    show "\<forall>p \<in> set new. \<exists>s \<in> set snaps. \<exists>r \<in> set obs. pair_of s r p"
    proof
      fix p
      assume "p \<in> set new"
      from src [OF this] obtain q r n where q: "q \<in> set (mt_pairs tbl)" "r \<in> set obs" "n \<in> set obs" "ob_ID r = me_ObservationID q"
        "\<forall>s. pair_of s r q \<longrightarrow> pair_of s n p" by blast
      from q(1) inv obtain s r' where s: "s \<in> set snaps" "r' \<in> set obs" "pair_of s r' q" unfolding match_inv_def by blast
      then have "r' = r" using q ok by (intro unique_row [of ob_ID obs]) (auto simp: obs_rows_ok_def pair_of_def)
      with q s show "\<exists>s \<in> set snaps. \<exists>r \<in> set obs. pair_of s r p" by blast
    qed
    show "\<forall>p \<in> set new. \<forall>q \<in> set (mt_pairs tbl) \<union> set new. \<forall>r \<in> set obs. \<forall>r' \<in> set obs.
      me_ForecastSnapshotID p = me_ForecastSnapshotID q \<and> ob_ID r = me_ObservationID p \<and> ob_ID r' = me_ObservationID q \<longrightarrow>
      obs_key r = obs_key r'"
    proof (intro ballI impI, elim conjE)
      fix p q r r'
      assume p: "p \<in> set new" and q: "q \<in> set (mt_pairs tbl) \<union> set new" and r: "r \<in> set obs" "r' \<in> set obs"
        and e: "me_ForecastSnapshotID p = me_ForecastSnapshotID q" "ob_ID r = me_ObservationID p" "ob_ID r' = me_ObservationID q"
      have old: "\<exists>q0 \<in> set (mt_pairs tbl). \<exists>r0 \<in> set obs. ob_ID r0 = me_ObservationID q0 \<and>
          me_ForecastSnapshotID q0 = me_ForecastSnapshotID x \<and> obs_key r0 = obs_key y"
        if x: "x \<in> set (mt_pairs tbl) \<union> set new" and y: "y \<in> set obs" "ob_ID y = me_ObservationID x" for x y
      proof (cases "x \<in> set new")
        case True
        from src [OF this] obtain q0 r0 n where q0: "q0 \<in> set (mt_pairs tbl)" "r0 \<in> set obs" "n \<in> set obs"
          "ob_ID r0 = me_ObservationID q0" "obs_key n = obs_key r0" "me_ForecastSnapshotID x = me_ForecastSnapshotID q0"
          "me_ObservationID x = ob_ID n" by blast
        have "n = y" using q0 y ok by (intro unique_row [of ob_ID obs]) (auto simp: obs_rows_ok_def)
        with q0 show ?thesis by (intro bexI [of _ q0] bexI [of _ r0]) auto
      qed (use x y in auto)
      from old [of p r] old [of q r'] p q r e obtain q1 r1 q2 r2 where
        "q1 \<in> set (mt_pairs tbl)" "r1 \<in> set obs" "ob_ID r1 = me_ObservationID q1" "me_ForecastSnapshotID q1 = me_ForecastSnapshotID p"
        "obs_key r1 = obs_key r" "q2 \<in> set (mt_pairs tbl)" "r2 \<in> set obs" "ob_ID r2 = me_ObservationID q2"
        "me_ForecastSnapshotID q2 = me_ForecastSnapshotID q" "obs_key r2 = obs_key r'" by (metis UnI2)
      with inv e(1) show "obs_key r = obs_key r'" unfolding match_inv_def by metis
    qed
  qed
  with new(1) show ?thesis by auto
qed

lemma MatchBatch_inv:
  assumes "match_inv snaps obs (mt_pairs tbl)" "distinct (map fs_ID snaps)" "obs_rows_ok obs"
    and "MatchBatch ustr ids chunkSize now snaps obs tbl = (out, tbl')"
  shows "match_inv snaps obs (mt_pairs tbl') \<and> (\<exists>new. mt_pairs tbl' = mt_pairs tbl @ new)"
proof -
  obtain c e tbl1 where l: "match_loop ustr ids now chunkSize snaps obs (now - matchWindowBack) (now - publicationMargin)
      nil_uuid 0 tbl = ((c, e), tbl1)" by (metis surj_pair)
  note A = match_loop_inv [OF assms(1-3) l]
  show ?thesis
  proof (cases e)
    case (Some x)
    with assms(4) l A show ?thesis by (simp add: MatchBatch_def Let_def)
  next
    case None
    obtain r tbl2 where m: "rematch ids now rematchBatchLimit obs tbl1 = (r, tbl2)" by fastforce
    have "tbl' = tbl2" using assms(4) l None m by (auto simp: MatchBatch_def Let_def split: sum.splits)
    with rematch_inv [OF conjunct1 [OF A] assms(3) m] A show ?thesis by auto
  qed
qed
section \<open>Collection and matching together\<close>

lemma Observe_rows:
  assumes inv: "obs_inv db" and own: "rows_of_request source (lo_ID location) (fetched fetch)"
    and run: "Observe fl created source location start fin fetch db = ((r, evs), db')"
  shows "obs_inv db' \<and> (\<exists>cs new. od_rows db' = map (superseded_row cs) (od_rows db) @ new \<and>
    set new \<subseteq> (\<lambda>(bh, x). stored_row created (plan_row fl bh x)) ` (UNIV \<times> set (fetched fetch)) \<and>
    (\<forall>x \<in> set new. \<forall>y \<in> set new. ob_ID x = ob_ID y \<and> distinct (map ob_ID (fetched fetch)) \<longrightarrow> x = y))"
  using Observe_cases [OF run]
proof (elim disjE exE conjE)
  fix e
  assume "db' = db"
  moreover have "map (superseded_row []) (od_rows db) = od_rows db" by (simp add: superseded_row_def map_idI)
  ultimately show ?thesis using inv by (intro conjI exI [of _ "[]"]) simp_all
next
  fix n ins cs
  assume tx: "observe_tx fl created source (lo_ID location) start fin (fetched fetch) db = (Inr (n, ins, cs), db')"
  let ?bh = "by_hour (ListCurrentByWindow source (lo_ID location) start fin db)"
  from tx obtain new where ob: "observed fl created ?bh (fetched fetch) db new db'" by (rule observe_tx_ok)
  let ?cs = "map (plan_correction ?bh) (filter (corrects fl ?bh) (fetched fetch))"
  have rows: "od_rows db' = map (superseded_row ?cs) (od_rows db) @ new"
    and sub: "set new \<subseteq> stored_row created ` plan_row fl ?bh ` set (fetched fetch)"
    using ob unfolding observed_def Let_def by blast+
  have "x = y" if xy: "x \<in> set new" "y \<in> set new" "ob_ID x = ob_ID y" and d: "distinct (map ob_ID (fetched fetch))" for x y
  proof -
    from xy sub obtain a b where ab: "a \<in> set (fetched fetch)" "b \<in> set (fetched fetch)"
      "x = stored_row created (plan_row fl ?bh a)" "y = stored_row created (plan_row fl ?bh b)" by blast
    with xy have "a = b" by (intro unique_row [OF d]) simp_all
    with ab show ?thesis by simp
  qed
  then show ?thesis
    using observed_inv [OF inv refl own ob] rows sub by (intro conjI exI [of _ ?cs] exI [of _ new]) force+
qed

lemma obs_inv_rows_ok: "obs_inv db \<Longrightarrow> distinct (map ob_ID (od_rows db)) \<Longrightarrow> obs_rows_ok (od_rows db)"
  by (simp add: obs_inv_def obs_rows_ok_def)

lemma superseded_row_location [simp]: "ob_LocationID (superseded_row cs r) = ob_LocationID r"
  by (auto simp: superseded_row_def split: option.splits)

text \<open>Superseding rows and adding rows with new identifiers keeps the pairs correct.\<close>

lemma match_inv_observed:
  assumes inv: "match_inv snaps obs pairs" and dist: "distinct (map ob_ID (map (superseded_row cs) obs @ new))"
  shows "match_inv snaps (map (superseded_row cs) obs @ new) pairs"
proof -
  let ?obs = "map (superseded_row cs) obs @ new"
  have orig: "\<exists>r0 \<in> set obs. r = superseded_row cs r0" if r: "r \<in> set ?obs" "ob_ID r = me_ObservationID p" "p \<in> set pairs" for r p
  proof -
    from inv r(3) obtain r0 s where r0: "r0 \<in> set obs" "pair_of s r0 p" unfolding match_inv_def by blast
    with r have "superseded_row cs r0 = r" by (intro unique_row [OF dist]) (auto simp: pair_of_def)
    with r0 show ?thesis by auto
  qed
  show ?thesis
    unfolding match_inv_def
  proof (intro conjI ballI impI, goal_cases)
    case 1
    with inv show ?case by (simp add: match_inv_def)
  next
    case (2 p)
    with inv obtain s r where "s \<in> set snaps" "r \<in> set obs" "pair_of s r p" unfolding match_inv_def by blast
    then show ?case by (intro bexI [of _ s] bexI [of _ "superseded_row cs r"])
        (auto simp: pair_of_def)
  next
    case (3 p q r r')
    with orig [of r p] orig [of r' q] obtain r0 r0' where "r0 \<in> set obs" "r = superseded_row cs r0"
      "r0' \<in> set obs" "r' = superseded_row cs r0'" by blast
    moreover from inv have "\<forall>r \<in> set obs. \<forall>r' \<in> set obs. me_ForecastSnapshotID p = me_ForecastSnapshotID q \<and>
        ob_ID r = me_ObservationID p \<and> ob_ID r' = me_ObservationID q \<longrightarrow> obs_key r = obs_key r'"
      unfolding match_inv_def using 3(1,2) by blast
    ultimately show ?case using 3(5) by simp
  qed
qed

lemma match_inv_snapshots: "match_inv snaps obs pairs \<Longrightarrow> match_inv (snaps @ extra) obs pairs"
  unfolding match_inv_def set_append by (elim conjE, intro conjI) blast+

record match_sys =
  ms_obs :: obs_db
  ms_snaps :: "ForecastSnapshot list"
  ms_tbl :: match_tbl

text \<open>
  The steps that touch observations, snapshots and pairs: an observation collection (whatever
  it fetched, with new identifiers), the arrival of forecast snapshots, a matching batch.
\<close>

inductive match_step :: "(uuid \<Rightarrow> string) \<Rightarrow> (nat \<Rightarrow> uuid) \<Rightarrow> match_sys \<Rightarrow> match_sys \<Rightarrow> bool" for ustr ids where
  collect_observations:
    "rows_of_request source (lo_ID location) (fetched fetch) \<Longrightarrow> distinct (map ob_ID (fetched fetch)) \<Longrightarrow>
     ob_ID ` set (fetched fetch) \<inter> ob_ID ` set (od_rows (ms_obs s)) = {} \<Longrightarrow>
     Observe fl created source location start fin fetch (ms_obs s) = (out, db') \<Longrightarrow>
     match_step ustr ids s (s\<lparr>ms_obs := db'\<rparr>)"
| collect_forecasts:
    "distinct (map fs_ID (ms_snaps s @ new)) \<Longrightarrow> match_step ustr ids s (s\<lparr>ms_snaps := ms_snaps s @ new\<rparr>)"
| run_batch:
    "MatchBatch ustr ids chunkSize now (ms_snaps s) (od_rows (ms_obs s)) (ms_tbl s) = (out, tbl') \<Longrightarrow>
     match_step ustr ids s (s\<lparr>ms_tbl := tbl'\<rparr>)"

inductive_cases match_stepE: "match_step ustr ids s t"

definition match_init :: match_sys where
  "match_init = \<lparr>ms_obs = \<lparr>od_rows = [], od_partitions = []\<rparr>, ms_snaps = [], ms_tbl = \<lparr>mt_pairs = [], mt_drawn = 0\<rparr>\<rparr>"

definition match_sys_inv :: "match_sys \<Rightarrow> bool" where
  "match_sys_inv s \<longleftrightarrow> obs_inv (ms_obs s) \<and> distinct (map ob_ID (od_rows (ms_obs s))) \<and> distinct (map fs_ID (ms_snaps s)) \<and>
     match_inv (ms_snaps s) (od_rows (ms_obs s)) (mt_pairs (ms_tbl s))"

lemma observe_match_inv:
  assumes inv: "obs_inv db" "distinct (map ob_ID (od_rows db))" "match_inv snaps (od_rows db) pairs"
    and own: "rows_of_request source (lo_ID location) (fetched fetch)" and d: "distinct (map ob_ID (fetched fetch))"
    and fresh: "ob_ID ` set (fetched fetch) \<inter> ob_ID ` set (od_rows db) = {}"
    and run: "Observe fl created source location start fin fetch db = (out, db')"
  shows "obs_inv db' \<and> distinct (map ob_ID (od_rows db')) \<and> match_inv snaps (od_rows db') pairs"
proof -
  obtain r evs where "out = (r, evs)" by (cases out)
  from Observe_rows [OF inv(1) own run [unfolded this]] obtain cs new where
    w: "obs_inv db'" "od_rows db' = map (superseded_row cs) (od_rows db) @ new"
    "set new \<subseteq> (\<lambda>(bh, x). stored_row created (plan_row fl bh x)) ` (UNIV \<times> set (fetched fetch))"
    "\<forall>x \<in> set new. \<forall>y \<in> set new. ob_ID x = ob_ID y \<and> distinct (map ob_ID (fetched fetch)) \<longrightarrow> x = y" by blast
  have sub: "ob_ID ` set new \<subseteq> ob_ID ` set (fetched fetch)" using w(3) by auto
  have "distinct (map obs_pk (map (superseded_row cs) (od_rows db) @ new))"
    using w(1) unfolding w(2) [symmetric] by (simp only: obs_inv_def)
  then have "distinct new" unfolding map_append distinct_append by (metis distinct_map)
  moreover have "inj_on ob_ID (set new)" using w(4) d by (intro inj_onI) blast
  ultimately have "distinct (map ob_ID new)" by (simp add: distinct_map)
  moreover have "ob_ID ` set new \<inter> ob_ID ` set (od_rows db) = {}" using fresh sub by blast
  moreover have "map ob_ID (map (superseded_row cs) (od_rows db)) = map ob_ID (od_rows db)" by simp
  ultimately have dist: "distinct (map ob_ID (map (superseded_row cs) (od_rows db) @ new))"
    using inv(2) unfolding map_append distinct_append by (simp only: set_map) blast
  from match_inv_observed [OF inv(3) dist] dist w(1) show ?thesis unfolding w(2) by blast
qed

lemma match_step_inv: "match_step ustr ids s t \<Longrightarrow> match_sys_inv s \<Longrightarrow> match_sys_inv t"
proof (induction rule: match_step.induct)
  case (collect_observations source location fetch s fl created start fin out db')
  from collect_observations.prems have "obs_inv (ms_obs s)" "distinct (map ob_ID (od_rows (ms_obs s)))"
    "match_inv (ms_snaps s) (od_rows (ms_obs s)) (mt_pairs (ms_tbl s))" unfolding match_sys_inv_def by blast+
  from observe_match_inv [OF this collect_observations.hyps] collect_observations.prems
  show ?case by (simp add: match_sys_inv_def)
next
  case (collect_forecasts s new)
  then show ?case by (simp add: match_sys_inv_def match_inv_snapshots)
next
  case (run_batch chunkSize now s out tbl')
  then have "obs_rows_ok (od_rows (ms_obs s))" by (simp add: match_sys_inv_def obs_inv_rows_ok)
  with MatchBatch_inv [OF _ _ _ run_batch.hyps] run_batch.prems show ?case by (simp add: match_sys_inv_def)
qed

lemma match_reachable_inv: "(match_step ustr ids)\<^sup>*\<^sup>* match_init s \<Longrightarrow> match_sys_inv s"
proof (induction rule: rtranclp_induct)
  case base
  show ?case by (simp add: match_sys_inv_def match_init_def obs_inv_def match_inv_def)
qed (rule match_step_inv)

text \<open>C2. In every interleaving of observation collections, forecast arrivals and matching
  batches, starting from empty tables, a forecast snapshot is evaluated at most once: of the
  pairs of a snapshot at most one rests on a live observation. Every pair joins a stored
  snapshot with a stored observation of the same location and the snapshot's target hour, and
  carries the snapshot's provider, horizon and target time.
\<close>

theorem snapshot_evaluated_at_most_once:
  assumes "(match_step ustr ids)\<^sup>*\<^sup>* match_init s"
    and "p \<in> set (mt_pairs (ms_tbl s))" "q \<in> set (mt_pairs (ms_tbl s))"
    and "me_ForecastSnapshotID p = me_ForecastSnapshotID q"
    and "live_pair (od_rows (ms_obs s)) p" "live_pair (od_rows (ms_obs s)) q"
  shows "p = q \<and> (\<exists>snap \<in> set (ms_snaps s). \<exists>r \<in> set (od_rows (ms_obs s)). pair_of snap r p)"
proof -
  have inv: "match_sys_inv s" by (rule match_reachable_inv [OF assms(1)])
  then have "obs_rows_ok (od_rows (ms_obs s))" by (simp add: match_sys_inv_def obs_inv_rows_ok)
  moreover have "match_inv (ms_snaps s) (od_rows (ms_obs s)) (mt_pairs (ms_tbl s))" using inv by (simp add: match_sys_inv_def)
  ultimately have "p = q" using live_pair_unique assms(2-6) by blast
  with inv assms(2) show ?thesis unfolding match_sys_inv_def match_inv_def by blast
qed

section \<open>Completeness and repetition\<close>

lemma keyset_covers:
  fixes key :: "'r \<Rightarrow> uuid"
  assumes "distinct (map key tbl)" "r \<in> set tbl" "cursor < key r" "p r"
    and "length (keyset key p cursor n tbl) < n \<or> keyset key p cursor n tbl \<noteq> [] \<and> key r \<le> key (last (keyset key p cursor n tbl))"
  shows "r \<in> set (keyset key p cursor n tbl)"
proof (rule ccontr)
  let ?S = "sort_key key (filter (\<lambda>r. cursor < key r \<and> p r) tbl)"
  have k: "keyset key p cursor n tbl = take n ?S" by (simp add: keyset_def)
  assume "r \<notin> set (keyset key p cursor n tbl)"
  moreover have "r \<in> set ?S" using assms(2-4) by simp
  ultimately have r: "r \<in> set (drop n ?S)" unfolding k by (metis Un_iff append_take_drop_id set_append)
  then have "n < length ?S" by (metis drop_eq_Nil leI length_pos_if_in_set list.size(3) not_less0)
  then have full: "length (take n ?S) = n" by simp
  have "sorted_wrt (\<lambda>a b. key a < key b) (take n ?S @ drop n ?S)"
    unfolding append_take_drop_id using assms(1) by (intro sort_key_strict) (simp add: distinct_map_filter)
  then have lt: "key x < key r" if "x \<in> set (take n ?S)" for x
    using that r unfolding sorted_wrt_append by blast
  from assms(5) full have ne: "take n ?S \<noteq> []" and le: "key r \<le> key (last (take n ?S))" unfolding k by auto
  from lt [OF last_in_set [OF ne]] le show False by (rule leD [THEN notE, rotated])
qed

lemma ListUnmatched_covers:
  assumes "distinct (map fs_ID snaps)" "s \<in> set snaps" "after < fs_ID s" "from \<le> fs_TargetTime s" "fs_TargetTime s < to"
    and "unmatched pairs s"
    and "length (ListUnmatchedSnapshots snaps from to after n pairs) < n \<or>
      ListUnmatchedSnapshots snaps from to after n pairs \<noteq> [] \<and>
      fs_ID s \<le> sm_ID (last (ListUnmatchedSnapshots snaps from to after n pairs))"
  shows "to_match s \<in> set (ListUnmatchedSnapshots snaps from to after n pairs)"
proof -
  let ?p = "\<lambda>s. from \<le> fs_TargetTime s \<and> fs_TargetTime s < to \<and> unmatched pairs s"
  have "sm_ID (to_match x) = fs_ID x" for x by (simp add: to_match_def)
  then have "length (keyset fs_ID ?p after n snaps) < n \<or> keyset fs_ID ?p after n snaps \<noteq> [] \<and>
      fs_ID s \<le> fs_ID (last (keyset fs_ID ?p after n snaps))"
    using assms(7) unfolding ListUnmatchedSnapshots_def by (auto simp: last_map)
  from keyset_covers [OF assms(1-3) _ this] assms show ?thesis by (auto simp: ListUnmatchedSnapshots_def)
qed

lemma unmatched_append: "\<not> unmatched pairs s \<Longrightarrow> \<not> unmatched (pairs @ new) s"
  by (auto simp: unmatched_def)

text \<open>A snapshot the loop has passed is matched if it has a candidate.\<close>

definition passed :: "Observation list \<Rightarrow> ForecastSnapshot list \<Rightarrow> instant \<Rightarrow> instant \<Rightarrow> (uuid \<Rightarrow> bool) \<Rightarrow> MatchedEvaluation list \<Rightarrow> bool" where
  "passed obs snaps from to done pairs \<longleftrightarrow>
     (\<forall>s \<in> set snaps. done (fs_ID s) \<and> from \<le> fs_TargetTime s \<and> fs_TargetTime s < to \<and>
        FindCandidates obs (fs_LocationID s) (Truncate (fs_TargetTime s) Hour) \<noteq> [] \<longrightarrow> \<not> unmatched pairs s)"

lemma chunk_passed:
  assumes ids: "distinct (map fs_ID snaps)" and P: "passed obs snaps from to (\<lambda>i. i \<le> after) (mt_pairs tbl)"
    and ch: "chunk = ListUnmatchedSnapshots snaps from to after n (mt_pairs tbl)"
    and st: "store_matches (chunk_matches ustr ids now obs k chunk) tbl = (Inr m, tbl')"
    and d: "\<And>s. s \<in> set snaps \<Longrightarrow> done (fs_ID s) \<Longrightarrow>
      fs_ID s \<le> after \<or> length chunk < n \<or> chunk \<noteq> [] \<and> fs_ID s \<le> sm_ID (last chunk)"
  shows "passed obs snaps from to done (mt_pairs tbl')"
  unfolding passed_def
proof (intro ballI impI, elim conjE)
  fix s
  assume s: "s \<in> set snaps" "done (fs_ID s)" "from \<le> fs_TargetTime s" "fs_TargetTime s < to"
    "FindCandidates obs (fs_LocationID s) (Truncate (fs_TargetTime s) Hour) \<noteq> []"
  from store_matches_ok [OF st] obtain new where new: "mt_pairs tbl' = mt_pairs tbl @ new"
    "\<forall>p \<in> set (chunk_matches ustr ids now obs k chunk). \<exists>q \<in> set (mt_pairs tbl'). pair_src q = pair_src p" by auto
  show "\<not> unmatched (mt_pairs tbl') s"
  proof (cases "fs_ID s \<le> after \<or> \<not> unmatched (mt_pairs tbl) s")
    case True
    with P s have "\<not> unmatched (mt_pairs tbl) s" unfolding passed_def by blast
    then show ?thesis unfolding new(1) by (rule unmatched_append)
  next
    case False
    with d [OF s(1,2)] have "length chunk < n \<or> chunk \<noteq> [] \<and> fs_ID s \<le> sm_ID (last chunk)" by blast
    with False s have mem: "to_match s \<in> set chunk"
      unfolding ch by (intro ListUnmatched_covers [OF ids]) (auto simp: not_le)
    have "\<exists>p \<in> set (chunk_matches ustr ids now obs k chunk). me_ForecastSnapshotID p = fs_ID s"
      using chunk_matches_complete [OF mem, of obs] s(5) by (simp add: to_match_def)
    with new(2) show ?thesis unfolding unmatched_def by (metis prod.inject)
  qed
qed

lemma match_loop_complete:
  assumes "distinct (map fs_ID snaps)" "passed obs snaps from to (\<lambda>i. i \<le> after) (mt_pairs tbl)" "0 < chunkSize"
    and "match_loop ustr ids now chunkSize snaps obs from to after created tbl = ((c, None), tbl')"
  shows "passed obs snaps from to (\<lambda>i. True) (mt_pairs tbl')"
  using assms
proof (induction ustr ids now chunkSize snaps obs "from" to after created tbl arbitrary: tbl' rule: match_loop.induct)
  case (1 ustr ids now chunkSize snaps obs "from" to after created tbl)
  let ?chunk = "ListUnmatchedSnapshots snaps from to after chunkSize (mt_pairs tbl)"
  obtain r tbl1 where st: "store_matches (chunk_matches ustr ids now obs (mt_drawn tbl) ?chunk) tbl = (r, tbl1)" by fastforce
  show ?case
  proof (cases "?chunk = []")
    case True
    with 1(5) have "tbl' = tbl" by (subst (asm) match_loop.simps) simp
    have "store_matches (chunk_matches ustr ids now obs 0 ?chunk) tbl = (Inr 0, tbl\<lparr>mt_drawn := mt_drawn tbl + 0\<rparr>)"
      using True by (simp add: store_matches_def)
    from chunk_passed [OF 1(2,3) refl this, of "\<lambda>i. True"] True 1(4) \<open>tbl' = tbl\<close> show ?thesis by simp
  next
    case False
    with 1(5) st obtain n where r: "r = Inr n"
      by (subst (asm) match_loop.simps) (auto simp: Let_def split: sum.splits)
    note step = chunk_passed [OF 1(2,3) refl st [unfolded r]]
    show ?thesis
    proof (cases "length ?chunk < chunkSize")
      case True
      with False 1(5) st r have "tbl' = tbl1" by (subst (asm) match_loop.simps) (simp add: Let_def)
      with step [of "\<lambda>i. True"] True show ?thesis by simp
    next
      case more: False
      with False 1(5) st r have rec: "match_loop ustr ids now chunkSize snaps obs from to (sm_ID (last ?chunk)) (created + n) tbl1 = ((c, None), tbl')"
        by (subst (asm) match_loop.simps) (simp add: Let_def)
      have "passed obs snaps from to (\<lambda>i. i \<le> sm_ID (last ?chunk)) (mt_pairs tbl1)" by (rule step) (use False in auto)
      from 1(1) [OF refl False st [symmetric] r more 1(2) this 1(4) rec] show ?thesis .
    qed
  qed
qed

text \<open>C14. A matching batch that reports no error leaves no work behind: every snapshot of the
  window with at least one usable observation for its target hour has a pair, whatever the
  chunk size, so what remains unmatched only waits for its observation.
\<close>

theorem MatchBatch_complete:
  assumes "distinct (map fs_ID snaps)" "nil_uuid \<notin> fs_ID ` set snaps" "0 < chunkSize"
    and "MatchBatch ustr ids chunkSize now snaps obs tbl = ((n, None), tbl')"
    and "s \<in> set snaps" "now - matchWindowBack \<le> fs_TargetTime s" "fs_TargetTime s < now - publicationMargin"
    and "FindCandidates obs (fs_LocationID s) (Truncate (fs_TargetTime s) Hour) \<noteq> []"
  shows "\<exists>p \<in> set (mt_pairs tbl'). me_ForecastSnapshotID p = fs_ID s"
proof -
  let ?from = "now - matchWindowBack" and ?to = "now - publicationMargin"
  from assms(4) obtain c tbl1 m where l: "match_loop ustr ids now chunkSize snaps obs ?from ?to nil_uuid 0 tbl = ((c, None), tbl1)"
    and r: "rematch ids now rematchBatchLimit obs tbl1 = (Inr m, tbl')"
    by (auto simp: MatchBatch_def Let_def split: prod.splits option.splits sum.splits)
  have "passed obs snaps ?from ?to (\<lambda>i. i \<le> nil_uuid) (mt_pairs tbl)"
    using assms(2) by (auto simp: passed_def)
  from match_loop_complete [OF assms(1) this assms(3) l] assms(5-8) have "\<not> unmatched (mt_pairs tbl1) s"
    unfolding passed_def by blast
  moreover from rematch_cases [OF r] obtain new where "mt_pairs tbl' = mt_pairs tbl1 @ new" by blast
  ultimately have "\<not> unmatched (mt_pairs tbl') s" by (simp add: unmatched_append)
  then show ?thesis by (auto simp: unmatched_def)
qed
lemma match_loop_idle:
  assumes "passed obs snaps from to (\<lambda>i. True) (mt_pairs tbl)"
  shows "match_loop ustr ids now chunkSize snaps obs from to after created tbl = ((created, None), tbl)"
  using assms
proof (induction ustr ids now chunkSize snaps obs "from" to after created tbl rule: match_loop.induct)
  case (1 ustr ids now chunkSize snaps obs "from" to after created tbl)
  let ?chunk = "ListUnmatchedSnapshots snaps from to after chunkSize (mt_pairs tbl)"
  have "FindCandidates obs (sm_LocationID snap) (Truncate (sm_TargetTime snap) Hour) = []" if "snap \<in> set ?chunk" for snap
    using ListUnmatched_mem [OF that] 1(2) unfolding passed_def to_match_def by force
  then have "chunk_matches ustr ids now obs (mt_drawn tbl) ?chunk = []" by (intro chunk_matches_none) blast
  then have st: "store_matches (chunk_matches ustr ids now obs (mt_drawn tbl) ?chunk) tbl = (Inr 0, tbl)"
    by (simp add: store_matches_def)
  show ?case
  proof (cases "?chunk = [] \<or> length ?chunk < chunkSize")
    case True
    with st show ?thesis by (subst match_loop.simps) (auto simp: Let_def)
  next
    case False
    then have "match_loop ustr ids now chunkSize snaps obs from to (sm_ID (last ?chunk)) (created + 0) tbl = ((created + 0, None), tbl)"
      by (intro 1(1) [OF refl _ st [symmetric] refl _ 1(2)]) auto
    with False st show ?thesis by (subst match_loop.simps) (simp add: Let_def)
  qed
qed

lemma passed_append: "passed obs snaps from to done pairs \<Longrightarrow> passed obs snaps from to done (pairs @ new)"
  unfolding passed_def by (metis unmatched_append)

text \<open>Running the batch again at the same time does exactly the rematch pass: the scan for
  unmatched snapshots creates nothing, so new pairs come only from corrections whose pair is
  still missing, and with none of these the second run changes nothing at all.
\<close>

theorem MatchBatch_rerun:
  assumes "distinct (map fs_ID snaps)" "nil_uuid \<notin> fs_ID ` set snaps" "0 < chunkSize"
    and "MatchBatch ustr ids chunkSize now snaps obs tbl = ((n, None), tbl')"
  shows "MatchBatch ustr ids chunkSize now snaps obs tbl' =
      (case rematch ids now rematchBatchLimit obs tbl' of
         (Inl e, t) \<Rightarrow> ((0, Some e), t) | (Inr m, t) \<Rightarrow> ((m, None), t)) \<and>
    (rematch_all obs (mt_pairs tbl') = [] \<longrightarrow>
       MatchBatch ustr ids chunkSize now snaps obs tbl' = ((0, None), tbl'))"
proof -
  let ?from = "now - matchWindowBack" and ?to = "now - publicationMargin"
  from assms(4) obtain c tbl1 m where l: "match_loop ustr ids now chunkSize snaps obs ?from ?to nil_uuid 0 tbl = ((c, None), tbl1)"
    and r: "rematch ids now rematchBatchLimit obs tbl1 = (Inr m, tbl')"
    by (auto simp: MatchBatch_def Let_def split: prod.splits option.splits sum.splits)
  have "passed obs snaps ?from ?to (\<lambda>i. i \<le> nil_uuid) (mt_pairs tbl)"
    using assms(2) by (auto simp: passed_def)
  note P = match_loop_complete [OF assms(1) this assms(3) l]
  from rematch_cases [OF r] obtain new where "mt_pairs tbl' = mt_pairs tbl1 @ new" by blast
  with passed_append [OF P] have "passed obs snaps ?from ?to (\<lambda>i. True) (mt_pairs tbl')" by simp
  note idle = match_loop_idle [OF this, of ustr ids now chunkSize nil_uuid 0]
  show ?thesis
    by (auto simp: MatchBatch_def Let_def idle rematch_def ListRematchTargets_all split: prod.splits sum.splits)
qed

section \<open>A concrete run\<close>

definition sample_snapshot :: ForecastSnapshot where
  "sample_snapshot = \<lparr>fs_ID = 1, fs_ForecastCollectionID = 2, fs_ProviderID = 3, fs_LocationID = 7, fs_IssuedAt = - Hour,
     fs_TargetTime = 0, fs_ForecastHorizonMinutes = 60, fs_TemperatureC = Some 20, fs_FeelsLikeTemperatureC = None,
     fs_PrecipitationProbability = None, fs_PrecipitationAmountMM = None, fs_HumidityPct = None, fs_WindSpeedMS = None,
     fs_WindDirectionDeg = None, fs_PressureHPa = None, fs_CloudCoverPct = None, fs_ProviderConditionCode = [],
     fs_CanonicalConditionCode = [], fs_ConditionTaxonomyVersion = [], fs_CreatedAt = 0\<rparr>"

definition sample_ids :: "nat \<Rightarrow> uuid" where "sample_ids k = word_of_nat (k + 100)"

text \<open>An observation corrected twice before the snapshot's pair was looked at again.\<close>

definition twice_corrected :: "Observation list" where
  "twice_corrected = [(sample_obs 1 (Some 1) ''valid'')\<lparr>ob_SupersededObservationID := Some 2\<rparr>,
     (sample_obs 2 (Some 2) ''corrected'')\<lparr>ob_SupersededObservationID := Some 3\<rparr>, sample_obs 3 (Some 3) ''corrected'']"

definition first_pair :: match_tbl where
  "first_pair = \<lparr>mt_pairs = [newPair 50 0 (to_match sample_snapshot) 1 0], mt_drawn = 0\<rparr>"

definition pair_to :: "nat \<Rightarrow> uuid \<Rightarrow> MatchedEvaluation" where
  "pair_to k i = newPair (sample_ids k) Hour (to_match sample_snapshot) i 0"

lemmas match_sample_defs = sample_snapshot_def twice_corrected_def sample_obs_def to_match_def first_pair_def pair_to_def

lemma sample_no_unmatched:
  "match_loop ustr ids now n [sample_snapshot] obs from to after 0 (first_pair\<lparr>mt_pairs := mt_pairs first_pair @ ps, mt_drawn := d\<rparr>) =
     ((0, None), first_pair\<lparr>mt_pairs := mt_pairs first_pair @ ps, mt_drawn := d\<rparr>)"
  by (subst match_loop.simps)
    (simp add: ListUnmatchedSnapshots_def keyset_def unmatched_def match_sample_defs)

lemma sample_rematch1:
  "rematch sample_ids Hour rematchBatchLimit twice_corrected first_pair =
     (Inr 1, first_pair\<lparr>mt_pairs := mt_pairs first_pair @ [pair_to 0 2], mt_drawn := 1\<rparr>)"
  by (simp add: rematch_def ListRematchTargets_def store_matches_def Run_def rematchBatchLimit_def sample_ids_def
      match_sample_defs newPair_def)

lemma sample_rematch2:
  "rematch sample_ids Hour rematchBatchLimit twice_corrected (first_pair\<lparr>mt_pairs := mt_pairs first_pair @ [pair_to 0 2], mt_drawn := 1\<rparr>) =
     (Inr 1, first_pair\<lparr>mt_pairs := mt_pairs first_pair @ [pair_to 0 2, pair_to 1 3], mt_drawn := 2\<rparr>)"
  by (simp add: rematch_def ListRematchTargets_def store_matches_def Run_def rematchBatchLimit_def sample_ids_def
      match_sample_defs newPair_def)

text \<open>C40. The batch is not idempotent when an observation was corrected twice between two runs:
  on correct tables, the first run adds the pair of the first correction, which is itself
  superseded, so the snapshot is left without a live pair, and the second run still creates a
  pair.
\<close>

theorem MatchBatch_not_idempotent:
  "match_inv [sample_snapshot] twice_corrected (mt_pairs first_pair) \<and> obs_rows_ok twice_corrected \<and>
   (\<exists>tbl1 tbl2. MatchBatch uuid_string sample_ids defaultChunkSize Hour [sample_snapshot] twice_corrected first_pair = ((1, None), tbl1) \<and>
     \<not> (\<exists>p \<in> set (mt_pairs tbl1). live_pair twice_corrected p) \<and>
     MatchBatch uuid_string sample_ids defaultChunkSize Hour [sample_snapshot] twice_corrected tbl1 = ((1, None), tbl2))"
proof (intro conjI exI)
  let ?t1 = "first_pair\<lparr>mt_pairs := mt_pairs first_pair @ [pair_to 0 2], mt_drawn := 1\<rparr>"
  let ?t2 = "first_pair\<lparr>mt_pairs := mt_pairs first_pair @ [pair_to 0 2, pair_to 1 3], mt_drawn := 2\<rparr>"
  have t0: "first_pair\<lparr>mt_pairs := mt_pairs first_pair @ [], mt_drawn := 0\<rparr> = first_pair" by (simp add: first_pair_def)
  show "match_inv [sample_snapshot] twice_corrected (mt_pairs first_pair)"
    by (auto simp: match_inv_def pair_of_def match_sample_defs newPair_def Truncate_def)
  show "obs_rows_ok twice_corrected"
    by (simp add: obs_rows_ok_def match_sample_defs observation_live_def obs_key_def)
  show "MatchBatch uuid_string sample_ids defaultChunkSize Hour [sample_snapshot] twice_corrected first_pair = ((1, None), ?t1)"
    using sample_no_unmatched [where ps = "[]" and d = 0, unfolded t0] by (simp add: MatchBatch_def Let_def sample_rematch1)
  show "MatchBatch uuid_string sample_ids defaultChunkSize Hour [sample_snapshot] twice_corrected ?t1 = ((1, None), ?t2)"
    by (simp add: MatchBatch_def Let_def sample_no_unmatched sample_rematch2 del: One_nat_def)
  show "\<not> (\<exists>p \<in> set (mt_pairs ?t1). live_pair twice_corrected p)"
    by (simp add: live_pair_def match_sample_defs newPair_def observation_live_def)
qed
theorem SelectCandidate_order_independent_witness:
  "SelectCandidate uuid_string 0 [Some \<lparr>oc_ID = 1, oc_ObservationType = ''reanalysis'', oc_QualityFlag = ''valid'', oc_ObservedAt = 0\<rparr>,
     None, Some \<lparr>oc_ID = 2, oc_ObservationType = ''reanalysis'', oc_QualityFlag = ''corrected'', oc_ObservedAt = 0\<rparr>] =
   SelectCandidate uuid_string 0 [None, Some \<lparr>oc_ID = 2, oc_ObservationType = ''reanalysis'', oc_QualityFlag = ''corrected'', oc_ObservedAt = 0\<rparr>,
     Some \<lparr>oc_ID = 1, oc_ObservationType = ''reanalysis'', oc_QualityFlag = ''valid'', oc_ObservedAt = 0\<rparr>]"
  (is "SelectCandidate _ _ [Some ?a, None, Some ?b] = _")
  using SelectCandidate_order_independent [OF rfc.uuid_text_axioms, of "[Some ?a, None, Some ?b]" "[None, Some ?b, Some ?a]" 0]
  by (simp add: add_mset_commute)

definition sample_now :: instant where "sample_now = 3 * Hour"

abbreviation sample_row :: Observation where "sample_row \<equiv> sample_obs 1 (Some 1) ''valid''"

abbreviation sample_pair :: MatchedEvaluation where
  "sample_pair \<equiv> newPair (sample_ids 0) sample_now (to_match sample_snapshot) 1 0"

lemma sample_loop:
  "match_loop uuid_string sample_ids sample_now defaultChunkSize [sample_snapshot] [sample_row] (sample_now - matchWindowBack)
      (sample_now - publicationMargin) nil_uuid 0 \<lparr>mt_pairs = [], mt_drawn = 0\<rparr> =
      ((1, None), \<lparr>mt_pairs = [sample_pair], mt_drawn = 1\<rparr>)"
proof -
  have cand: "FindCandidates [sample_row] 7 0 = [\<lparr>oc_ID = 1, oc_ObservationType = ''reanalysis'', oc_QualityFlag = ''valid'', oc_ObservedAt = 0\<rparr>]"
    by (simp add: FindCandidates_def sample_obs_def observation_live_def QualitySuspect_def)
  then show ?thesis
    by (subst match_loop.simps)
      (simp add: ListUnmatchedSnapshots_def keyset_def unmatched_def matchWindowBack_def publicationMargin_def Let_def
        store_matches_def Run_def SelectCandidate_def sample_snapshot_def to_match_def Truncate_def defaultChunkSize_def
        sample_now_def)
qed

lemma sample_batch_unmatched:
  "MatchBatch uuid_string sample_ids defaultChunkSize sample_now [sample_snapshot] [sample_row]
     \<lparr>mt_pairs = [], mt_drawn = 0\<rparr> = ((1, None), \<lparr>mt_pairs = [sample_pair], mt_drawn = 1\<rparr>)"
proof -
  have "rematch_all [sample_row] [sample_pair] = []" by (simp add: rematch_all_def sample_obs_def)
  then show ?thesis
    by (simp add: MatchBatch_def sample_loop rematch_def ListRematchTargets_all del: One_nat_def)
qed

theorem snapshot_evaluated_at_most_once_witness:
  "\<exists>s r. (match_step uuid_string sample_ids)\<^sup>*\<^sup>* match_init s \<and> sample_pair \<in> set (mt_pairs (ms_tbl s)) \<and>
     pair_of sample_snapshot r sample_pair"
proof -
  let ?db = "\<lparr>od_rows = [sample_row], od_partitions = [month_start 0]\<rparr>"
  let ?s1 = "match_init\<lparr>ms_obs := ?db\<rparr>"
  let ?s2 = "?s1\<lparr>ms_snaps := [sample_snapshot]\<rparr>"
  let ?s3 = "?s2\<lparr>ms_tbl := \<lparr>mt_pairs = [sample_pair], mt_drawn = 1\<rparr>\<rparr>"
  have "Observe fl64 0 ''src'' sample_location 0 0 (sample_fetch [sample_row]) (ms_obs match_init) =
      ((Inr 1, [ObservationCollected 7 ''src'' 1 [(''reanalysis'', 1)]]), ?db)"
    by (simp add: Observe_def sample_fetch_def Active_def Run_def observe_tx_def sample_obs_def match_init_def
        ListCurrentByWindow_def by_hour_def loc_a_def EnsurePartitions_def observationMonthStarts_def nub_def obs_key_def
        obs_checks_def ObservationType_Valid_def outside_def Let_def observe_events_def type_mix_def List.insert_def)
  then have 1: "match_step uuid_string sample_ids match_init ?s1"
    by (intro match_step.collect_observations [of "''src''" sample_location "sample_fetch [sample_row]"])
      (simp_all add: rows_of_request_def sample_obs_def loc_a_def match_init_def)
  have 2: "match_step uuid_string sample_ids ?s1 ?s2"
    using match_step.collect_forecasts [of ?s1 "[sample_snapshot]"] by (simp add: match_init_def)
  have 3: "match_step uuid_string sample_ids ?s2 ?s3"
    using match_step.run_batch [of uuid_string sample_ids defaultChunkSize sample_now ?s2] sample_batch_unmatched
    by (simp add: match_init_def)
  have r: "(match_step uuid_string sample_ids)\<^sup>*\<^sup>* match_init ?s3"
    using 1 2 3 by (simp add: converse_rtranclp_into_rtranclp [where r = "match_step uuid_string sample_ids"])
  have "live_pair (od_rows (ms_obs ?s3)) sample_pair" by (simp add: live_pair_def sample_obs_def observation_live_def)
  with snapshot_evaluated_at_most_once [OF r, of sample_pair sample_pair]
  have "pair_of sample_snapshot sample_row sample_pair" by simp
  moreover have "sample_pair \<in> set (mt_pairs (ms_tbl ?s3))" by simp
  ultimately show ?thesis using r by blast
qed

lemma sample_batch:
  "MatchBatch uuid_string sample_ids defaultChunkSize Hour [sample_snapshot] twice_corrected first_pair =
     ((1, None), first_pair\<lparr>mt_pairs := mt_pairs first_pair @ [pair_to 0 2], mt_drawn := 1\<rparr>)"
proof -
  have t0: "first_pair\<lparr>mt_pairs := mt_pairs first_pair @ [], mt_drawn := 0\<rparr> = first_pair" by (simp add: first_pair_def)
  show ?thesis
    using sample_no_unmatched [where ps = "[]" and d = 0, unfolded t0] by (simp add: MatchBatch_def Let_def sample_rematch1)
qed

theorem MatchBatch_rerun_witness:
  "MatchBatch uuid_string sample_ids defaultChunkSize Hour [sample_snapshot] twice_corrected
     (first_pair\<lparr>mt_pairs := mt_pairs first_pair @ [pair_to 0 2], mt_drawn := 1\<rparr>) =
     ((1, None), first_pair\<lparr>mt_pairs := mt_pairs first_pair @ [pair_to 0 2, pair_to 1 3], mt_drawn := 2\<rparr>)"
  using MatchBatch_rerun [OF _ _ _ sample_batch]
  by (simp add: sample_rematch2 sample_snapshot_def defaultChunkSize_def del: One_nat_def)

theorem MatchBatch_complete_witness:
  "\<exists>p. p \<in> set (mt_pairs (snd (MatchBatch uuid_string sample_ids defaultChunkSize sample_now [sample_snapshot] [sample_row]
     \<lparr>mt_pairs = [], mt_drawn = 0\<rparr>))) \<and> me_ForecastSnapshotID p = 1"
proof -
  have "\<exists>p \<in> set (mt_pairs \<lparr>mt_pairs = [sample_pair], mt_drawn = 1\<rparr>). me_ForecastSnapshotID p = fs_ID sample_snapshot"
    by (rule MatchBatch_complete [OF _ _ _ sample_batch_unmatched])
      (simp_all add: sample_snapshot_def defaultChunkSize_def matchWindowBack_def publicationMargin_def FindCandidates_def
        sample_obs_def observation_live_def QualitySuspect_def Truncate_def sample_now_def)
  moreover have "fs_ID sample_snapshot = 1" by (simp add: sample_snapshot_def)
  ultimately show ?thesis by (simp only: sample_batch_unmatched snd_conv) blast
qed

end
