(* ===== verification/Scheduler.thy ===== *)
theory Scheduler
  imports Catalog
begin

text \<open>
  The scheduler: slot generation, claiming with leases, execution and retry
  (\<^verbatim>\<open>internal/scheduler/{slot,scheduler}.go\<close>) over the tables \<^verbatim>\<open>collection_schedules\<close> and
  \<^verbatim>\<open>schedule_runs\<close> (\<^verbatim>\<open>adapters/persistence/schedulerpg\<close>). Each database call is one atomic
  step; the goroutines and instances are the interleavings of a step relation. The result of
  a dispatched job is an argument.
\<close>

section \<open>Slots and runs\<close>

definition JobForecastCollection :: string where "JobForecastCollection = ''forecast_collection''"
definition JobObservationCollection :: string where "JobObservationCollection = ''observation_collection''"
definition JobAnalysisBatch :: string where "JobAnalysisBatch = ''analysis_batch''"

datatype SlotStatus = SlotDue | SlotClaimed | SlotCompleted | SlotFailed | SlotExpired
datatype RunStatus = RunRunning | RunCompleted | RunFailed

definition MaxAttempts :: int where "MaxAttempts = 5"

record Slot =
  sl_ID :: uuid
  sl_ProviderConfigurationID :: uuid
  sl_JobType :: string
  sl_LocationID :: "uuid option"
  sl_SlotTime :: instant
  sl_Status :: SlotStatus
  sl_ClaimedBy :: string
  sl_ClaimedAt :: "instant option"
  sl_LeaseExpiresAt :: "instant option"
  sl_Attempts :: int
  sl_NextRetryAt :: "instant option"
  sl_ScheduleRunID :: "uuid option"
  sl_CreatedAt :: instant
  sl_UpdatedAt :: instant

record ScheduleRun =
  ru_ID :: uuid
  ru_JobType :: string
  ru_SlotID :: "uuid option"
  ru_StartedAt :: instant
  ru_CompletedAt :: "instant option"
  ru_Status :: RunStatus
  ru_ErrorCode :: string
  ru_ErrorMessage :: string
  ru_DurationMS :: int
  ru_RecordsAffected :: int
  ru_CreatedAt :: instant

record sched_db =
  sd_slots :: "Slot list"
  sd_runs :: "ScheduleRun list"
  sd_drawn :: nat

datatype sched_error = SlotForeignKey | RunDuplicate | RunForeignKey | TxBegin

text \<open>The unique index of \<^verbatim>\<open>collection_schedules\<close>; a global slot counts as the nil location.\<close>

definition slot_key :: "Slot \<Rightarrow> uuid \<times> string \<times> uuid \<times> instant" where
  "slot_key s = (sl_ProviderConfigurationID s, sl_JobType s, (case sl_LocationID s of None \<Rightarrow> nil_uuid | Some l \<Rightarrow> l), sl_SlotTime s)"


section \<open>Tables\<close>

definition Generate :: "uuid list \<Rightarrow> Slot \<Rightarrow> sched_db \<Rightarrow> (sched_error, unit) result \<times> sched_db" where
  "Generate configs s db =
     (if \<exists>q \<in> set (sd_slots db). sl_ID q = sl_ID s \<or> slot_key q = slot_key s then (Inr (), db)
      else if sl_ProviderConfigurationID s \<notin> set configs then (Inl SlotForeignKey, db)
      else (Inr (), db\<lparr>sd_slots := sd_slots db @
              [s\<lparr>sl_ClaimedBy := [], sl_ClaimedAt := None, sl_LeaseExpiresAt := None, sl_Attempts := 0,
                 sl_NextRetryAt := None, sl_ScheduleRunID := None\<rparr>]\<rparr>))"

definition claimable :: "instant \<Rightarrow> Slot \<Rightarrow> bool" where
  "claimable now s \<longleftrightarrow>
     sl_Status s = SlotDue \<and> sl_SlotTime s \<le> now \<and> (case sl_NextRetryAt s of None \<Rightarrow> True | Some t \<Rightarrow> t \<le> now) \<or>
     sl_Status s = SlotClaimed \<and> (case sl_LeaseExpiresAt s of None \<Rightarrow> False | Some t \<Rightarrow> t < now)"

definition claim_row :: "string \<Rightarrow> instant \<Rightarrow> duration \<Rightarrow> Slot \<Rightarrow> Slot" where
  "claim_row inst now lease s = s\<lparr>sl_Status := SlotClaimed, sl_ClaimedBy := inst, sl_ClaimedAt := Some now,
     sl_LeaseExpiresAt := Some (now + lease)\<rparr>"

definition ClaimDue :: "string \<Rightarrow> instant \<Rightarrow> duration \<Rightarrow> nat \<Rightarrow> sched_db \<Rightarrow> Slot list \<times> sched_db" where
  "ClaimDue inst now lease limit db =
     (let chosen = take limit (sort_key sl_SlotTime (filter (claimable now) (sd_slots db)));
          hit = (\<lambda>s. sl_ID s \<in> sl_ID ` set chosen)
      in (map (claim_row inst now lease) chosen,
          db\<lparr>sd_slots := update_where hit (claim_row inst now lease) (sd_slots db)\<rparr>))"

definition Complete :: "uuid \<Rightarrow> uuid \<Rightarrow> sched_db \<Rightarrow> sched_db" where
  "Complete slotID runID db = db\<lparr>sd_slots := update_where (\<lambda>s. sl_ID s = slotID)
     (\<lambda>s. s\<lparr>sl_Status := SlotCompleted, sl_ScheduleRunID := Some runID\<rparr>) (sd_slots db)\<rparr>"

definition Fail :: "uuid \<Rightarrow> uuid \<Rightarrow> int \<Rightarrow> instant option \<Rightarrow> sched_db \<Rightarrow> sched_db" where
  "Fail slotID runID attempts nextRetryAt db = db\<lparr>sd_slots := update_where (\<lambda>s. sl_ID s = slotID)
     (\<lambda>s. s\<lparr>sl_Status := (if nextRetryAt \<noteq> None then SlotDue else SlotFailed), sl_Attempts := attempts,
            sl_NextRetryAt := nextRetryAt, sl_ScheduleRunID := Some runID, sl_ClaimedBy := [], sl_ClaimedAt := None,
            sl_LeaseExpiresAt := None\<rparr>) (sd_slots db)\<rparr>"

definition CountClaimable :: "instant \<Rightarrow> sched_db \<Rightarrow> nat" where
  "CountClaimable now db = length (filter (claimable now) (sd_slots db))"

definition Start :: "ScheduleRun \<Rightarrow> sched_db \<Rightarrow> (sched_error, unit) result \<times> sched_db" where
  "Start r db =
     (if \<exists>q \<in> set (sd_runs db). ru_ID q = ru_ID r then (Inl RunDuplicate, db)
      else if (case ru_SlotID r of None \<Rightarrow> False | Some i \<Rightarrow> i \<notin> sl_ID ` set (sd_slots db)) then (Inl RunForeignKey, db)
      else (Inr (), db\<lparr>sd_runs := sd_runs db @ [r]\<rparr>))"

definition Finish :: "instant \<Rightarrow> uuid \<Rightarrow> RunStatus \<Rightarrow> string \<Rightarrow> string \<Rightarrow> int \<Rightarrow> int \<Rightarrow> sched_db \<Rightarrow> sched_db" where
  "Finish dbnow runID st errorCode errorMessage durationMS records db = db\<lparr>sd_runs := update_where (\<lambda>r. ru_ID r = runID)
     (\<lambda>r. r\<lparr>ru_CompletedAt := Some dbnow, ru_Status := st, ru_ErrorCode := errorCode, ru_ErrorMessage := errorMessage,
            ru_DurationMS := durationMS, ru_RecordsAffected := records\<rparr>) (sd_runs db)\<rparr>"


section \<open>The scheduler\<close>

record SchedConfig =
  sc_InstanceID :: string
  sc_Interval :: duration
  sc_LeaseDuration :: duration
  sc_MaxConcurrent :: int
  sc_ClaimBatch :: int
  sc_JobTimeout :: duration
  sc_DrainTimeout :: duration
  sc_MissedThreshold :: duration
  sc_ObservationConfigID :: uuid
  sc_ObservationMinuteOffset :: int
  sc_AnalysisConfigID :: uuid
  sc_AnalysisMinuteOffsets :: "int list"

text \<open>The defaults \<^verbatim>\<open>New\<close> fills in; \<open>fresh\<close> is \<^verbatim>\<open>uuid.NewString()\<close>.\<close>

definition New :: "string \<Rightarrow> SchedConfig \<Rightarrow> SchedConfig" where
  "New fresh c =
     (let c1 = (if sc_InstanceID c = [] then c\<lparr>sc_InstanceID := fresh\<rparr> else c);
          c2 = (if sc_Interval c1 \<le> 0 then c1\<lparr>sc_Interval := 15 * Second\<rparr> else c1);
          c3 = (if sc_LeaseDuration c2 \<le> 0 then c2\<lparr>sc_LeaseDuration := 5 * Minute\<rparr> else c2);
          c4 = (if sc_MaxConcurrent c3 \<le> 0 then c3\<lparr>sc_MaxConcurrent := 8\<rparr> else c3);
          c5 = (if sc_ClaimBatch c4 \<le> 0 then c4\<lparr>sc_ClaimBatch := 10\<rparr> else c4);
          c6 = (if sc_JobTimeout c5 \<le> 0 then c5\<lparr>sc_JobTimeout := 60 * Second\<rparr> else c5);
          c7 = (if sc_DrainTimeout c6 \<le> 0 then c6\<lparr>sc_DrainTimeout := 30 * Second\<rparr> else c6)
      in if sc_MissedThreshold c7 \<le> 0
         then c7\<lparr>sc_MissedThreshold := (if 2 * sc_Interval c7 < 2 * Minute then 2 * Minute else 2 * sc_Interval c7)\<rparr>
         else c7)"

function analysis_hours :: "instant \<Rightarrow> instant \<Rightarrow> instant \<Rightarrow> int list \<Rightarrow> instant list" where
  "analysis_hours h from to offsets =
     (if h < to then filter (\<lambda>t. \<not> t < from \<and> t < to) (map (\<lambda>off. h + off * Minute) offsets) @
        analysis_hours (h + Hour) from to offsets
      else [])"
  by auto
termination by (relation "measure (\<lambda>(h, from, to, _). nat (to - h))") auto

declare analysis_hours.simps [simp del]

definition analysisSlotTimes :: "instant \<Rightarrow> instant \<Rightarrow> int list \<Rightarrow> instant list" where
  "analysisSlotTimes from to offsets =
     analysis_hours (Truncate from Hour) from to (if offsets = [] then [10, 40] else offsets)"

text \<open>The slots due in a window: per configuration, per time, per location; then observations; then analysis.\<close>

definition new_slot :: "instant \<Rightarrow> uuid \<Rightarrow> string \<Rightarrow> uuid option \<Rightarrow> instant \<Rightarrow> uuid \<Rightarrow> Slot" where
  "new_slot now cfg job loc t fresh = \<lparr>sl_ID = fresh, sl_ProviderConfigurationID = cfg, sl_JobType = job, sl_LocationID = loc,
     sl_SlotTime = t, sl_Status = SlotDue, sl_ClaimedBy = [], sl_ClaimedAt = None, sl_LeaseExpiresAt = None, sl_Attempts = 0,
     sl_NextRetryAt = None, sl_ScheduleRunID = None, sl_CreatedAt = now, sl_UpdatedAt = now\<rparr>"

definition window_slots :: "SchedConfig \<Rightarrow> instant \<Rightarrow> ProviderConfiguration list \<Rightarrow> Location list \<Rightarrow> (uuid \<Rightarrow> Slot) list" where
  "window_slots cfg now configs locs =
     (let from = Truncate now Hour - Hour; to = Truncate now Hour + Hour in
      [new_slot now (pc_ID c) JobForecastCollection (Some (lo_ID l)) t.
         c \<leftarrow> configs, t \<leftarrow> SlotTimes (pc_CollectionSchedule c) from to, l \<leftarrow> locs] @
      (if sc_ObservationConfigID cfg \<noteq> nil_uuid
       then [new_slot now (sc_ObservationConfigID cfg) JobObservationCollection (Some (lo_ID l)) t.
               t \<leftarrow> SlotTimes \<lparr>Interval = ''hourly'', MinuteOffset = sc_ObservationMinuteOffset cfg\<rparr> from to, l \<leftarrow> locs]
       else []) @
      (if sc_AnalysisConfigID cfg \<noteq> nil_uuid
       then [new_slot now (sc_AnalysisConfigID cfg) JobAnalysisBatch None t.
               t \<leftarrow> analysisSlotTimes from to (sc_AnalysisMinuteOffsets cfg)]
       else []))"

fun generate_all :: "(nat \<Rightarrow> uuid) \<Rightarrow> uuid list \<Rightarrow> (uuid \<Rightarrow> Slot) list \<Rightarrow> sched_db \<Rightarrow> (sched_error, unit) result \<times> sched_db" where
  "generate_all ids configs [] db = (Inr (), db)"
| "generate_all ids configs (s # ss) db =
     (case Generate configs (s (ids (sd_drawn db))) (db\<lparr>sd_drawn := sd_drawn db + 1\<rparr>) of
        (Inl e, db') \<Rightarrow> (Inl e, db')
      | (Inr _, db') \<Rightarrow> generate_all ids configs ss db')"

definition generateSlots :: "(nat \<Rightarrow> uuid) \<Rightarrow> SchedConfig \<Rightarrow> catalog_db \<Rightarrow> instant \<Rightarrow> sched_db \<Rightarrow>
    (sched_error, unit) result \<times> sched_db" where
  "generateSlots ids cfg cat now db =
     (let configs = ConfRepo_ListActive cat; locs = LocRepo_ListActive cat
      in if locs = [] then (Inr (), db)
         else Run (generate_all ids (map pc_ID (db_configs cat)) (window_slots cfg now configs locs)) db)"

definition slotLag :: "instant \<Rightarrow> instant \<Rightarrow> duration" where
  "slotLag now slotTime = (let d = now - slotTime in if d > 0 then d else 0)"

text \<open>The claimed slots, the number that missed their schedule, the new table.\<close>

definition claimDue :: "SchedConfig \<Rightarrow> instant \<Rightarrow> sched_db \<Rightarrow> (Slot list \<times> nat) \<times> sched_db" where
  "claimDue cfg now db =
     (let (claimed, db') = ClaimDue (sc_InstanceID cfg) now (sc_LeaseDuration cfg) (nat (sc_ClaimBatch cfg)) db
      in ((claimed, length (filter (\<lambda>s. slotLag now (sl_SlotTime s) > sc_MissedThreshold cfg) claimed)), db'))"

definition watchdog :: "SchedConfig \<Rightarrow> instant \<Rightarrow> instant \<Rightarrow> sched_db \<Rightarrow> nat option" where
  "watchdog cfg lastProgress now db =
     (if now - lastProgress < 2 * sc_Interval cfg then None
      else let n = CountClaimable now db in if n > 0 then Some n else None)"

text \<open>One tick: a failed generation is only logged, claiming goes on.\<close>

definition tick :: "(nat \<Rightarrow> uuid) \<Rightarrow> SchedConfig \<Rightarrow> catalog_db \<Rightarrow> instant \<Rightarrow> instant \<times> sched_db \<Rightarrow> Slot list \<times> instant \<times> sched_db" where
  "tick ids cfg cat now = (\<lambda>(lastProgress, db).
     let db1 = snd (generateSlots ids cfg cat now db);
         ((slots, missed), db2) = claimDue cfg now db1
     in (slots, if slots = [] then lastProgress else now, db2))"

definition retryBackoff :: "int \<Rightarrow> duration" where
  "retryBackoff attempt =
     (let a1 = (if attempt < 1 then 1 else attempt); a2 = (if a1 > 5 then 5 else a1)
      in 2 ^ nat (a2 - 1) * Second)"

datatype job_error = JobCircuitOpen string | JobInactive string | JobError string

definition classifyError :: "job_error \<Rightarrow> string" where
  "classifyError e = (case e of JobCircuitOpen _ \<Rightarrow> ''circuit_open'' | JobInactive _ \<Rightarrow> ''inactive'' | JobError _ \<Rightarrow> ''error'')"

fun job_message :: "job_error \<Rightarrow> string" where
  "job_message (JobCircuitOpen m) = m"
| "job_message (JobInactive m) = m"
| "job_message (JobError m) = m"

definition truncateMsg :: "string \<Rightarrow> string" where
  "truncateMsg s = (if length s > 500 then take 500 s else s)"

text \<open>
  One execution. Every transaction of it runs under the job's context, which expires
  \<^verbatim>\<open>JobTimeout\<close> after \<open>ctx\<close>, the instant the execution began: a transaction that
  would run at or after the deadline does not begin, and \<open>execute\<close> drops its error.
\<close>

definition in_ctx :: "SchedConfig \<Rightarrow> instant \<Rightarrow> instant \<Rightarrow> bool" where
  "in_ctx cfg ctx t \<longleftrightarrow> t < ctx + sc_JobTimeout cfg"

definition start_run :: "(nat \<Rightarrow> uuid) \<Rightarrow> SchedConfig \<Rightarrow> instant \<Rightarrow> instant \<Rightarrow> Slot \<Rightarrow> sched_db \<Rightarrow> (sched_error, uuid) result \<times> sched_db" where
  "start_run ids cfg ctx start slot db =
     (let i = ids (sd_drawn db); db0 = db\<lparr>sd_drawn := sd_drawn db + 1\<rparr>;
          run = \<lparr>ru_ID = i, ru_JobType = sl_JobType slot, ru_SlotID = Some (sl_ID slot), ru_StartedAt = start,
            ru_CompletedAt = None, ru_Status = RunRunning, ru_ErrorCode = [], ru_ErrorMessage = [], ru_DurationMS = 0,
            ru_RecordsAffected = 0, ru_CreatedAt = start\<rparr>
      in if \<not> in_ctx cfg ctx start then (Inl TxBegin, db0)
         else case Run (Start run) db0 of (Inl e, db') \<Rightarrow> (Inl e, db') | (Inr _, db') \<Rightarrow> (Inr i, db'))"

text \<open>\<open>ended\<close> is the clock after the job, \<open>t\<close> the time of the transaction.\<close>

definition finish_run :: "SchedConfig \<Rightarrow> instant \<Rightarrow> instant \<Rightarrow> instant \<Rightarrow> instant \<Rightarrow> uuid \<Rightarrow> (job_error, int) result \<Rightarrow> sched_db \<Rightarrow> sched_db" where
  "finish_run cfg ctx start ended t runID res db =
     (if \<not> in_ctx cfg ctx t then db
      else case res of
        Inl e \<Rightarrow> Finish t runID RunFailed (classifyError e) (truncateMsg (job_message e)) (Milliseconds (ended - start)) 0 db
      | Inr records \<Rightarrow> Finish t runID RunCompleted [] [] (Milliseconds (ended - start)) records db)"

text \<open>\<open>clk\<close> is the clock reading the retry time counts from.\<close>

definition close_slot :: "SchedConfig \<Rightarrow> instant \<Rightarrow> instant \<Rightarrow> instant \<Rightarrow> Slot \<Rightarrow> uuid \<Rightarrow> (job_error, int) result \<Rightarrow> sched_db \<Rightarrow> sched_db" where
  "close_slot cfg ctx clk t slot runID res db =
     (if \<not> in_ctx cfg ctx t then db
      else case res of
        Inl e \<Rightarrow>
          (let attempts = sl_Attempts slot + 1;
               nextRetry = (if attempts < MaxAttempts then Some (clk + retryBackoff attempts) else None)
           in Fail (sl_ID slot) runID attempts nextRetry db)
      | Inr records \<Rightarrow> Complete (sl_ID slot) runID db)"


section \<open>Interleaved execution\<close>

text \<open>
  What the goroutines of all instances can do, one database call at a time. A claimed slot is a
  \<open>flight\<close>: waiting for the pool's semaphore, running its job, or with its run closed and its
  slot not yet. All instances read one clock. \<open>W\<close> bounds how long after its claim an execution
  begins; nothing in the code enforces a bound, so it is a parameter of the runs.
\<close>

datatype phase = Waiting | Running uuid instant | Closing uuid instant "(job_error, int) result"

record flight =
  fl_slot :: Slot
  fl_phase :: phase

record sched_sys =
  sy_now :: instant
  sy_db :: sched_db
  sy_flights :: "flight list"

datatype sched_action =
    AGenerate catalog_db instant
  | AClaim string instant
  | ABegin nat instant
  | AFinish nat instant instant "(job_error, int) result"
  | AClose nat instant instant
  | AStop nat

definition claimed_at :: "flight \<Rightarrow> instant" where
  "claimed_at f = (case sl_ClaimedAt (fl_slot f) of Some c \<Rightarrow> c | None \<Rightarrow> 0)"

definition drop_nth :: "nat \<Rightarrow> 'a list \<Rightarrow> 'a list" where
  "drop_nth n xs = take n xs @ drop (Suc n) xs"

definition begin_flight :: "(nat \<Rightarrow> uuid) \<Rightarrow> SchedConfig \<Rightarrow> nat \<Rightarrow> instant \<Rightarrow> sched_sys \<Rightarrow> sched_sys" where
  "begin_flight ids cfg n t s =
     (case start_run ids cfg t t (fl_slot (sy_flights s ! n)) (sy_db s) of
        (Inl e, db') \<Rightarrow> s\<lparr>sy_now := t, sy_db := db', sy_flights := drop_nth n (sy_flights s)\<rparr>
      | (Inr r, db') \<Rightarrow> s\<lparr>sy_now := t, sy_db := db',
          sy_flights := (sy_flights s)[n := (sy_flights s ! n)\<lparr>fl_phase := Running r t\<rparr>]\<rparr>)"

fun act :: "(nat \<Rightarrow> uuid) \<Rightarrow> SchedConfig \<Rightarrow> duration \<Rightarrow> sched_sys \<Rightarrow> sched_action \<Rightarrow> sched_sys option" where
  "act ids cfg W s (AGenerate cat t) =
     (if sy_now s \<le> t then Some (s\<lparr>sy_now := t, sy_db := snd (generateSlots ids cfg cat t (sy_db s))\<rparr>) else None)"
| "act ids cfg W s (AClaim inst t) =
     (if sy_now s \<le> t
      then let ((slots, missed), db') = claimDue (cfg\<lparr>sc_InstanceID := inst\<rparr>) t (sy_db s)
           in Some (s\<lparr>sy_now := t, sy_db := db', sy_flights := sy_flights s @ map (\<lambda>q. \<lparr>fl_slot = q, fl_phase = Waiting\<rparr>) slots\<rparr>)
      else None)"
| "act ids cfg W s (ABegin n t) =
     (if sy_now s \<le> t \<and> n < length (sy_flights s) \<and> fl_phase (sy_flights s ! n) = Waiting \<and>
         t \<le> claimed_at (sy_flights s ! n) + W
      then Some (begin_flight ids cfg n t s) else None)"
| "act ids cfg W s (AFinish n ended t res) =
     (if sy_now s \<le> ended \<and> ended \<le> t \<and> n < length (sy_flights s)
      then case fl_phase (sy_flights s ! n) of
        Running r c \<Rightarrow> Some (s\<lparr>sy_now := t, sy_db := finish_run cfg c c ended t r res (sy_db s),
          sy_flights := (sy_flights s)[n := (sy_flights s ! n)\<lparr>fl_phase := Closing r c res\<rparr>]\<rparr>)
      | _ \<Rightarrow> None
      else None)"
| "act ids cfg W s (AClose n clk t) =
     (if sy_now s \<le> clk \<and> clk \<le> t \<and> n < length (sy_flights s)
      then case fl_phase (sy_flights s ! n) of
        Closing r c res \<Rightarrow> Some (s\<lparr>sy_now := t, sy_db := close_slot cfg c clk t (fl_slot (sy_flights s ! n)) r res (sy_db s),
          sy_flights := drop_nth n (sy_flights s)\<rparr>)
      | _ \<Rightarrow> None
      else None)"
| "act ids cfg W s (AStop n) = Some (s\<lparr>sy_flights := drop_nth n (sy_flights s)\<rparr>)"

definition sched_init :: "instant \<Rightarrow> sched_sys" where
  "sched_init t = \<lparr>sy_now = t, sy_db = \<lparr>sd_slots = [], sd_runs = [], sd_drawn = 0\<rparr>, sy_flights = []\<rparr>"

inductive sched_reach :: "(nat \<Rightarrow> uuid) \<Rightarrow> SchedConfig \<Rightarrow> duration \<Rightarrow> sched_sys \<Rightarrow> bool"
  for ids :: "nat \<Rightarrow> uuid" and cfg :: SchedConfig and W :: duration where
  reach_init: "sched_reach ids cfg W (sched_init t)"
| reach_act: "sched_reach ids cfg W s \<Longrightarrow> act ids cfg W s a = Some s' \<Longrightarrow> sched_reach ids cfg W s'"

fun acts :: "(nat \<Rightarrow> uuid) \<Rightarrow> SchedConfig \<Rightarrow> duration \<Rightarrow> sched_sys \<Rightarrow> sched_action list \<Rightarrow> sched_sys option" where
  "acts ids cfg W s [] = Some s"
| "acts ids cfg W s (a # as) = (case act ids cfg W s a of None \<Rightarrow> None | Some s' \<Rightarrow> acts ids cfg W s' as)"

lemma acts_reach: "acts ids cfg W s as = Some s' \<Longrightarrow> sched_reach ids cfg W s \<Longrightarrow> sched_reach ids cfg W s'"
  by (induction as arbitrary: s) (auto split: option.splits intro: reach_act)


section \<open>The table invariant\<close>

text \<open>What the columns of a slot row say together.\<close>

definition row_ok :: "duration \<Rightarrow> Slot \<Rightarrow> bool" where
  "row_ok lease s \<longleftrightarrow> 0 \<le> sl_Attempts s \<and> sl_Attempts s \<le> MaxAttempts \<and>
     (case sl_Status s of
        SlotDue \<Rightarrow> sl_Attempts s < MaxAttempts \<and> sl_ClaimedAt s = None \<and> sl_LeaseExpiresAt s = None
      | SlotClaimed \<Rightarrow> sl_Attempts s < MaxAttempts \<and>
          (case sl_ClaimedAt s of Some c \<Rightarrow> sl_LeaseExpiresAt s = Some (c + lease) | None \<Rightarrow> False)
      | SlotCompleted \<Rightarrow> sl_ScheduleRunID s \<noteq> None
      | SlotFailed \<Rightarrow> sl_Attempts s = MaxAttempts \<and> sl_ScheduleRunID s \<noteq> None
      | SlotExpired \<Rightarrow> False)"

definition slots_ok :: "duration \<Rightarrow> sched_db \<Rightarrow> bool" where
  "slots_ok lease db \<longleftrightarrow> distinct (map sl_ID (sd_slots db)) \<and> distinct (map slot_key (sd_slots db)) \<and>
     list_all (row_ok lease) (sd_slots db)"

text \<open>What a flight remembers of its slot: fewer than the allowed attempts, and its claim.\<close>

definition flight_ok :: "duration \<Rightarrow> flight \<Rightarrow> bool" where
  "flight_ok lease f \<longleftrightarrow> sl_Status (fl_slot f) = SlotClaimed \<and> row_ok lease (fl_slot f)"

named_theorems slot_upd \<open>updates that keep the keys of a row\<close>

lemma key_claim [slot_upd]: "sl_ID (claim_row i n l s) = sl_ID s" "slot_key (claim_row i n l s) = slot_key s"
  by (simp_all add: claim_row_def slot_key_def)

lemma slots_ok_update:
  assumes "slots_ok lease db" "\<And>r. sl_ID (f r) = sl_ID r" "\<And>r. slot_key (f r) = slot_key r"
    and "\<And>r. r \<in> set (sd_slots db) \<Longrightarrow> c r \<Longrightarrow> row_ok lease (f r)"
  shows "slots_ok lease (db\<lparr>sd_slots := update_where c f (sd_slots db)\<rparr>)"
  using assms by (auto simp: slots_ok_def map_update_where list_all_iff set_update_where)

lemma slots_ok_runs [simp]:
  "slots_ok lease (db\<lparr>sd_runs := r\<rparr>) = slots_ok lease db" "slots_ok lease (db\<lparr>sd_drawn := n\<rparr>) = slots_ok lease db"
  by (simp_all add: slots_ok_def)

lemma Generate_ok:
  assumes "slots_ok lease db" "sl_Status s = SlotDue"
  shows "slots_ok lease (snd (Generate cs s db))"
  using assms by (auto simp: Generate_def slots_ok_def row_ok_def slot_key_def MaxAttempts_def)

definition fresh_due :: "(uuid \<Rightarrow> Slot) \<Rightarrow> bool" where
  "fresh_due g \<longleftrightarrow> (\<forall>i. sl_Status (g i) = SlotDue \<and> sl_ID (g i) = i)"

lemma window_slots_fresh: "g \<in> set (window_slots cfg now cs ls) \<Longrightarrow> fresh_due g"
  by (auto simp: window_slots_def Let_def fresh_due_def new_slot_def split: if_splits)

lemma generate_all_ok:
  assumes "slots_ok lease db" "list_all fresh_due gs"
  shows "slots_ok lease (snd (generate_all ids cs gs db))"
  using assms
proof (induction gs arbitrary: db)
  case (Cons g gs)
  obtain r db' where G: "Generate cs (g (ids (sd_drawn db))) (db\<lparr>sd_drawn := sd_drawn db + 1\<rparr>) = (r, db')"
    by (rule prod.exhaust)
  have "slots_ok lease (snd (Generate cs (g (ids (sd_drawn db))) (db\<lparr>sd_drawn := sd_drawn db + 1\<rparr>)))"
    using Cons.prems by (intro Generate_ok) (simp_all add: fresh_due_def)
  then have "slots_ok lease db'" unfolding G by simp
  with Cons.IH [of db'] Cons.prems show ?case unfolding generate_all.simps G by (cases r) simp_all
qed simp

lemma generateSlots_ok:
  assumes "slots_ok lease db"
  shows "slots_ok lease (snd (generateSlots ids cfg cat now db))"
proof -
  let ?gs = "window_slots cfg now (ConfRepo_ListActive cat) (LocRepo_ListActive cat)"
  have "list_all fresh_due ?gs" by (auto simp: list_all_iff dest: window_slots_fresh)
  from generate_all_ok [OF assms this] have
    "slots_ok lease (snd (Run (generate_all ids (map pc_ID (db_configs cat)) ?gs) db))"
    using assms by (intro Run_preserves [where P = "slots_ok lease"]) (auto, metis snd_conv)
  with assms show ?thesis by (simp add: generateSlots_def Let_def)
qed
text \<open>Claiming marks the chosen rows and no other.\<close>

definition chosen_rows :: "instant \<Rightarrow> nat \<Rightarrow> sched_db \<Rightarrow> Slot list" where
  "chosen_rows now limit db = take limit (sort_key sl_SlotTime (filter (claimable now) (sd_slots db)))"

lemma chosen_rows_sub: "set (chosen_rows now limit db) \<subseteq> {r \<in> set (sd_slots db). claimable now r}"
  using set_take_subset [of limit "sort_key sl_SlotTime (filter (claimable now) (sd_slots db))"]
  by (auto simp: chosen_rows_def)

lemma ClaimDue_eq:
  assumes "distinct (map sl_ID (sd_slots db))"
  shows "ClaimDue inst now lease limit db =
    (map (claim_row inst now lease) (chosen_rows now limit db),
     db\<lparr>sd_slots := update_where (\<lambda>r. r \<in> set (chosen_rows now limit db)) (claim_row inst now lease) (sd_slots db)\<rparr>)"
proof -
  have "sl_ID r \<in> sl_ID ` set (chosen_rows now limit db) \<longleftrightarrow> r \<in> set (chosen_rows now limit db)"
    if "r \<in> set (sd_slots db)" for r
    using that chosen_rows_sub [of now limit db] unique_row [OF assms] by blast
  then show ?thesis
    by (auto simp: ClaimDue_def Let_def update_where_def chosen_rows_def [symmetric])
qed

lemma claim_row_ok:
  assumes "row_ok lease r" "claimable now r"
  shows "row_ok lease (claim_row inst now lease r)" "sl_Status (claim_row inst now lease r) = SlotClaimed"
  using assms by (auto simp: row_ok_def claimable_def claim_row_def split: SlotStatus.splits option.splits)

lemma slots_ok_row: "slots_ok lease db \<Longrightarrow> r \<in> set (sd_slots db) \<Longrightarrow> row_ok lease r"
  by (simp add: slots_ok_def list_all_iff)

lemma ClaimDue_ok:
  assumes ok: "slots_ok lease db"
  shows "slots_ok lease (snd (ClaimDue inst now lease limit db))"
    and "list_all (\<lambda>q. row_ok lease q \<and> sl_Status q = SlotClaimed) (fst (ClaimDue inst now lease limit db))"
proof -
  have d: "distinct (map sl_ID (sd_slots db))" using ok by (simp add: slots_ok_def)
  have c: "row_ok lease (claim_row inst now lease r)" "sl_Status (claim_row inst now lease r) = SlotClaimed"
    if "r \<in> set (chosen_rows now limit db)" for r
  proof -
    have "r \<in> set (sd_slots db)" "claimable now r" using that chosen_rows_sub [of now limit db] by auto
    then show "row_ok lease (claim_row inst now lease r)" "sl_Status (claim_row inst now lease r) = SlotClaimed"
      using claim_row_ok slots_ok_row [OF ok] by blast+
  qed
  show "slots_ok lease (snd (ClaimDue inst now lease limit db))"
    unfolding ClaimDue_eq [OF d] snd_conv by (rule slots_ok_update [OF ok]) (simp_all add: slot_upd c)
  show "list_all (\<lambda>q. row_ok lease q \<and> sl_Status q = SlotClaimed) (fst (ClaimDue inst now lease limit db))"
    unfolding ClaimDue_eq [OF d] fst_conv by (simp add: list_all_iff c)
qed

lemma Complete_ok: "slots_ok lease db \<Longrightarrow> slots_ok lease (Complete i r db)"
  unfolding Complete_def by (rule slots_ok_update) (auto simp: slot_key_def row_ok_def slots_ok_def list_all_iff)

lemma Fail_ok:
  assumes "slots_ok lease db" "0 \<le> a" "a < MaxAttempts"
  shows "slots_ok lease (Fail i r (a + 1) (if a + 1 < MaxAttempts then Some t else None) db)"
  unfolding Fail_def by (rule slots_ok_update) (use assms in \<open>auto simp: slot_key_def row_ok_def\<close>)

lemma Finish_slots [simp]: "sd_slots (Finish t i st c m d n db) = sd_slots db"
  by (simp add: Finish_def)

lemma finish_run_slots [simp]: "sd_slots (finish_run cfg ctx start ended t r res db) = sd_slots db"
  by (simp add: finish_run_def split: sum.split)

lemma start_run_slots: "start_run ids cfg ctx start q db = (res, db') \<Longrightarrow> sd_slots db' = sd_slots db"
  by (auto simp: start_run_def Let_def Run_def Start_def split: if_splits prod.splits sum.splits option.splits)

lemma slots_ok_cong: "sd_slots db' = sd_slots db \<Longrightarrow> slots_ok lease db' = slots_ok lease db"
  by (simp add: slots_ok_def)

lemma close_slot_ok:
  assumes "slots_ok lease db" "row_ok lease q" "sl_Status q = SlotClaimed"
  shows "slots_ok lease (close_slot cfg c clk t q r res db)"
proof (cases res)
  case (Inl e)
  have "0 \<le> sl_Attempts q" "sl_Attempts q < MaxAttempts" using assms by (auto simp: row_ok_def)
  then show ?thesis using assms(1) by (simp add: close_slot_def Inl Let_def Fail_ok)
qed (use assms in \<open>simp add: close_slot_def Complete_ok\<close>)


section \<open>Flights\<close>

lemma set_drop_nth: "set (drop_nth n xs) \<subseteq> set xs"
  by (auto simp: drop_nth_def dest: in_set_takeD in_set_dropD)

lemma distinct_filter_weaken:
  assumes "distinct (map g (filter P xs))" "\<And>x. x \<in> set xs \<Longrightarrow> Q x \<Longrightarrow> P x"
  shows "distinct (map g (filter Q xs))"
proof -
  have "filter Q xs = filter Q (filter P xs)" using assms(2) by (auto intro: filter_cong)
  then show ?thesis using assms(1) by (metis distinct_map_filter)
qed

lemma drop_nth_split:
  assumes "n < length xs"
  obtains as x bs where "xs = as @ x # bs" "xs ! n = x" "drop_nth n xs = as @ bs" "\<forall>y. xs[n := y] = as @ y # bs"
  using assms by (auto simp: drop_nth_def upd_conv_take_nth_drop intro: that [OF id_take_nth_drop])

lemma distinct_filter_drop:
  assumes "distinct (map g (filter P xs))"
  shows "distinct (map g (filter P (drop_nth n xs)))"
proof (cases "n < length xs")
  case True
  then obtain as x bs where "xs = as @ x # bs" "drop_nth n xs = as @ bs" by (rule drop_nth_split)
  with assms show ?thesis by (simp split: if_splits)
qed (use assms in \<open>simp add: drop_nth_def\<close>)

lemma distinct_filter_other:
  assumes "distinct (map g (filter P xs))" "n < length xs" "P (xs ! n)" "f \<in> set (drop_nth n xs)" "P f"
  shows "g f \<noteq> g (xs ! n)"
proof -
  obtain as x bs where s: "xs = as @ x # bs" "xs ! n = x" "drop_nth n xs = as @ bs" using assms(2) by (rule drop_nth_split)
  have "P x" using assms(3) by (simp only: s(2))
  have "distinct (map g (filter P as @ x # filter P bs))"
    using assms(1) \<open>P x\<close> by (simp only: s(1) filter_append filter.simps if_True)
  then have n: "g x \<notin> set (map g (filter P as @ filter P bs))" by simp
  have "f \<in> set (filter P as @ filter P bs)" using assms(4,5) by (simp only: s(3) set_append set_filter) blast
  then have "g f \<in> set (map g (filter P as @ filter P bs))" unfolding set_map by (rule imageI)
  with n show ?thesis unfolding s(2) by metis
qed

lemma distinct_filter_upd:
  assumes "distinct (map g (filter P xs))" "g y = g (xs ! n)" "P y \<Longrightarrow> P (xs ! n)" "n < length xs"
  shows "distinct (map g (filter P (xs[n := y])))"
proof -
  obtain as x bs where s: "xs = as @ x # bs" "xs ! n = x" "drop_nth n xs = as @ bs" "\<forall>z. xs[n := z] = as @ z # bs"
    using assms(4) by (rule drop_nth_split)
  have x: "g y = g x" "P y \<Longrightarrow> P x" using assms(2,3) by (simp_all only: s(2))
  have "distinct (map g (filter P (as @ x # bs)))" using assms(1) by (simp only: s(1))
  with x show ?thesis unfolding s(4) [rule_format] by (cases "P y") (simp_all split: if_splits)
qed

text \<open>A flight can still write its slot: it may yet begin, or its context has not expired.\<close>

definition may_write :: "SchedConfig \<Rightarrow> duration \<Rightarrow> instant \<Rightarrow> flight \<Rightarrow> bool" where
  "may_write cfg W now f = (case fl_phase f of
      Waiting \<Rightarrow> now \<le> claimed_at f + W
    | Running r c \<Rightarrow> in_ctx cfg c now
    | Closing r c res \<Rightarrow> in_ctx cfg c now)"

definition ctx_ok :: "duration \<Rightarrow> flight \<Rightarrow> bool" where
  "ctx_ok W f = (case fl_phase f of Waiting \<Rightarrow> True | Running r c \<Rightarrow> c \<le> claimed_at f + W | Closing r c res \<Rightarrow> c \<le> claimed_at f + W)"

lemma may_write_mono: "may_write cfg W t f \<Longrightarrow> t' \<le> t \<Longrightarrow> may_write cfg W t' f"
  by (auto simp: may_write_def in_ctx_def split: phase.splits)

definition sys_ok :: "SchedConfig \<Rightarrow> duration \<Rightarrow> sched_sys \<Rightarrow> bool" where
  "sys_ok cfg W s \<longleftrightarrow> slots_ok (sc_LeaseDuration cfg) (sy_db s) \<and>
     (\<forall>f \<in> set (sy_flights s). flight_ok (sc_LeaseDuration cfg) f \<and> ctx_ok W f)"

lemma sys_okI:
  assumes "slots_ok (sc_LeaseDuration cfg) (sy_db s)"
    and "\<And>f. f \<in> set (sy_flights s) \<Longrightarrow> flight_ok (sc_LeaseDuration cfg) f \<and> ctx_ok W f"
  shows "sys_ok cfg W s"
  using assms by (simp add: sys_ok_def)

lemma claimDue_parts:
  "claimDue cfg now db = ((slots, missed), db') \<Longrightarrow>
    ClaimDue (sc_InstanceID cfg) now (sc_LeaseDuration cfg) (nat (sc_ClaimBatch cfg)) db = (slots, db')"
  by (auto simp: claimDue_def split: prod.splits)

text \<open>The shape of every step, read off \<open>act\<close>.\<close>

lemma act_cases:
  assumes "act ids cfg W s a = Some s'"
  obtains
    (generate) cat t where "a = AGenerate cat t" "sy_now s \<le> t"
      "s' = s\<lparr>sy_now := t, sy_db := snd (generateSlots ids cfg cat t (sy_db s))\<rparr>"
  | (claim) inst t slots db' where "a = AClaim inst t" "sy_now s \<le> t"
      "ClaimDue inst t (sc_LeaseDuration cfg) (nat (sc_ClaimBatch cfg)) (sy_db s) = (slots, db')"
      "s' = s\<lparr>sy_now := t, sy_db := db', sy_flights := sy_flights s @ map (\<lambda>q. \<lparr>fl_slot = q, fl_phase = Waiting\<rparr>) slots\<rparr>"
  | (start) n t r db' where "a = ABegin n t" "sy_now s \<le> t" "n < length (sy_flights s)"
      "fl_phase (sy_flights s ! n) = Waiting" "t \<le> claimed_at (sy_flights s ! n) + W" "sd_slots db' = sd_slots (sy_db s)"
      "s' = s\<lparr>sy_now := t, sy_db := db', sy_flights := (sy_flights s)[n := (sy_flights s ! n)\<lparr>fl_phase := Running r t\<rparr>]\<rparr>"
  | (finish) n t r c res db' where "sy_now s \<le> t" "n < length (sy_flights s)"
      "fl_phase (sy_flights s ! n) = Running r c" "sd_slots db' = sd_slots (sy_db s)"
      "s' = s\<lparr>sy_now := t, sy_db := db', sy_flights := (sy_flights s)[n := (sy_flights s ! n)\<lparr>fl_phase := Closing r c res\<rparr>]\<rparr>"
  | (close) n clk t r c res where "sy_now s \<le> t" "n < length (sy_flights s)"
      "fl_phase (sy_flights s ! n) = Closing r c res"
      "s' = s\<lparr>sy_now := t, sy_db := close_slot cfg c clk t (fl_slot (sy_flights s ! n)) r res (sy_db s),
        sy_flights := drop_nth n (sy_flights s)\<rparr>"
  | (stop) n t db' where "sy_now s \<le> t" "sd_slots db' = sd_slots (sy_db s)"
      "s' = s\<lparr>sy_now := t, sy_db := db', sy_flights := drop_nth n (sy_flights s)\<rparr>"
proof (cases a)
  case (AGenerate cat t)
  with assms show thesis by (intro generate) (auto split: if_splits)
next
  case (AClaim inst t)
  obtain slots missed db' where c: "claimDue (cfg\<lparr>sc_InstanceID := inst\<rparr>) t (sy_db s) = ((slots, missed), db')"
    by (metis prod.exhaust)
  with assms AClaim claimDue_parts [OF c] show thesis by (intro claim) (auto split: if_splits)
next
  case (ABegin n t)
  obtain res db' where r: "start_run ids cfg t t (fl_slot (sy_flights s ! n)) (sy_db s) = (res, db')" by (rule prod.exhaust)
  with assms ABegin start_run_slots [OF r] show thesis
    by (cases res) (auto simp: begin_flight_def split: if_splits intro: start stop)
next
  case (AFinish n ended t res)
  with assms obtain r c where "fl_phase (sy_flights s ! n) = Running r c" "sy_now s \<le> t" "n < length (sy_flights s)"
    "s' = s\<lparr>sy_now := t, sy_db := finish_run cfg c c ended t r res (sy_db s),
      sy_flights := (sy_flights s)[n := (sy_flights s ! n)\<lparr>fl_phase := Closing r c res\<rparr>]\<rparr>"
    by (auto split: if_splits phase.splits)
  then show thesis by (intro finish [OF _ _ _ finish_run_slots])
next
  case (AClose n clk t)
  with assms obtain r c res where "fl_phase (sy_flights s ! n) = Closing r c res" "sy_now s \<le> t" "n < length (sy_flights s)"
    "s' = s\<lparr>sy_now := t, sy_db := close_slot cfg c clk t (fl_slot (sy_flights s ! n)) r res (sy_db s),
      sy_flights := drop_nth n (sy_flights s)\<rparr>"
    by (auto split: if_splits phase.splits)
  then show thesis by (intro close)
next
  case (AStop n)
  with assms show thesis by (intro stop [of "sy_now s" "sy_db s" n]) auto
qed

lemma flights_upd:
  "f \<in> set (xs[n := y]) \<Longrightarrow> f = y \<or> f \<in> set xs"
  using set_update_subset_insert [of xs n y] by blast

lemma sys_ok_upd:
  assumes "sys_ok cfg W s" "sd_slots db' = sd_slots (sy_db s)" "n < length (sy_flights s)"
    and "ctx_ok W ((sy_flights s ! n)\<lparr>fl_phase := p\<rparr>)"
  shows "sys_ok cfg W (s\<lparr>sy_now := t, sy_db := db', sy_flights := (sy_flights s)[n := (sy_flights s ! n)\<lparr>fl_phase := p\<rparr>]\<rparr>)"
proof (rule sys_okI)
  show "slots_ok (sc_LeaseDuration cfg) (sy_db (s\<lparr>sy_now := t, sy_db := db',
      sy_flights := (sy_flights s)[n := (sy_flights s ! n)\<lparr>fl_phase := p\<rparr>]\<rparr>))"
    using assms(1) slots_ok_cong [OF assms(2)] by (simp add: sys_ok_def)
  fix f assume "f \<in> set (sy_flights (s\<lparr>sy_now := t, sy_db := db', sy_flights := (sy_flights s)[n := (sy_flights s ! n)\<lparr>fl_phase := p\<rparr>]\<rparr>))"
  then consider "f = (sy_flights s ! n)\<lparr>fl_phase := p\<rparr>" | "f \<in> set (sy_flights s)" by (auto dest: flights_upd)
  then show "flight_ok (sc_LeaseDuration cfg) f \<and> ctx_ok W f"
  proof cases
    case 1
    have "flight_ok (sc_LeaseDuration cfg) (sy_flights s ! n)" using assms(1,3) by (simp add: sys_ok_def)
    then show ?thesis unfolding 1 using assms(4) by (simp add: flight_ok_def)
  qed (use assms(1) in \<open>simp add: sys_ok_def\<close>)
qed

lemma act_sys_ok:
  assumes ok: "sys_ok cfg W s" and step: "act ids cfg W s a = Some s'"
  shows "sys_ok cfg W s'"
proof -
  let ?L = "sc_LeaseDuration cfg"
  have S: "slots_ok ?L (sy_db s)" and F: "\<And>f. f \<in> set (sy_flights s) \<Longrightarrow> flight_ok ?L f \<and> ctx_ok W f"
    using ok by (simp_all add: sys_ok_def)
  have D: "\<And>f n. f \<in> set (drop_nth n (sy_flights s)) \<Longrightarrow> flight_ok ?L f \<and> ctx_ok W f"
    by (rule F, erule subsetD [OF set_drop_nth])
  from step show ?thesis
  proof (cases rule: act_cases)
    case (generate cat t)
    show ?thesis unfolding generate(3) sys_ok_def using generateSlots_ok [OF S] F by simp
  next
    case (claim inst t slots db')
    have "slots_ok ?L db'" using ClaimDue_ok(1) [OF S, of inst t "nat (sc_ClaimBatch cfg)"] unfolding claim(3) by simp
    moreover have "flight_ok ?L \<lparr>fl_slot = q, fl_phase = Waiting\<rparr> \<and> ctx_ok W \<lparr>fl_slot = q, fl_phase = Waiting\<rparr>"
      if "q \<in> set slots" for q
      using ClaimDue_ok(2) [OF S, of inst t "nat (sc_ClaimBatch cfg)"] that unfolding claim(3)
      by (simp add: list_all_iff flight_ok_def ctx_ok_def)
    ultimately show ?thesis unfolding claim(4) sys_ok_def using F by auto
  next
    case (start n t r db')
    show ?thesis unfolding start(7)
      by (rule sys_ok_upd [OF ok start(6,3)]) (use start(5) in \<open>simp add: ctx_ok_def claimed_at_def\<close>)
  next
    case (finish n t r c res db')
    have "ctx_ok W (sy_flights s ! n)" using F finish(2) by simp
    with finish(3) show ?thesis unfolding finish(5)
      by (intro sys_ok_upd [OF ok finish(4,2)]) (simp add: ctx_ok_def claimed_at_def)
  next
    case (close n clk t r c res)
    have "sy_flights s ! n \<in> set (sy_flights s)" using close(2) by simp
    from F [OF this] have "flight_ok ?L (sy_flights s ! n)" by simp
    then have "slots_ok ?L (close_slot cfg c clk t (fl_slot (sy_flights s ! n)) r res (sy_db s))"
      unfolding flight_ok_def by (intro close_slot_ok [OF S]) simp_all
    then show ?thesis unfolding close(4) sys_ok_def using D by simp
  next
    case (stop n t db')
    show ?thesis unfolding stop(3) sys_ok_def using S D slots_ok_cong [OF stop(2)] by simp
  qed
qed

lemma reach_sys_ok: "sched_reach ids cfg W s \<Longrightarrow> sys_ok cfg W s"
proof (induction rule: sched_reach.induct)
  case (reach_init t)
  show ?case by (simp add: sys_ok_def sched_init_def slots_ok_def)
qed (rule act_sys_ok)
section \<open>Exclusion by leases\<close>

text \<open>
  While a flight can write, the table holds the very row it claimed, and no other flight of that slot can.
\<close>

definition excl_ok :: "SchedConfig \<Rightarrow> duration \<Rightarrow> sched_sys \<Rightarrow> bool" where
  "excl_ok cfg W s \<longleftrightarrow>
     (\<forall>f \<in> set (sy_flights s). may_write cfg W (sy_now s) f \<longrightarrow> fl_slot f \<in> set (sd_slots (sy_db s))) \<and>
     distinct (map (sl_ID \<circ> fl_slot) (filter (may_write cfg W (sy_now s)) (sy_flights s)))"

lemma generateSlots_mono: "set (sd_slots db) \<subseteq> set (sd_slots (snd (generateSlots ids cfg cat now db)))"
proof -
  have G: "set (sd_slots db) \<subseteq> set (sd_slots (snd (Generate cs g db)))" for cs g db
    by (auto simp: Generate_def)
  have A: "set (sd_slots db) \<subseteq> set (sd_slots (snd (generate_all ids cs gs db)))" for cs gs
  proof (induction gs arbitrary: db)
    case (Cons g gs)
    obtain r db' where e: "Generate cs (g (ids (sd_drawn db))) (db\<lparr>sd_drawn := sd_drawn db + 1\<rparr>) = (r, db')"
      by (rule prod.exhaust)
    have "set (sd_slots db) \<subseteq> set (sd_slots db')"
      using G [of "db\<lparr>sd_drawn := sd_drawn db + 1\<rparr>" cs "g (ids (sd_drawn db))"] unfolding e by simp
    with Cons.IH [of db'] show ?case unfolding generate_all.simps e by (cases r) auto
  qed simp
  have "set (sd_slots db) \<subseteq> set (sd_slots (snd (Run (generate_all ids cs gs) db)))" for cs gs
    by (rule Run_preserves [where P = "\<lambda>d. set (sd_slots db) \<subseteq> set (sd_slots d)"]) (use A [of cs gs] in \<open>simp_all\<close>)
  then show ?thesis by (simp add: generateSlots_def Let_def)
qed

lemma leased_not_claimable:
  assumes "flight_ok (sc_LeaseDuration cfg) f" "ctx_ok W f" "may_write cfg W t f"
    and "0 < sc_JobTimeout cfg" "W + sc_JobTimeout cfg \<le> sc_LeaseDuration cfg"
  shows "\<not> claimable t (fl_slot f)"
proof -
  obtain c where c: "sl_Status (fl_slot f) = SlotClaimed" "sl_ClaimedAt (fl_slot f) = Some c"
      "sl_LeaseExpiresAt (fl_slot f) = Some (c + sc_LeaseDuration cfg)"
    using assms(1) by (auto simp: flight_ok_def row_ok_def split: option.splits)
  then have "t \<le> c + sc_LeaseDuration cfg"
    using assms(2-) by (auto simp: ctx_ok_def may_write_def in_ctx_def claimed_at_def split: phase.splits)
  with c show ?thesis by (simp add: claimable_def)
qed

lemma close_slot_other:
  assumes "r \<in> set (sd_slots db)" "sl_ID r \<noteq> sl_ID q \<or> \<not> in_ctx cfg c t"
  shows "r \<in> set (sd_slots (close_slot cfg c clk t q i res db))"
  using assms by (auto simp: close_slot_def Complete_def Fail_def Let_def set_update_where split: sum.splits)

lemma excl_okD:
  assumes "excl_ok cfg W s"
  shows "f \<in> set (sy_flights s) \<Longrightarrow> may_write cfg W (sy_now s) f \<Longrightarrow> fl_slot f \<in> set (sd_slots (sy_db s))"
    and "distinct (map (sl_ID \<circ> fl_slot) (filter (may_write cfg W (sy_now s)) (sy_flights s)))"
  using assms by (simp_all add: excl_ok_def)

text \<open>Steps that keep the rows and touch at most the phase of one flight, or end one.\<close>

lemma excl_ok_later:
  assumes "excl_ok cfg W s" "sy_now s \<le> t"
  shows "f \<in> set (sy_flights s) \<Longrightarrow> may_write cfg W t f \<Longrightarrow> fl_slot f \<in> set (sd_slots (sy_db s))"
    and "distinct (map (sl_ID \<circ> fl_slot) (filter (may_write cfg W t) (sy_flights s)))"
  using excl_okD [OF assms(1)] may_write_mono [OF _ assms(2)]
  by (blast, intro distinct_filter_weaken [OF excl_okD(2) [OF assms(1)]])

lemma excl_ok_upd:
  assumes "excl_ok cfg W s" "sy_now s \<le> t" "sd_slots db' = sd_slots (sy_db s)" "n < length (sy_flights s)"
    and live: "may_write cfg W t ((sy_flights s ! n)\<lparr>fl_phase := p\<rparr>) \<Longrightarrow> may_write cfg W t (sy_flights s ! n)"
  shows "excl_ok cfg W (s\<lparr>sy_now := t, sy_db := db', sy_flights := (sy_flights s)[n := (sy_flights s ! n)\<lparr>fl_phase := p\<rparr>]\<rparr>)"
proof -
  let ?f = "(sy_flights s ! n)\<lparr>fl_phase := p\<rparr>"
  have mem: "sy_flights s ! n \<in> set (sy_flights s)" using assms(4) by simp
  have "fl_slot f \<in> set (sd_slots (sy_db s))" if "f \<in> set ((sy_flights s)[n := ?f])" "may_write cfg W t f" for f
    using flights_upd [OF that(1)]
  proof
    assume "f = ?f"
    with that(2) live excl_ok_later(1) [OF assms(1,2) mem] show ?thesis by simp
  qed (rule excl_ok_later(1) [OF assms(1,2) _ that(2)])
  moreover have "distinct (map (sl_ID \<circ> fl_slot) (filter (may_write cfg W t) ((sy_flights s)[n := ?f])))"
    by (rule distinct_filter_upd [OF excl_ok_later(2) [OF assms(1,2)] _ live assms(4)]) simp_all
  ultimately show ?thesis unfolding excl_ok_def by (simp add: assms(3))
qed

lemma excl_ok_drop:
  assumes "excl_ok cfg W s" "sy_now s \<le> t"
    and rows: "\<And>f. f \<in> set (drop_nth n (sy_flights s)) \<Longrightarrow> may_write cfg W t f \<Longrightarrow> fl_slot f \<in> set (sd_slots db')"
  shows "excl_ok cfg W (s\<lparr>sy_now := t, sy_db := db', sy_flights := drop_nth n (sy_flights s)\<rparr>)"
  using rows distinct_filter_drop [OF excl_ok_later(2) [OF assms(1,2)]] by (simp add: excl_ok_def)

lemma excl_ok_claim:
  assumes ok: "sys_ok cfg W s" and ex: "excl_ok cfg W s" and t: "sy_now s \<le> t"
    and lease: "0 < sc_JobTimeout cfg" "W + sc_JobTimeout cfg \<le> sc_LeaseDuration cfg"
    and claim: "ClaimDue inst t (sc_LeaseDuration cfg) k (sy_db s) = (slots, db')"
  shows "excl_ok cfg W (s\<lparr>sy_now := t, sy_db := db',
    sy_flights := sy_flights s @ map (\<lambda>q. \<lparr>fl_slot = q, fl_phase = Waiting\<rparr>) slots\<rparr>)"
proof -
  let ?C = "chosen_rows t k (sy_db s)" and ?cl = "claim_row inst t (sc_LeaseDuration cfg)"
  have d: "distinct (map sl_ID (sd_slots (sy_db s)))" using ok by (simp add: sys_ok_def slots_ok_def)
  have slots: "slots = map ?cl ?C" and rows: "sd_slots db' = update_where (\<lambda>r. r \<in> set ?C) ?cl (sd_slots (sy_db s))"
    using claim unfolding ClaimDue_eq [OF d] by auto
  have C: "r \<in> set (sd_slots (sy_db s))" "claimable t r" if "r \<in> set ?C" for r
    using that chosen_rows_sub by blast+
  have old: "fl_slot f \<in> set (sd_slots (sy_db s)) \<and> fl_slot f \<notin> set ?C"
    if "f \<in> set (sy_flights s)" "may_write cfg W t f" for f
    using excl_ok_later(1) [OF ex t that] leased_not_claimable [OF _ _ that(2) lease] ok that(1) C
    unfolding sys_ok_def by blast
  have "distinct (map (sl_ID \<circ> fl_slot) (filter (may_write cfg W t) (map (\<lambda>q. \<lparr>fl_slot = q, fl_phase = Waiting\<rparr>) slots)))"
  proof (rule distinct_map_filter)
    have "distinct (map sl_ID ?C)"
      unfolding chosen_rows_def take_map [symmetric] by (rule distinct_take) (use d in \<open>simp add: distinct_map inj_on_def\<close>)
    then show "distinct (map (sl_ID \<circ> fl_slot) (map (\<lambda>q. \<lparr>fl_slot = q, fl_phase = Waiting\<rparr>) slots))"
      by (simp add: slots comp_def slot_upd)
  qed
  moreover have "sl_ID (fl_slot f) \<noteq> sl_ID q" if f: "f \<in> set (sy_flights s)" "may_write cfg W t f" and q: "q \<in> set slots" for f q
  proof -
    obtain r where "r \<in> set ?C" "q = ?cl r" using q by (auto simp: slots)
    with old [OF f] C unique_row [OF d] show ?thesis by (metis key_claim(1))
  qed
  moreover have "q \<in> set (sd_slots db')" if "q \<in> set slots" for q
    using that C unfolding slots rows set_update_where by auto
  moreover have "fl_slot f \<in> set (sd_slots db')" if "f \<in> set (sy_flights s)" "may_write cfg W t f" for f
    using old [OF that] unfolding rows set_update_where by simp
  ultimately show ?thesis using excl_ok_later(2) [OF ex t] by (auto simp: excl_ok_def)
qed

lemma act_excl_ok:
  assumes ok: "sys_ok cfg W s" and ex: "excl_ok cfg W s" and step: "act ids cfg W s a = Some s'"
    and lease: "0 < sc_JobTimeout cfg" "W + sc_JobTimeout cfg \<le> sc_LeaseDuration cfg"
  shows "excl_ok cfg W s'"
  using step
proof (cases rule: act_cases)
  case (generate cat t)
  show ?thesis unfolding generate(3) excl_ok_def
    using excl_ok_later [OF ex generate(2)] generateSlots_mono by (simp add: subset_iff)
next
  case (claim inst t slots db')
  show ?thesis unfolding claim(4) by (rule excl_ok_claim [OF ok ex claim(2) lease claim(3)])
next
  case (start n t r db')
  show ?thesis unfolding start(7)
    by (rule excl_ok_upd [OF ex start(2,6,3)]) (use start(4,5) in \<open>simp add: may_write_def\<close>)
next
  case (finish n t r c res db')
  show ?thesis unfolding finish(5)
    by (rule excl_ok_upd [OF ex finish(1,4,2)]) (use finish(3) in \<open>simp add: may_write_def\<close>)
next
  case (close n clk t r c res)
  let ?q = "sy_flights s ! n"
  show ?thesis unfolding close(4)
  proof (rule excl_ok_drop [OF ex close(1)])
    fix f assume f: "f \<in> set (drop_nth n (sy_flights s))" "may_write cfg W t f"
    have "f \<in> set (sy_flights s)" using f(1) by (rule subsetD [OF set_drop_nth])
    then have row: "fl_slot f \<in> set (sd_slots (sy_db s))" by (rule excl_ok_later(1) [OF ex close(1) _ f(2)])
    have "sl_ID (fl_slot f) \<noteq> sl_ID (fl_slot ?q)" if "in_ctx cfg c t"
    proof -
      have "may_write cfg W t ?q" using that close(3) by (simp add: may_write_def)
      from distinct_filter_other [OF excl_ok_later(2) [OF ex close(1)] close(2) this f] show ?thesis by simp
    qed
    then show "fl_slot f \<in> set (sd_slots (close_slot cfg c clk t (fl_slot ?q) r res (sy_db s)))"
      by (intro close_slot_other [OF row]) blast
  qed
next
  case (stop n t db')
  show ?thesis unfolding stop(3)
    by (rule excl_ok_drop [OF ex stop(1)]) (use excl_ok_later(1) [OF ex stop(1)] stop(2) subsetD [OF set_drop_nth] in metis)
qed

lemma reach_excl_ok:
  assumes "sched_reach ids cfg W s" "0 < sc_JobTimeout cfg" "W + sc_JobTimeout cfg \<le> sc_LeaseDuration cfg"
  shows "excl_ok cfg W s"
  using assms(1)
proof (induction rule: sched_reach.induct)
  case (reach_init t)
  show ?case by (simp add: excl_ok_def sched_init_def)
next
  case (reach_act s a s')
  show ?case by (rule act_excl_ok [OF reach_sys_ok [OF reach_act(1)] reach_act(3,2) assms(2,3)])
qed

definition row_after :: "Slot \<Rightarrow> Slot \<Rightarrow> bool" where
  "row_after r r' \<longleftrightarrow> sl_ID r' = sl_ID r \<and> slot_key r' = slot_key r \<and> sl_Attempts r \<le> sl_Attempts r' \<and>
     sl_Attempts r' \<le> sl_Attempts r + 1 \<and> (sl_Status r \<in> {SlotCompleted, SlotFailed} \<longrightarrow> r' = r)"

lemma row_after_refl [simp]: "row_after r r"
  by (simp add: row_after_def)

lemma row_after_claim: "claimable t r \<Longrightarrow> row_after r (claim_row i t l r)"
  by (auto simp: row_after_def claim_row_def slot_key_def claimable_def)

lemma row_after_update:
  assumes "r \<in> set rows" "c r \<Longrightarrow> row_after r (f r)"
  shows "\<exists>r' \<in> set (update_where c f rows). row_after r r'"
proof (cases "c r")
  case True
  with assms show ?thesis by (intro bexI [of _ "f r"]) (auto simp: set_update_where)
next
  case False
  with assms show ?thesis by (intro bexI [of _ r]) (auto simp: set_update_where)
qed

lemma close_slot_own:
  assumes "q \<in> set (sd_slots db)" "sl_Status q = SlotClaimed" "in_ctx cfg c t"
  shows "\<exists>r' \<in> set (sd_slots (close_slot cfg c clk t q i res db)). row_after q r'"
proof (cases res)
  case (Inl e)
  have "sd_slots (Fail i' j a n d) = update_where (\<lambda>s. sl_ID s = i') (\<lambda>s. s\<lparr>sl_Status := (if n \<noteq> None then SlotDue else SlotFailed),
      sl_Attempts := a, sl_NextRetryAt := n, sl_ScheduleRunID := Some j, sl_ClaimedBy := [], sl_ClaimedAt := None,
      sl_LeaseExpiresAt := None\<rparr>) (sd_slots d)" for i' j a n d
    by (simp add: Fail_def)
  then show ?thesis unfolding close_slot_def Inl Let_def using assms
    by (simp only: not_True_eq_False if_False sum.case) (rule row_after_update, assumption, simp add: row_after_def slot_key_def)
next
  case (Inr n)
  have "sd_slots (Complete i' j d) = update_where (\<lambda>s. sl_ID s = i')
      (\<lambda>s. s\<lparr>sl_Status := SlotCompleted, sl_ScheduleRunID := Some j\<rparr>) (sd_slots d)" for i' j d
    by (simp add: Complete_def)
  then show ?thesis unfolding close_slot_def Inr using assms
    by (simp only: not_True_eq_False if_False sum.case) (rule row_after_update, assumption, simp add: row_after_def slot_key_def)
qed

lemma step_row:
  assumes ok: "sys_ok cfg W s" and ex: "excl_ok cfg W s" and step: "act ids cfg W s a = Some s'"
    and r: "r \<in> set (sd_slots (sy_db s))"
  shows "\<exists>r' \<in> set (sd_slots (sy_db s')). row_after r r'"
  using step
proof (cases rule: act_cases)
  case (generate cat t)
  have "r \<in> set (sd_slots (sy_db s'))" using r generateSlots_mono unfolding generate(3) by (simp add: subset_iff)
  then show ?thesis by (intro bexI [of _ r]) simp_all
next
  case (claim inst t slots db')
  have d: "distinct (map sl_ID (sd_slots (sy_db s)))" using ok by (simp add: sys_ok_def slots_ok_def)
  from claim(3) have "sd_slots db' = update_where (\<lambda>r. r \<in> set (chosen_rows t (nat (sc_ClaimBatch cfg)) (sy_db s)))
      (claim_row inst t (sc_LeaseDuration cfg)) (sd_slots (sy_db s))" unfolding ClaimDue_eq [OF d] by auto
  moreover have "r \<in> set (chosen_rows t (nat (sc_ClaimBatch cfg)) (sy_db s)) \<Longrightarrow> claimable t r"
    using chosen_rows_sub by blast
  ultimately show ?thesis unfolding claim(4) using row_after_update [OF r] row_after_claim by simp
next
  case (close n clk t i c res)
  let ?q = "fl_slot (sy_flights s ! n)"
  show ?thesis
  proof (cases "sl_ID r = sl_ID ?q \<and> in_ctx cfg c t")
    case True
    have q: "sy_flights s ! n \<in> set (sy_flights s)" using close(2) by simp
    have "may_write cfg W t (sy_flights s ! n)" using True close(3) by (simp add: may_write_def)
    from excl_ok_later(1) [OF ex close(1) q this] have "?q \<in> set (sd_slots (sy_db s))" .
    have d: "distinct (map sl_ID (sd_slots (sy_db s)))" using ok by (simp add: sys_ok_def slots_ok_def)
    have "r = ?q" by (rule unique_row [OF d r \<open>?q \<in> set (sd_slots (sy_db s))\<close>]) (use True in simp)
    have "sl_Status ?q = SlotClaimed" using ok q by (simp add: sys_ok_def flight_ok_def)
    with close_slot_own [OF \<open>?q \<in> set (sd_slots (sy_db s))\<close>] True
    have "\<exists>r' \<in> set (sd_slots (close_slot cfg c clk t ?q i res (sy_db s))). row_after ?q r'" by blast
    then show ?thesis unfolding close(4) \<open>r = ?q\<close> by simp
  next
    case False
    then have "r \<in> set (sd_slots (sy_db s'))" unfolding close(4) using close_slot_other [OF r] by simp
    then show ?thesis by (intro bexI [of _ r]) simp_all
  qed
next
  case (start n t i db')
  show ?thesis unfolding start(7) using r start(6) by (intro bexI [of _ r]) simp_all
next
  case (finish n t i c res db')
  show ?thesis unfolding finish(5) using r finish(4) by (intro bexI [of _ r]) simp_all
next
  case (stop n t db')
  show ?thesis unfolding stop(3) using r stop(2) by (intro bexI [of _ r]) simp_all
qed


section \<open>Sample data\<close>

definition cfg_a :: ProviderConfiguration where
  "cfg_a = \<lparr>pc_ID = 5, pc_WorkspaceID = SystemWorkspaceID, pc_ProviderID = 6, pc_Status = StatusActive, pc_CredentialRef = [],
     pc_CollectionSchedule = DefaultSchedule, pc_AdapterVersion = [], pc_ValidationState = ''validated'', pc_CreatedAt = 0,
     pc_UpdatedAt = 0\<rparr>"

definition cat_a :: catalog_db where
  "cat_a = db_a\<lparr>db_locations := [loc_a\<lparr>lo_Status := StatusActive\<rparr>], db_configs := [cfg_a]\<rparr>"

definition sched_cfg :: SchedConfig where
  "sched_cfg = New ''worker'' \<lparr>sc_InstanceID = [], sc_Interval = 0, sc_LeaseDuration = 0, sc_MaxConcurrent = 0, sc_ClaimBatch = 1,
     sc_JobTimeout = 0, sc_DrainTimeout = 0, sc_MissedThreshold = 0, sc_ObservationConfigID = nil_uuid,
     sc_ObservationMinuteOffset = 5, sc_AnalysisConfigID = nil_uuid, sc_AnalysisMinuteOffsets = []\<rparr>"

definition seq_ids :: "nat \<Rightarrow> uuid" where "seq_ids n = word_of_int (int n + 1)"

section \<open>Correctness of the scheduler\<close>

text \<open>C25. The slot table stays well formed however the instances interleave: ids and slot keys are
  unique (a slot is never generated twice), attempts stay within 0 and \<open>MaxAttempts\<close>, a due slot is
  unclaimed and has attempts left, a claimed slot carries a lease of the configured length, a
  completed or failed slot names the run that ended it, a failed one has used up its attempts.\<close>

theorem slot_table_stays_well_formed:
  assumes "sched_reach ids cfg W s"
  shows "slots_ok (sc_LeaseDuration cfg) (sy_db s)"
  using reach_sys_ok [OF assms] by (simp add: sys_ok_def)

definition long_wait :: duration where "long_wait = 10 * Minute"
definition short_wait :: duration where "short_wait = 4 * Minute"

definition overlap_trace :: "sched_action list" where
  "overlap_trace = [AGenerate cat_a 0, AClaim ''a'' 0, AClaim ''b'' (5 * Minute + 1), ABegin 1 (5 * Minute + 1),
     AFinish 1 (5 * Minute + 2) (5 * Minute + 2) (Inr 24), AClose 1 (5 * Minute + 2) (5 * Minute + 2)]"

lemma overlap_trace_runs: "acts seq_ids sched_cfg long_wait (sched_init 0) overlap_trace \<noteq> None"
  by code_simp

theorem slot_table_stays_well_formed_witness:
  "slots_ok (sc_LeaseDuration sched_cfg) (sy_db (the (acts seq_ids sched_cfg long_wait (sched_init 0) overlap_trace)))"
proof -
  obtain s where s: "acts seq_ids sched_cfg long_wait (sched_init 0) overlap_trace = Some s"
    using overlap_trace_runs by blast
  from slot_table_stays_well_formed [OF acts_reach [OF s reach_init]] show ?thesis by (simp add: s)
qed

lemma acts_snoc:
  "acts ids cfg W s (as @ [a]) = (case acts ids cfg W s as of None \<Rightarrow> None | Some v \<Rightarrow> act ids cfg W v a)"
  by (induction as arbitrary: s) (auto split: option.splits)

lemma one_of_each:
  assumes "distinct (map g (filter P xs))"
  shows "length (filter (\<lambda>x. g x = k \<and> P x) xs) \<le> 1"
proof -
  have "map g (filter (\<lambda>x. g x = k) (filter P xs)) = replicate (length (filter (\<lambda>x. g x = k) (filter P xs))) k"
    by (induction xs) auto
  moreover have "distinct (map g (filter (\<lambda>x. g x = k) (filter P xs)))" by (rule distinct_map_filter [OF assms])
  ultimately have "distinct (replicate (length (filter (\<lambda>x. g x = k) (filter P xs))) k)" by metis
  then show ?thesis by (cases "length (filter (\<lambda>x. g x = k) (filter P xs))") (auto simp: distinct_conv_nth conj_commute split: nat.splits)
qed

text \<open>C1. Leases exclude each other. If every execution begins within \<open>W\<close> of its claim, and \<open>W\<close> and
  the job timeout together fit into the lease, then at every moment at most one execution of a slot
  can still write to it; and every step leaves a slot's identity alone, never lowers its
  attempts, adds at most one, and never changes a slot that has completed or failed.\<close>

theorem leases_exclude_concurrent_execution:
  assumes "sched_reach ids cfg W s" "act ids cfg W s a = Some s'"
    and "0 < sc_JobTimeout cfg" "W + sc_JobTimeout cfg \<le> sc_LeaseDuration cfg" "r \<in> set (sd_slots (sy_db s))"
  shows "length (filter (\<lambda>f. sl_ID (fl_slot f) = sl_ID r \<and> may_write cfg W (sy_now s) f) (sy_flights s)) \<le> 1 \<and>
    (\<exists>r' \<in> set (sd_slots (sy_db s')). row_after r r')"
proof
  note ex = reach_excl_ok [OF assms(1,3,4)]
  show "length (filter (\<lambda>f. sl_ID (fl_slot f) = sl_ID r \<and> may_write cfg W (sy_now s) f) (sy_flights s)) \<le> 1"
    using one_of_each [OF excl_okD(2) [OF ex], of "sl_ID r"] by simp
  show "\<exists>r' \<in> set (sd_slots (sy_db s')). row_after r r'"
    by (rule step_row [OF reach_sys_ok [OF assms(1)] ex assms(2,5)])
qed

definition lease_trace :: "sched_action list" where
  "lease_trace = [AGenerate cat_a 0, AClaim ''a'' 0, ABegin 0 Second, AFinish 0 Second Second (Inl (JobError ''down''))]"

definition last_action :: sched_action where "last_action = AClose 0 Second Second"

theorem leases_exclude_concurrent_execution_witness:
  "\<exists>s s' r. acts seq_ids sched_cfg short_wait (sched_init 0) lease_trace = Some s \<and>
     acts seq_ids sched_cfg short_wait (sched_init 0) (lease_trace @ [last_action]) = Some s' \<and>
     r \<in> set (sd_slots (sy_db s)) \<and>
     length (filter (\<lambda>f. sl_ID (fl_slot f) = sl_ID r \<and> may_write sched_cfg short_wait (sy_now s) f) (sy_flights s)) \<le> 1 \<and>
     (\<exists>r'. r' \<in> set (sd_slots (sy_db s')) \<and> row_after r r')"
proof -
  have "acts seq_ids sched_cfg short_wait (sched_init 0) (lease_trace @ [last_action]) \<noteq> None" by code_simp
  then obtain s s' where s: "acts seq_ids sched_cfg short_wait (sched_init 0) lease_trace = Some s"
    and s': "act seq_ids sched_cfg short_wait s last_action = Some s'"
    unfolding acts_snoc by (auto split: option.splits)
  have "map_option (\<lambda>s. sd_slots (sy_db s) \<noteq> []) (acts seq_ids sched_cfg short_wait (sched_init 0) lease_trace) = Some True"
    by code_simp
  then have r: "hd (sd_slots (sy_db s)) \<in> set (sd_slots (sy_db s))" by (simp add: s)
  have c: "0 < sc_JobTimeout sched_cfg" "short_wait + sc_JobTimeout sched_cfg \<le> sc_LeaseDuration sched_cfg"
    by code_simp+
  from leases_exclude_concurrent_execution [OF acts_reach [OF s reach_init] s' c r] r show ?thesis
    unfolding acts_snoc s Bex_def by (intro exI [of _ s] exI [of _ s'] exI [of _ "hd (sd_slots (sy_db s))"]) (simp add: s')
qed


subsection \<open>Generation\<close>

definition key_of :: "(uuid \<Rightarrow> Slot) \<Rightarrow> uuid \<times> string \<times> uuid \<times> instant" where
  "key_of g = slot_key (g nil_uuid)"

definition template :: "uuid list \<Rightarrow> (uuid \<Rightarrow> Slot) \<Rightarrow> bool" where
  "template configs g \<longleftrightarrow> (\<forall>i. sl_Status (g i) = SlotDue \<and> sl_ID (g i) = i \<and> slot_key (g i) = key_of g \<and>
     sl_ProviderConfigurationID (g i) \<in> set configs)"

lemma Generate_new:
  assumes "template configs g" "slot_key ` set (sd_slots db) = K" "i \<notin> sl_ID ` set (sd_slots db)"
  shows "fst (Generate configs (g i) db) = Inr ()"
    and "slot_key ` set (sd_slots (snd (Generate configs (g i) db))) = insert (key_of g) K"
    and "sl_ID ` set (sd_slots (snd (Generate configs (g i) db))) \<subseteq> insert i (sl_ID ` set (sd_slots db))"
    and "key_of g \<in> K \<Longrightarrow> snd (Generate configs (g i) db) = db"
    and "sd_drawn (snd (Generate configs (g i) db)) = sd_drawn db"
proof -
  have t: "slot_key (g i) = key_of g" "sl_ID (g i) = i" "sl_ProviderConfigurationID (g i) \<in> set configs"
    using assms(1) by (simp_all add: template_def)
  have k: "slot_key (s\<lparr>sl_ClaimedBy := a, sl_ClaimedAt := b, sl_LeaseExpiresAt := c, sl_Attempts := d,
      sl_NextRetryAt := e, sl_ScheduleRunID := f\<rparr>) = slot_key s" for s a b c d e f by (simp add: slot_key_def)
  have dup: "(\<exists>q \<in> set (sd_slots db). sl_ID q = i \<or> slot_key q = key_of g) \<longleftrightarrow> key_of g \<in> K"
    using assms(3) unfolding assms(2) [symmetric] by (auto intro: rev_image_eqI)
  show "fst (Generate configs (g i) db) = Inr ()" "key_of g \<in> K \<Longrightarrow> snd (Generate configs (g i) db) = db"
    "sd_drawn (snd (Generate configs (g i) db)) = sd_drawn db"
    by (simp_all add: Generate_def dup t)
  show "slot_key ` set (sd_slots (snd (Generate configs (g i) db))) = insert (key_of g) K"
    using assms(2) by (cases "key_of g \<in> K") (simp_all add: Generate_def dup t k insert_absorb)
  show "sl_ID ` set (sd_slots (snd (Generate configs (g i) db))) \<subseteq> insert i (sl_ID ` set (sd_slots db))"
    by (auto simp: Generate_def t)
qed

lemma generate_all_complete:
  assumes "list_all (template configs) gs" "fresh_ids ids (sd_drawn db) (length gs) (sl_ID ` set (sd_slots db))"
  shows "fst (generate_all ids configs gs db) = Inr () \<and>
    slot_key ` set (sd_slots (snd (generate_all ids configs gs db))) = slot_key ` set (sd_slots db) \<union> key_of ` set gs"
  using assms
proof (induction gs arbitrary: db)
  case (Cons g gs)
  let ?i = "ids (sd_drawn db)" and ?db = "db\<lparr>sd_drawn := sd_drawn db + 1\<rparr>"
  obtain r db' where e: "Generate configs (g ?i) ?db = (r, db')" by (rule prod.exhaust)
  have fresh: "?i \<notin> sl_ID ` set (sd_slots ?db)" using fresh_ids_head Cons.prems(2) by fastforce
  have g: "template configs g" "list_all (template configs) gs" using Cons.prems by simp_all
  note G = Generate_new [OF g(1) refl fresh, unfolded e fst_conv snd_conv]
  have "fresh_ids ids (sd_drawn db') (length gs) (sl_ID ` set (sd_slots db'))"
    using fresh_ids_step [of ids "sd_drawn db" "length gs" "sl_ID ` set (sd_slots db)"] Cons.prems(2) G(3,5) by simp
  moreover have "slot_key ` set (sd_slots db') = insert (key_of g) (slot_key ` set (sd_slots db))" using G(2) by simp
  ultimately show ?case using Cons.IH [OF g(2)] G(1) unfolding generate_all.simps e by simp
qed simp

text \<open>When every key is taken, generation is a success that changes no slot, whatever ids it draws.\<close>

lemma generate_all_taken:
  assumes "key_of ` set gs \<subseteq> slot_key ` set (sd_slots db)" "list_all (template configs) gs"
  shows "\<exists>n. generate_all ids configs gs db = (Inr (), db\<lparr>sd_drawn := n\<rparr>)"
  using assms
proof (induction gs arbitrary: db)
  case Nil
  show ?case by (intro exI [of _ "sd_drawn db"]) simp
next
  case (Cons g gs)
  let ?g = "g (ids (sd_drawn db))" and ?db = "db\<lparr>sd_drawn := sd_drawn db + 1\<rparr>"
  have "slot_key ?g = key_of g" using Cons.prems(2) by (simp add: template_def)
  moreover have "key_of g \<in> slot_key ` set (sd_slots db)" using Cons.prems(1) by simp
  ultimately have "\<exists>q \<in> set (sd_slots ?db). sl_ID q = sl_ID ?g \<or> slot_key q = slot_key ?g" by force
  then have e: "Generate configs ?g ?db = (Inr (), ?db)" unfolding Generate_def by (simp only: if_True)
  have "\<exists>n. generate_all ids configs gs ?db = (Inr (), ?db\<lparr>sd_drawn := n\<rparr>)" using Cons.prems by (intro Cons.IH) simp_all
  then show ?case unfolding generate_all.simps e by simp
qed

lemma window_slots_template:
  assumes "set (map pc_ID cs) \<subseteq> set configs"
    and "sc_ObservationConfigID cfg = nil_uuid \<or> sc_ObservationConfigID cfg \<in> set configs"
    and "sc_AnalysisConfigID cfg = nil_uuid \<or> sc_AnalysisConfigID cfg \<in> set configs"
  shows "list_all (template configs) (window_slots cfg now cs ls)"
  using assms by (auto simp: list_all_iff window_slots_def Let_def template_def new_slot_def key_of_def slot_key_def split: if_splits)

lemma key_of_new: "key_of (new_slot now c j l t) = (c, j, (case l of None \<Rightarrow> nil_uuid | Some i \<Rightarrow> i), t)"
  by (simp add: key_of_def new_slot_def slot_key_def)

lemma window_slots_hour:
  assumes "Truncate now' Hour = Truncate now Hour"
  shows "key_of ` set (window_slots cfg now' cs ls) = key_of ` set (window_slots cfg now cs ls)"
proof -
  have "map key_of (window_slots cfg now' cs ls) = map key_of (window_slots cfg now cs ls)"
    by (simp add: window_slots_def Let_def map_concat comp_def key_of_new assms)
  then show ?thesis by (metis set_map)
qed

lemma window_slots_forecast:
  assumes "c \<in> set cs" "Schedule_Valid (pc_CollectionSchedule c)" "l \<in> set ls"
    and "Truncate now Hour - Hour \<le> t" "t < Truncate now Hour + Hour" "t mod Hour = MinuteOffset (pc_CollectionSchedule c) * Minute"
  shows "(pc_ID c, JobForecastCollection, lo_ID l, t) \<in> key_of ` set (window_slots cfg now cs ls)"
proof (rule image_eqI)
  show "(pc_ID c, JobForecastCollection, lo_ID l, t) = key_of (new_slot now (pc_ID c) JobForecastCollection (Some (lo_ID l)) t)"
    by (simp add: key_of_new)
  have "t \<in> set (SlotTimes (pc_CollectionSchedule c) (Truncate now Hour - Hour) (Truncate now Hour + Hour))"
    using assms by (simp add: SlotTimes_mem)
  with assms(1,3) show "new_slot now (pc_ID c) JobForecastCollection (Some (lo_ID l)) t \<in> set (window_slots cfg now cs ls)"
    unfolding window_slots_def Let_def set_append by (intro UnI1) auto
qed

lemma unique_key:
  assumes "distinct (map g rows)" "k \<in> g ` set rows"
  shows "length (filter (\<lambda>r. g r = k) rows) = 1"
proof -
  obtain r where r: "r \<in> set rows" "g r = k" using assms(2) by blast
  then have "filter (\<lambda>x. g x = k) rows = filter (\<lambda>x. x = r) rows"
    using unique_row [OF assms(1)] by (intro filter_cong) auto
  moreover have "distinct xs \<Longrightarrow> r \<in> set xs \<Longrightarrow> length (filter (\<lambda>x. x = r) xs) = 1" for xs
    by (induction xs) (auto simp: filter_empty_conv)
  ultimately show ?thesis using r assms(1) by (simp add: distinct_map)
qed

lemma generateSlots_eq:
  assumes "generate_all ids (map pc_ID (db_configs cat)) (window_slots cfg now (ConfRepo_ListActive cat) (LocRepo_ListActive cat)) db =
      (Inr (), db')" "LocRepo_ListActive cat \<noteq> []"
  shows "generateSlots ids cfg cat now db = (Inr (), db')"
  using assms by (simp add: generateSlots_def Let_def Run_def)

text \<open>C11. Slot generation. With the observation and analysis owners among the configurations (or disabled)
  generation succeeds, and afterwards every active configuration with a valid schedule has, for every active
  location and every scheduled time from the previous hour to the end of the current one, exactly one slot,
  whatever had been generated, claimed or finished before. Generating again within the hour changes no slot.\<close>

theorem generateSlots_complete_and_idempotent:
  assumes "slots_ok lease db" "LocRepo_ListActive cat \<noteq> []"
    and "fresh_ids ids (sd_drawn db) (length (window_slots cfg now (ConfRepo_ListActive cat) (LocRepo_ListActive cat))) (sl_ID ` set (sd_slots db))"
    and "sc_ObservationConfigID cfg \<in> insert nil_uuid (pc_ID ` set (db_configs cat))"
    and "sc_AnalysisConfigID cfg \<in> insert nil_uuid (pc_ID ` set (db_configs cat))"
    and "generateSlots ids cfg cat now db = (res, db')"
    and "c \<in> set (ConfRepo_ListActive cat)" "Schedule_Valid (pc_CollectionSchedule c)" "l \<in> set (LocRepo_ListActive cat)"
    and "Truncate now Hour - Hour \<le> t" "t < Truncate now Hour + Hour"
    and "t mod Hour = MinuteOffset (pc_CollectionSchedule c) * Minute" "Truncate now' Hour = Truncate now Hour"
  shows "res = Inr () \<and>
    length (filter (\<lambda>s. slot_key s = (pc_ID c, JobForecastCollection, lo_ID l, t)) (sd_slots db')) = 1 \<and>
    set (sd_slots db) \<subseteq> set (sd_slots db') \<and>
    sd_slots (snd (generateSlots ids' cfg cat now' db')) = sd_slots db'"
proof -
  let ?cs = "ConfRepo_ListActive cat" and ?ls = "LocRepo_ListActive cat" and ?all = "map pc_ID (db_configs cat)"
  have sub: "set (map pc_ID ?cs) \<subseteq> set ?all" by (auto simp: ConfRepo_ListActive_def)
  have tm: "list_all (template ?all) (window_slots cfg n ?cs ?ls)" for n
    by (rule window_slots_template [OF sub]) (use assms(4,5) in auto)
  obtain r d where e: "generate_all ids ?all (window_slots cfg now ?cs ?ls) db = (r, d)" by (rule prod.exhaust)
  note A = generate_all_complete [OF tm assms(3), unfolded e fst_conv snd_conv]
  then have "generateSlots ids cfg cat now db = (Inr (), d)" using e by (intro generateSlots_eq [OF _ assms(2)]) simp
  with assms(6) have res: "res = Inr ()" "db' = d" by simp_all
  have ok: "slots_ok lease db'" using generateSlots_ok [OF assms(1), of ids cfg cat now] unfolding assms(6) by simp
  have keys: "key_of ` set (window_slots cfg now ?cs ?ls) \<subseteq> slot_key ` set (sd_slots db')" using A unfolding res(2) by simp
  with window_slots_forecast [OF assms(7-12)] have "(pc_ID c, JobForecastCollection, lo_ID l, t) \<in> slot_key ` set (sd_slots db')"
    by (rule subsetD [rotated])
  with ok have "length (filter (\<lambda>s. slot_key s = (pc_ID c, JobForecastCollection, lo_ID l, t)) (sd_slots db')) = 1"
    unfolding slots_ok_def by (intro unique_key) simp_all
  moreover obtain n where "generate_all ids' ?all (window_slots cfg now' ?cs ?ls) db' = (Inr (), db'\<lparr>sd_drawn := n\<rparr>)"
    using generate_all_taken [OF keys [folded window_slots_hour [OF assms(13)]] tm] by blast
  from generateSlots_eq [OF this assms(2)] have "sd_slots (snd (generateSlots ids' cfg cat now' db')) = sd_slots db'" by simp
  moreover have "set (sd_slots db) \<subseteq> set (sd_slots db')"
    using generateSlots_mono [of db ids cfg cat now] unfolding assms(6) by simp
  ultimately show ?thesis using res(1) by blast
qed

theorem generateSlots_complete_and_idempotent_witness:
  "length (filter (\<lambda>s. slot_key s = (5, JobForecastCollection, 7, 0))
     (sd_slots (snd (generateSlots seq_ids sched_cfg cat_a 0 (sy_db (sched_init 0)))))) = 1"
proof -
  let ?db = "sy_db (sched_init 0)"
  obtain r d where e: "generateSlots seq_ids sched_cfg cat_a 0 ?db = (r, d)" by (rule prod.exhaust)
  have c: "slots_ok 0 ?db" "LocRepo_ListActive cat_a \<noteq> []"
    "sc_ObservationConfigID sched_cfg = nil_uuid" "sc_AnalysisConfigID sched_cfg = nil_uuid"
    "Schedule_Valid (pc_CollectionSchedule cfg_a)" "Truncate 0 Hour = 0"
    "pc_ID cfg_a = 5" "MinuteOffset (pc_CollectionSchedule cfg_a) = 0"
    by code_simp+
  have m: "ConfRepo_ListActive cat_a = [cfg_a]" "LocRepo_ListActive cat_a = [loc_a\<lparr>lo_Status := StatusActive\<rparr>]"
    by (simp_all add: ConfRepo_ListActive_def LocRepo_ListActive_def cat_a_def cfg_a_def db_a_def)
  have "length (window_slots sched_cfg 0 (ConfRepo_ListActive cat_a) (LocRepo_ListActive cat_a)) = 2" by code_simp
  moreover have "fresh_ids seq_ids (sd_drawn ?db) 2 (sl_ID ` set (sd_slots ?db))" by (simp add: fresh_ids_def sched_init_def seq_ids_def upt_rec)
  ultimately have f: "fresh_ids seq_ids (sd_drawn ?db) (length (window_slots sched_cfg 0 (ConfRepo_ListActive cat_a) (LocRepo_ListActive cat_a)))
      (sl_ID ` set (sd_slots ?db))"
    by simp
  from generateSlots_complete_and_idempotent [OF c(1,2) f _ _ e, of cfg_a "loc_a\<lparr>lo_Status := StatusActive\<rparr>" 0 0]
  show ?thesis unfolding e by (simp add: c m loc_a_def)
qed

subsection \<open>Claiming\<close>

lemma claimed_not_claimable: "0 \<le> lease \<Longrightarrow> \<not> claimable now (claim_row inst now lease r)"
  by (simp add: claimable_def claim_row_def)

lemma count_after_update:
  assumes "distinct rows" "C \<subseteq> {r \<in> set rows. P r}" "\<And>r. \<not> P (f r)"
  shows "length (filter P (update_where (\<lambda>r. r \<in> C) f rows)) + card C = length (filter P rows)"
proof -
  have "filter P (update_where (\<lambda>r. r \<in> C) f rows) = filter (\<lambda>r. P r \<and> r \<notin> C) rows"
    using assms(3) by (induction rows) (simp_all add: update_where_def)
  moreover have "length (filter (\<lambda>r. P r \<and> r \<notin> C) rows) = card ({r \<in> set rows. P r} - C)"
    using assms(1) by (simp add: distinct_length_filter Int_def set_diff_eq) (metis (no_types, lifting))
  moreover have "length (filter P rows) = card {r \<in> set rows. P r}"
    using assms(1) by (simp add: distinct_length_filter Int_def conj_commute)
  moreover have "card ({r \<in> set rows. P r} - C) + card C = card {r \<in> set rows. P r}"
    using assms(2) card_mono [OF _ assms(2)] by (simp add: card_Diff_subset finite_subset)
  ultimately show ?thesis by simp
qed

text \<open>Claiming takes the oldest claimable slots, as many as the batch allows, each once: every slot
  left claimable is at least as late as every slot taken. A claimed slot is not claimable
  again at that time, so what the watchdog counts drops by exactly the number taken.\<close>

theorem ClaimDue_oldest_first:
  assumes "slots_ok lease db" "0 \<le> lease" "ClaimDue inst now lease limit db = (claimed, db')"
    and "q \<in> set claimed" "r \<in> set (sd_slots db')" "claimable now r"
  shows "length claimed = min limit (CountClaimable now db) \<and>
    CountClaimable now db' + length claimed = CountClaimable now db \<and>
    distinct (map sl_ID claimed) \<and> sl_SlotTime q \<le> sl_SlotTime r"
proof -
  let ?s = "sort_key sl_SlotTime (filter (claimable now) (sd_slots db))" and ?C = "chosen_rows now limit db"
  let ?cl = "claim_row inst now lease"
  have d: "distinct (map sl_ID (sd_slots db))" using assms(1) by (simp add: slots_ok_def)
  have cl: "claimed = map ?cl ?C" "sd_slots db' = update_where (\<lambda>r. r \<in> set ?C) ?cl (sd_slots db)"
    using assms(3) unfolding ClaimDue_eq [OF d] by auto
  have C: "?C = take limit ?s" by (simp add: chosen_rows_def)
  have dC: "distinct (map sl_ID ?C)"
    unfolding C take_map [symmetric] by (rule distinct_take) (use d in \<open>simp add: distinct_map inj_on_def\<close>)
  have len: "length claimed = min limit (CountClaimable now db)" by (simp add: cl C CountClaimable_def)
  have "length (filter (claimable now) (sd_slots db')) + card (set ?C) = length (filter (claimable now) (sd_slots db))"
    unfolding cl(2) using d claimed_not_claimable [OF assms(2)] chosen_rows_sub
    by (intro count_after_update) (auto simp: distinct_map)
  moreover have "card (set ?C) = length claimed" using dC by (simp add: cl distinct_map distinct_card)
  ultimately have cnt: "CountClaimable now db' + length claimed = CountClaimable now db" by (simp add: CountClaimable_def)
  obtain q0 where q0: "q0 \<in> set (take limit ?s)" "sl_SlotTime q = sl_SlotTime q0"
    using assms(4) by (auto simp: cl C claim_row_def)
  have "r \<in> set (sd_slots db)" "r \<notin> set ?C"
    using assms(5,6) claimed_not_claimable [OF assms(2)] unfolding cl(2) set_update_where by auto
  then have "r \<in> set (drop limit ?s)" using assms(6) set_append [of "take limit ?s" "drop limit ?s"] unfolding C by auto
  moreover have "sorted (map sl_SlotTime (take limit ?s @ drop limit ?s))" by simp
  ultimately have "sl_SlotTime q0 \<le> sl_SlotTime r" using q0(1) unfolding map_append sorted_append by auto
  with len cnt dC q0(2) show ?thesis by (simp add: cl comp_def slot_upd)
qed

definition claim_sample :: sched_db where
  "claim_sample = snd (generateSlots seq_ids sched_cfg cat_a 0 (sy_db (sched_init 0)))"

theorem ClaimDue_oldest_first_witness:
  "\<exists>(q :: Slot) (r :: Slot). length [q] = min 1 (CountClaimable 0 claim_sample) \<and> sl_SlotTime q = - Hour \<and> sl_SlotTime r = 0 \<and> sl_SlotTime q \<le> sl_SlotTime r"
proof -
  obtain claimed db' where e: "ClaimDue ''a'' 0 (5 * Minute) 1 claim_sample = (claimed, db')" by (rule prod.exhaust)
  have s: "map sl_SlotTime (fst (ClaimDue ''a'' 0 (5 * Minute) 1 claim_sample)) = [- Hour]"
    "map sl_SlotTime (filter (claimable 0) (sd_slots (snd (ClaimDue ''a'' 0 (5 * Minute) 1 claim_sample)))) = [0]"
    "slots_ok (5 * Minute) claim_sample"
    by code_simp+
  obtain q where q: "claimed = [q]" "sl_SlotTime q = - Hour" using s(1) unfolding e by auto
  obtain r where r: "filter (claimable 0) (sd_slots db') = [r]" "sl_SlotTime r = 0" using s(2) unfolding e by auto
  have "r \<in> set (filter (claimable 0) (sd_slots db'))" unfolding r by simp
  then have r': "r \<in> set (sd_slots db')" "claimable 0 r" by simp_all
  have "length claimed = min 1 (CountClaimable 0 claim_sample)" "sl_SlotTime q \<le> sl_SlotTime r"
    using ClaimDue_oldest_first [OF s(3) _ e _ r', of q] q(1) by simp_all
  then show ?thesis unfolding q(1) using q(2) r(2) by blast
qed

subsection \<open>Retries\<close>



definition ended :: "Slot \<Rightarrow> bool" where
  "ended s \<longleftrightarrow> sl_Status s = SlotCompleted \<or> sl_Status s = SlotFailed"
















end
