(* ===== verification/Supersession.thy ===== *)
theory Supersession
  imports Fiq_Prelude
begin

text \<open>
  Versioned tables: \<^verbatim>\<open>accuracy_metrics\<close> and \<^verbatim>\<open>provider_rankings\<close> are never updated in
  place. A recompute inserts new rows and points \<^verbatim>\<open>superseded_by\<close> of the previous live row of each
  logical key at the new one. The abstract view of such a table is the finite map from keys to live
  rows; publishing a batch of rows refines the override of that map.
\<close>

definition supersede :: "('r \<Rightarrow> uuid) \<Rightarrow> ('r \<Rightarrow> 'k) \<Rightarrow> ('r \<Rightarrow> uuid option) \<Rightarrow> (uuid \<Rightarrow> 'r \<Rightarrow> 'r) \<Rightarrow> 'r \<Rightarrow> 'r list \<Rightarrow> 'r list" where
  "supersede rid key nxt set_nxt m rows =
     update_where (\<lambda>r. key r = key m \<and> nxt r = None \<and> rid r \<noteq> rid m) (set_nxt (rid m)) rows"

definition publish :: "('r \<Rightarrow> uuid) \<Rightarrow> ('r \<Rightarrow> 'k) \<Rightarrow> ('r \<Rightarrow> uuid option) \<Rightarrow> (uuid \<Rightarrow> 'r \<Rightarrow> 'r) \<Rightarrow> 'r list \<Rightarrow> 'r list \<Rightarrow> 'r list" where
  "publish rid key nxt set_nxt new rows = fold (supersede rid key nxt set_nxt) new (rows @ new)"

definition live_rows :: "('r \<Rightarrow> uuid option) \<Rightarrow> 'r list \<Rightarrow> 'r list" where
  "live_rows nxt rows = filter (\<lambda>r. nxt r = None) rows"

definition live_map :: "('r \<Rightarrow> 'k) \<Rightarrow> ('r \<Rightarrow> uuid option) \<Rightarrow> 'r list \<Rightarrow> 'k \<rightharpoonup> 'r" where
  "live_map key nxt rows = map_of (map (\<lambda>r. (key r, r)) (live_rows nxt rows))"

text \<open>One live row per key, unique ids, and every superseded row points at a later version of itself.\<close>

definition versions_ok :: "('r \<Rightarrow> uuid) \<Rightarrow> ('r \<Rightarrow> 'k) \<Rightarrow> ('r \<Rightarrow> uuid option) \<Rightarrow> 'r list \<Rightarrow> bool" where
  "versions_ok rid key nxt rows \<longleftrightarrow> distinct (map rid rows) \<and> distinct (map key (live_rows nxt rows)) \<and>
     (\<forall>r \<in> set rows. \<forall>i. nxt r = Some i \<longrightarrow> (\<exists>s \<in> set rows. rid s = i \<and> key s = key r))"

text \<open>A batch that can be published: new ids, one row per key, all live.\<close>

definition batch_ok :: "('r \<Rightarrow> uuid) \<Rightarrow> ('r \<Rightarrow> 'k) \<Rightarrow> ('r \<Rightarrow> uuid option) \<Rightarrow> 'r list \<Rightarrow> 'r list \<Rightarrow> bool" where
  "batch_ok rid key nxt new rows \<longleftrightarrow> distinct (map rid (rows @ new)) \<and> distinct (map key new) \<and> (\<forall>r \<in> set new. nxt r = None)"

locale versioned =
  fixes rid :: "'r \<Rightarrow> uuid" and key :: "'r \<Rightarrow> 'k" and nxt :: "'r \<Rightarrow> uuid option" and set_nxt :: "uuid \<Rightarrow> 'r \<Rightarrow> 'r"
  assumes rid_set_nxt [simp]: "rid (set_nxt i r) = rid r"
    and key_set_nxt [simp]: "key (set_nxt i r) = key r"
    and nxt_set_nxt [simp]: "nxt (set_nxt i r) = Some i"
begin

abbreviation pub :: "'r list \<Rightarrow> 'r list \<Rightarrow> 'r list" where
  "pub \<equiv> publish rid key nxt set_nxt"

text \<open>What publishing does to one old row.\<close>

definition aged :: "'r list \<Rightarrow> 'r \<Rightarrow> 'r \<Rightarrow> bool" where
  "aged new r r' \<longleftrightarrow>
     (if nxt r = None \<and> key r \<in> key ` set new then \<exists>m \<in> set new. key m = key r \<and> r' = set_nxt (rid m) r else r' = r)"

lemma fold_supersede:
  assumes "batch_ok rid key nxt new rows" "set ns \<subseteq> set new"
  shows "\<exists>old. fold (supersede rid key nxt set_nxt) ns (rows @ new) = old @ new \<and> list_all2 (aged ns) rows old"
  using assms(2)
proof (induction ns rule: rev_induct)
  case Nil
  show ?case by (auto simp: aged_def list.rel_refl)
next
  case (snoc m ns)
  then obtain old where o: "fold (supersede rid key nxt set_nxt) ns (rows @ new) = old @ new" "list_all2 (aged ns) rows old"
    by auto
  have m: "m \<in> set new" using snoc.prems by simp
  let ?u = "\<lambda>r. if key r = key m \<and> nxt r = None \<and> rid r \<noteq> rid m then set_nxt (rid m) r else r"
  have "map ?u new = new"
  proof (rule map_idI)
    fix r assume "r \<in> set new"
    then show "?u r = r" using assms(1) m unique_row [of key new r m] by (auto simp: batch_ok_def)
  qed
  then have "fold (supersede rid key nxt set_nxt) (ns @ [m]) (rows @ new) = map ?u old @ new"
    by (simp add: o(1) supersede_def update_where_def)
  moreover have "list_all2 (aged (ns @ [m])) rows (map ?u old)"
    unfolding list_all2_map2 using o(2)
  proof (rule list.rel_mono_strong)
    fix r r' assume r: "r \<in> set rows" "aged ns r r'"
    have "rid r \<noteq> rid m" using assms(1) m r(1) by (auto simp: batch_ok_def)
    then show "aged (ns @ [m]) r (?u r')" using r(2) by (auto simp: aged_def split: if_splits)
  qed
  ultimately show ?case by blast
qed

lemma publish_shape:
  assumes "batch_ok rid key nxt new rows"
  obtains old where "pub new rows = old @ new" "list_all2 (aged new) rows old"
  using fold_supersede [OF assms, of new] unfolding publish_def by blast

lemma aged_facts:
  assumes "aged new r r'"
  shows "rid r' = rid r" "key r' = key r"
    and "nxt r' = None \<longleftrightarrow> nxt r = None \<and> key r \<notin> key ` set new"
    and "nxt r' = None \<Longrightarrow> r' = r"
    and "nxt r \<noteq> None \<Longrightarrow> r' = r"
    and "nxt r' = Some i \<Longrightarrow> nxt r = Some i \<or> (\<exists>m \<in> set new. rid m = i \<and> key m = key r)"
  using assms by (auto simp: aged_def split: if_splits)

lemma old_live:
  assumes "list_all2 (aged new) rows old"
  shows "live_rows nxt old = filter (\<lambda>r. key r \<notin> key ` set new) (live_rows nxt rows)"
  using assms by (induction rows old rule: list_all2_induct) (auto simp: live_rows_def aged_facts)

lemma publish_live:
  assumes "batch_ok rid key nxt new rows"
  shows "live_rows nxt (pub new rows) = filter (\<lambda>r. key r \<notin> key ` set new) (live_rows nxt rows) @ new"
proof -
  obtain old where "pub new rows = old @ new" "list_all2 (aged new) rows old" using assms by (rule publish_shape)
  moreover have "live_rows nxt new = new" using assms by (auto simp: live_rows_def batch_ok_def)
  ultimately show ?thesis using old_live by (simp add: live_rows_def)
qed

lemma map_ids:
  assumes "list_all2 (aged new) rows old"
  shows "map rid old = map rid rows" "map key old = map key rows"
  using assms by (induction rows old rule: list_all2_induct) (auto simp: aged_facts)

text \<open>Publishing keeps the table versioned.\<close>

lemma publish_ok:
  assumes ok: "versions_ok rid key nxt rows" and b: "batch_ok rid key nxt new rows"
  shows "versions_ok rid key nxt (pub new rows)"
proof -
  obtain old where p: "pub new rows = old @ new" and a: "list_all2 (aged new) rows old" using b by (rule publish_shape)
  have "distinct (map rid (pub new rows))" using b unfolding p batch_ok_def by (simp add: map_ids(1) [OF a])
  moreover have "distinct (map key (live_rows nxt (pub new rows)))"
    unfolding publish_live [OF b] using ok b distinct_map_filter [of key "live_rows nxt rows"]
    by (auto simp: versions_ok_def batch_ok_def)
  moreover have "\<exists>s \<in> set (old @ new). rid s = i \<and> key s = key r'" if r': "r' \<in> set (old @ new)" and i: "nxt r' = Some i" for r' i
  proof -
    have "r' \<notin> set new" using b i by (auto simp: batch_ok_def)
    with r' obtain k where k: "k < length old" "r' = old ! k" by (auto simp: in_set_conv_nth)
    have ag: "aged new (rows ! k) r'" using a k by (simp add: list_all2_conv_all_nth)
    have "rows ! k \<in> set rows" using a k by (simp add: list_all2_conv_all_nth)
    from aged_facts(6) [OF ag i] show ?thesis
    proof
      assume "nxt (rows ! k) = Some i"
      with ok \<open>rows ! k \<in> set rows\<close> obtain s where s: "s \<in> set rows" "rid s = i" "key s = key (rows ! k)"
        unfolding versions_ok_def by blast
      then obtain j where j: "j < length rows" "s = rows ! j" by (auto simp: in_set_conv_nth)
      then have "aged new s (old ! j)" "old ! j \<in> set old" using a by (simp_all add: list_all2_conv_all_nth)
      with s aged_facts(1,2) [OF ag] aged_facts(1,2) [OF \<open>aged new s (old ! j)\<close>] show ?thesis by auto
    qed (use aged_facts(2) [OF ag] in auto)
  qed
  ultimately show ?thesis unfolding versions_ok_def p by blast
qed

text \<open>Publishing refines the override of the map from keys to live rows.\<close>

lemma publish_refines:
  assumes "batch_ok rid key nxt new rows"
  shows "live_map key nxt (pub new rows) = live_map key nxt rows ++ map_of (map (\<lambda>r. (key r, r)) new)"
proof
  fix k
  let ?n = "map_of (map (\<lambda>r. (key r, r)) new)"
  have dom: "?n k = None \<longleftrightarrow> k \<notin> key ` set new" by (auto simp: map_of_eq_None_iff image_image)
  have "map_of (map (\<lambda>r. (key r, r)) (filter (\<lambda>r. key r \<notin> key ` set new) rs)) k =
      (if k \<in> key ` set new then None else map_of (map (\<lambda>r. (key r, r)) rs) k)" for rs
    by (induction rs) auto
  moreover have "live_map key nxt (pub new rows) =
      ?n ++ map_of (map (\<lambda>r. (key r, r)) (filter (\<lambda>r. key r \<notin> key ` set new) (live_rows nxt rows)))"
    unfolding live_map_def publish_live [OF assms] map_append map_of_append ..
  ultimately show "live_map key nxt (pub new rows) k = (live_map key nxt rows ++ ?n) k"
    using dom by (auto simp: live_map_def map_add_def split: option.splits)
qed

end

end
