(* ===== verification/Aggregation.thy ===== *)
theory Aggregation
  imports Matching Scheduler Eval Supersession
begin

text \<open>
  The aggregation engine: metric rows per cell and period (\<^verbatim>\<open>internal/analysis/aggregate.go\<close>,
  \<^verbatim>\<open>internal/analysis/domain/metric.go\<close>) over the table \<^verbatim>\<open>accuracy_metrics\<close>
  (\<^verbatim>\<open>adapters/persistence/analysispg/metricspg.go\<close>). The arithmetic is that of the
  evaluation kernel, over the rounding \<open>fl\<close>.
\<close>

section \<open>Data\<close>

definition MethodologyVersion :: string where "MethodologyVersion = ''2026.1''"

definition VarTemperature :: string where "VarTemperature = ''temperature''"
definition VarWindSpeed :: string where "VarWindSpeed = ''wind_speed''"
definition VarHumidity :: string where "VarHumidity = ''humidity''"
definition VarPressure :: string where "VarPressure = ''pressure''"
definition VarPrecipitation :: string where "VarPrecipitation = ''precipitation''"
definition VarAll :: string where "VarAll = ''all''"

lemmas var_defs = VarTemperature_def VarWindSpeed_def VarHumidity_def VarPressure_def VarPrecipitation_def VarAll_def

definition MetricMAE :: string where "MetricMAE = ''mae''"
definition MetricRMSE :: string where "MetricRMSE = ''rmse''"
definition MetricBias :: string where "MetricBias = ''bias''"
definition MetricRainMAEAll :: string where "MetricRainMAEAll = ''rain_mae_all''"
definition MetricRainMAEWet :: string where "MetricRainMAEWet = ''rain_mae_wet''"
definition MetricRecall :: string where "MetricRecall = ''recall''"
definition MetricPrecision :: string where "MetricPrecision = ''precision''"
definition MetricF1 :: string where "MetricF1 = ''f1''"
definition MetricFAR :: string where "MetricFAR = ''far''"
definition MetricThreatScore :: string where "MetricThreatScore = ''threat_score''"
definition MetricOccurrenceAgreement :: string where "MetricOccurrenceAgreement = ''occurrence_agreement''"
definition MetricBrier :: string where "MetricBrier = ''brier''"
definition MetricCoverage :: string where "MetricCoverage = ''coverage''"
definition MetricReliability :: string where "MetricReliability = ''reliability''"

lemmas metric_defs = MetricMAE_def MetricRMSE_def MetricBias_def MetricRainMAEAll_def MetricRainMAEWet_def MetricRecall_def
  MetricPrecision_def MetricF1_def MetricFAR_def MetricThreatScore_def MetricOccurrenceAgreement_def MetricBrier_def
  MetricCoverage_def MetricReliability_def

datatype PeriodKind = PeriodDaily | PeriodWeekly | PeriodMonthly

record Cell =
  ce_ProviderID :: uuid
  ce_LocationID :: uuid
  ce_HorizonMinutes :: int

record Period =
  pd_Kind :: PeriodKind
  pd_Start :: instant
  pd_End :: instant

record PairRecord =
  pp_ObservationType :: string
  pp_QualityFlag :: string
  pp_FTemperature :: "real option"
  pp_FWindSpeed :: "real option"
  pp_FHumidity :: "real option"
  pp_FPressure :: "real option"
  pp_FPrecipMM :: "real option"
  pp_FPrecipProb :: "real option"
  pp_OTemperature :: "real option"
  pp_OWindSpeed :: "real option"
  pp_OHumidity :: "real option"
  pp_OPressure :: "real option"
  pp_OPrecipMM :: "real option"

record AccuracyMetric =
  am_ID :: uuid
  am_ProviderID :: uuid
  am_LocationID :: uuid
  am_HorizonMinutes :: int
  am_Variable :: string
  am_MetricType :: string
  am_Value :: "real option"
  am_CILower :: "real option"
  am_CIUpper :: "real option"
  am_SampleCount :: int
  am_MethodologyVersion :: string
  am_PeriodStart :: instant
  am_PeriodEnd :: instant

record VariableCounts =
  vc_Temperature :: int
  vc_WindSpeed :: int
  vc_Humidity :: int
  vc_Pressure :: int
  vc_Precipitation :: int

text \<open>A row of the table, and what the engine reads.\<close>

record metric_row = AccuracyMetric +
  mr_CalculatedAt :: instant
  mr_SupersededBy :: "uuid option"

record metric_tbl =
  mb_rows :: "metric_row list"
  mb_drawn :: nat

record analysis_db =
  an_snaps :: "ForecastSnapshot list"
  an_obs :: "Observation list"
  an_pairs :: "MatchedEvaluation list"
  an_slots :: "Slot list"
  an_configs :: "ProviderConfiguration list"
  an_collections :: "ForecastCollection list"


section \<open>Reads\<close>

definition ListCells :: "instant \<Rightarrow> instant \<Rightarrow> analysis_db \<Rightarrow> Cell list" where
  "ListCells from to db = nub
     [\<lparr>ce_ProviderID = me_ProviderID p, ce_LocationID = me_LocationID p, ce_HorizonMinutes = me_ForecastHorizonMinutes p\<rparr>.
       p \<leftarrow> an_pairs db, r \<leftarrow> an_obs db, ob_ID r = me_ObservationID p, from \<le> me_TargetTime p \<and> me_TargetTime p < to, observation_live r]"

definition pair_record :: "ForecastSnapshot \<Rightarrow> Observation \<Rightarrow> PairRecord" where
  "pair_record s r = \<lparr>pp_ObservationType = ob_ObservationType r, pp_QualityFlag = ob_QualityFlag r,
     pp_FTemperature = fs_TemperatureC s, pp_FWindSpeed = fs_WindSpeedMS s, pp_FHumidity = fs_HumidityPct s,
     pp_FPressure = fs_PressureHPa s, pp_FPrecipMM = fs_PrecipitationAmountMM s, pp_FPrecipProb = fs_PrecipitationProbability s,
     pp_OTemperature = ob_TemperatureC r, pp_OWindSpeed = ob_WindSpeedMS r, pp_OHumidity = ob_HumidityPct r,
     pp_OPressure = ob_PressureHPa r, pp_OPrecipMM = ob_PrecipitationMM r\<rparr>"

definition ReadPairs :: "Cell \<Rightarrow> instant \<Rightarrow> instant \<Rightarrow> analysis_db \<Rightarrow> PairRecord list" where
  "ReadPairs c from to db =
     [pair_record s r. p \<leftarrow> an_pairs db, s \<leftarrow> an_snaps db, fs_ID s = me_ForecastSnapshotID p, r \<leftarrow> an_obs db, ob_ID r = me_ObservationID p,
       me_ProviderID p = ce_ProviderID c \<and> me_LocationID p = ce_LocationID c \<and> me_ForecastHorizonMinutes p = ce_HorizonMinutes c \<and>
       from \<le> me_TargetTime p \<and> me_TargetTime p < to \<and> observation_live r \<and> ob_QualityFlag r \<noteq> QualitySuspect]"

definition count_some :: "('a \<Rightarrow> 'b option) \<Rightarrow> 'a list \<Rightarrow> int" where
  "count_some f xs = int (length (filter (\<lambda>x. f x \<noteq> None) xs))"

definition SnapshotVariableCounts :: "Cell \<Rightarrow> instant \<Rightarrow> instant \<Rightarrow> analysis_db \<Rightarrow> VariableCounts" where
  "SnapshotVariableCounts c from to db =
     (let rows = filter (\<lambda>s. fs_ProviderID s = ce_ProviderID c \<and> fs_LocationID s = ce_LocationID c \<and>
            fs_ForecastHorizonMinutes s = ce_HorizonMinutes c \<and> from \<le> fs_TargetTime s \<and> fs_TargetTime s < to) (an_snaps db)
      in \<lparr>vc_Temperature = count_some fs_TemperatureC rows, vc_WindSpeed = count_some fs_WindSpeedMS rows,
          vc_Humidity = count_some fs_HumidityPct rows, vc_Pressure = count_some fs_PressureHPa rows,
          vc_Precipitation = count_some fs_PrecipitationAmountMM rows\<rparr>)"

definition ScheduledForecastSlots :: "uuid \<Rightarrow> uuid \<Rightarrow> instant \<Rightarrow> instant \<Rightarrow> analysis_db \<Rightarrow> int" where
  "ScheduledForecastSlots prov loc from to db = int (length
     [s. s \<leftarrow> an_slots db, c \<leftarrow> an_configs db, pc_ID c = sl_ProviderConfigurationID s,
       sl_JobType s = JobForecastCollection \<and> sl_LocationID s = Some loc \<and> pc_ProviderID c = prov \<and> from \<le> sl_SlotTime s \<and> sl_SlotTime s < to])"

definition SuccessfulCollections :: "uuid \<Rightarrow> uuid \<Rightarrow> instant \<Rightarrow> instant \<Rightarrow> analysis_db \<Rightarrow> int" where
  "SuccessfulCollections prov loc from to db = int (length (filter (\<lambda>c. fc_ProviderID c = prov \<and> fc_LocationID c = loc \<and>
     fc_Status c = StatusSuccess \<and> from \<le> fc_RequestedAt c \<and> fc_RequestedAt c < to) (an_collections db)))"


section \<open>The rows of a cell and period\<close>

record accs =
  a_temp :: Continuous
  a_wind :: Continuous
  a_humidity :: Continuous
  a_pressure :: Continuous
  a_rainAll :: Continuous
  a_rainWet :: Continuous
  a_occ :: Confusion
  a_brier :: Brier
  a_occN :: nat

definition accs0 :: accs where
  "accs0 = \<lparr>a_temp = Continuous0, a_wind = Continuous0, a_humidity = Continuous0, a_pressure = Continuous0,
     a_rainAll = Continuous0, a_rainWet = Continuous0, a_occ = Confusion0, a_brier = Brier0, a_occN = 0\<rparr>"

definition add_eligible :: "(real \<Rightarrow> real) \<Rightarrow> real option \<Rightarrow> real option \<Rightarrow> string \<Rightarrow> real \<Rightarrow> Continuous \<Rightarrow> Continuous" where
  "add_eligible fl f ob quality w c = (if Eligible f ob quality then Continuous_Add fl (the f) (the ob) w c else c)"

definition add_pair :: "(real \<Rightarrow> real) \<Rightarrow> PairRecord \<Rightarrow> accs \<Rightarrow> accs" where
  "add_pair fl p a =
     (let w = ProvenanceWeight fl (pp_ObservationType p); q = pp_QualityFlag p;
          a1 = a\<lparr>a_temp := add_eligible fl (pp_FTemperature p) (pp_OTemperature p) q w (a_temp a),
                 a_wind := add_eligible fl (pp_FWindSpeed p) (pp_OWindSpeed p) q w (a_wind a),
                 a_humidity := add_eligible fl (pp_FHumidity p) (pp_OHumidity p) q w (a_humidity a),
                 a_pressure := add_eligible fl (pp_FPressure p) (pp_OPressure p) q w (a_pressure a),
                 a_rainAll := add_eligible fl (pp_FPrecipMM p) (pp_OPrecipMM p) q w (a_rainAll a),
                 a_rainWet := (if Eligible (pp_FPrecipMM p) (pp_OPrecipMM p) q \<and> the (pp_OPrecipMM p) \<ge> fl 0.1
                   then Continuous_Add fl (the (pp_FPrecipMM p)) (the (pp_OPrecipMM p)) w (a_rainWet a) else a_rainWet a)\<rparr>
      in if pp_OPrecipMM p \<noteq> None \<and> q \<noteq> QualitySuspect
         then let observedRain = ObservedRain fl (pp_OPrecipMM p)
              in a1\<lparr>a_occ := Confusion_Add fl (ForecastRain fl (pp_FPrecipProb p) (pp_FPrecipMM p)) observedRain w (a_occ a1),
                    a_occN := a_occN a1 + 1,
                    a_brier := (case pp_FPrecipProb p of None \<Rightarrow> a_brier a1 | Some pr \<Rightarrow> Brier_Add fl pr observedRain w (a_brier a1))\<rparr>
         else a1)"

text \<open>A row still waiting for its identifier.\<close>

type_synonym pending = "uuid \<Rightarrow> AccuracyMetric"

definition metric :: "Cell \<Rightarrow> Period \<Rightarrow> string \<Rightarrow> string \<Rightarrow> real option \<Rightarrow> real option \<times> real option \<Rightarrow> int \<Rightarrow> pending" where
  "metric cell period variable metricType v ci n fresh =
     (let m = \<lparr>am_ID = fresh, am_ProviderID = ce_ProviderID cell, am_LocationID = ce_LocationID cell,
           am_HorizonMinutes = ce_HorizonMinutes cell, am_Variable = variable, am_MetricType = metricType,
           am_Value = None, am_CILower = None, am_CIUpper = None, am_SampleCount = 0,
           am_MethodologyVersion = MethodologyVersion, am_PeriodStart = pd_Start period, am_PeriodEnd = pd_End period\<rparr>
      in case v of None \<Rightarrow> m
         | Some _ \<Rightarrow> m\<lparr>am_Value := v, am_CILower := fst ci, am_CIUpper := snd ci, am_SampleCount := n\<rparr>)"

definition continuousRows :: "(real \<Rightarrow> real) \<Rightarrow> Cell \<Rightarrow> Period \<Rightarrow> string \<Rightarrow> Continuous \<Rightarrow> pending list" where
  "continuousRows fl cell period variable c =
     [metric cell period variable MetricMAE (MAE fl c) (MAECI fl c) (int (cn c)),
      metric cell period variable MetricRMSE (RMSE fl c) (RMSECI fl c) (int (cn c)),
      metric cell period variable MetricBias (Bias fl c) (BiasCI fl c) (int (cn c))]"

definition ratioRow :: "(real \<Rightarrow> real) \<Rightarrow> Cell \<Rightarrow> Period \<Rightarrow> string \<Rightarrow> real option \<Rightarrow> real \<Rightarrow> int \<Rightarrow> pending" where
  "ratioRow fl cell period metricType v denom n =
     (case v of None \<Rightarrow> metric cell period VarPrecipitation metricType None (None, None) 0
      | Some x \<Rightarrow> (case Wilson fl x denom of (lo, hi) \<Rightarrow> metric cell period VarPrecipitation metricType v (Some lo, Some hi) n))"

definition ratelessRow :: "(real \<Rightarrow> real) \<Rightarrow> Cell \<Rightarrow> Period \<Rightarrow> string \<Rightarrow> string \<Rightarrow> int \<Rightarrow> int \<Rightarrow> pending" where
  "ratelessRow fl cell period variable metricType numerator denom =
     (if denom \<le> 0 then metric cell period variable metricType None (None, None) 0
      else let v0 = fdiv fl (fl (of_int numerator)) (fl (of_int denom));
               v = (if v0 > 1 then 1 else v0)
           in metric cell period variable metricType (Some v) (None, None) denom)"

definition pending_rows :: "(real \<Rightarrow> real) \<Rightarrow> Cell \<Rightarrow> Period \<Rightarrow> accs \<Rightarrow> VariableCounts \<Rightarrow> int \<Rightarrow> int \<Rightarrow> pending list" where
  "pending_rows fl cell period a counts scheduled success =
     (let occ = a_occ a; occN = int (a_occN a); ratio = ratioRow fl cell period; rateless = ratelessRow fl cell period in
      continuousRows fl cell period VarTemperature (a_temp a) @
      continuousRows fl cell period VarWindSpeed (a_wind a) @
      continuousRows fl cell period VarHumidity (a_humidity a) @
      continuousRows fl cell period VarPressure (a_pressure a) @
      [metric cell period VarPrecipitation MetricRainMAEAll (MAE fl (a_rainAll a)) (MAECI fl (a_rainAll a)) (int (cn (a_rainAll a))),
       metric cell period VarPrecipitation MetricRainMAEWet (MAE fl (a_rainWet a)) (MAECI fl (a_rainWet a)) (int (cn (a_rainWet a))),
       ratio MetricRecall (Recall fl occ) (fadd fl (TP occ) (FN occ)) occN,
       ratio MetricPrecision (Precision fl occ) (fadd fl (TP occ) (FP occ)) occN,
       ratio MetricF1 (F1 fl occ) (fadd fl (fadd fl (fmul fl 2 (TP occ)) (FP occ)) (FN occ)) occN,
       ratio MetricFAR (FalseAlarmRate fl occ) (fadd fl (FP occ) (TN occ)) occN,
       ratio MetricThreatScore (ThreatScore fl occ) (fadd fl (fadd fl (TP occ) (FP occ)) (FN occ)) occN,
       ratio MetricOccurrenceAgreement (OccurrenceAgreement fl occ) (Confusion_N fl occ) occN,
       metric cell period VarPrecipitation MetricBrier (Score fl (a_brier a)) (ScoreCI fl (a_brier a)) occN,
       rateless VarTemperature MetricCoverage (vc_Temperature counts) scheduled,
       rateless VarWindSpeed MetricCoverage (vc_WindSpeed counts) scheduled,
       rateless VarHumidity MetricCoverage (vc_Humidity counts) scheduled,
       rateless VarPressure MetricCoverage (vc_Pressure counts) scheduled,
       rateless VarPrecipitation MetricCoverage (vc_Precipitation counts) scheduled,
       rateless VarAll MetricReliability success scheduled])"

text \<open>The rows take the next identifiers in order.\<close>

fun draw :: "(nat \<Rightarrow> uuid) \<Rightarrow> nat \<Rightarrow> (uuid \<Rightarrow> 'a) list \<Rightarrow> 'a list" where
  "draw ids k [] = []"
| "draw ids k (g # gs) = g (ids k) # draw ids (Suc k) gs"

definition computeRows :: "(real \<Rightarrow> real) \<Rightarrow> (nat \<Rightarrow> uuid) \<Rightarrow> nat \<Rightarrow> Cell \<Rightarrow> Period \<Rightarrow> PairRecord list \<Rightarrow> VariableCounts \<Rightarrow> int \<Rightarrow> int \<Rightarrow>
    AccuracyMetric list" where
  "computeRows fl ids k cell period pairs counts scheduled success =
     draw ids k (pending_rows fl cell period (fold (add_pair fl) pairs accs0) counts scheduled success)"

definition standardPeriods :: "instant \<Rightarrow> Period list" where
  "standardPeriods now =
     (let dayStart = Date_utc (Year now) (Month now) (DayOfMonth now);
          weekday = Weekday dayStart;
          days_back = (weekday + 6) mod 7;
          weekStart = AddDate 0 0 (- days_back) dayStart;
          monthStart = Date_utc (Year now) (Month now) 1
      in [\<lparr>pd_Kind = PeriodDaily, pd_Start = dayStart, pd_End = AddDate 0 0 1 dayStart\<rparr>,
          \<lparr>pd_Kind = PeriodWeekly, pd_Start = weekStart, pd_End = AddDate 0 0 7 weekStart\<rparr>,
          \<lparr>pd_Kind = PeriodMonthly, pd_Start = monthStart, pd_End = AddDate 0 1 0 monthStart\<rparr>])"


section \<open>Writes\<close>

datatype metric_error = MetricDuplicateID | MetricCheck

text \<open>The \<^verbatim>\<open>CHECK\<close> constraints; one that evaluates to \<^verbatim>\<open>NULL\<close> passes.\<close>

definition ci_check :: "real option \<Rightarrow> real option \<Rightarrow> real option \<Rightarrow> bool" where
  "ci_check lo v hi = (case (lo, v) of (Some l, Some x) \<Rightarrow> l \<le> x \<and> (case hi of Some h \<Rightarrow> x \<le> h | None \<Rightarrow> True) | _ \<Rightarrow> True)"

definition metric_check :: "AccuracyMetric \<Rightarrow> bool" where
  "metric_check m \<longleftrightarrow> 0 \<le> am_SampleCount m \<and> am_PeriodStart m < am_PeriodEnd m \<and>
     (am_Value m = None \<longleftrightarrow> am_SampleCount m = 0) \<and> ci_check (am_CILower m) (am_Value m) (am_CIUpper m)"

definition metric_key :: "'a AccuracyMetric_scheme \<Rightarrow> uuid \<times> uuid \<times> int \<times> string \<times> string \<times> instant \<times> instant" where
  "metric_key m = (am_ProviderID m, am_LocationID m, am_HorizonMinutes m, am_Variable m, am_MetricType m, am_PeriodStart m, am_PeriodEnd m)"

definition stored :: "instant \<Rightarrow> AccuracyMetric \<Rightarrow> metric_row" where
  "stored wall m = AccuracyMetric.extend m \<lparr>mr_CalculatedAt = wall, mr_SupersededBy = None\<rparr>"

definition InsertMetrics :: "instant \<Rightarrow> AccuracyMetric list \<Rightarrow> metric_row list \<Rightarrow> (metric_error, unit) result \<times> metric_row list" where
  "InsertMetrics wall ms rows =
     (if \<not> distinct (map am_ID ms) \<or> (\<exists>m \<in> set ms. am_ID m \<in> am_ID ` set rows) then (Inl MetricDuplicateID, rows)
      else if \<exists>m \<in> set ms. \<not> metric_check m then (Inl MetricCheck, rows)
      else (Inr (), rows @ map (stored wall) ms))"

definition SupersedePrevious :: "AccuracyMetric \<Rightarrow> metric_row list \<Rightarrow> metric_row list" where
  "SupersedePrevious m rows =
     update_where (\<lambda>r. metric_key r = metric_key m \<and> mr_SupersededBy r = None \<and> am_ID r \<noteq> am_ID m)
       (\<lambda>r. r\<lparr>mr_SupersededBy := Some (am_ID m)\<rparr>) rows"

definition publish_metrics :: "instant \<Rightarrow> AccuracyMetric list \<Rightarrow> metric_row list \<Rightarrow> (metric_error, unit) result \<times> metric_row list" where
  "publish_metrics wall ms rows =
     (case InsertMetrics wall ms rows of (Inl e, rows') \<Rightarrow> (Inl e, rows') | (Inr _, rows') \<Rightarrow> (Inr (), fold SupersedePrevious ms rows'))"

definition aggregateCellPeriod :: "(real \<Rightarrow> real) \<Rightarrow> (nat \<Rightarrow> uuid) \<Rightarrow> instant \<Rightarrow> Cell \<Rightarrow> Period \<Rightarrow> analysis_db \<Rightarrow> metric_tbl \<Rightarrow>
    (metric_error, nat) result \<times> metric_tbl" where
  "aggregateCellPeriod fl ids wall cell period db tbl =
     (let pairs = ReadPairs cell (pd_Start period) (pd_End period) db;
          counts = SnapshotVariableCounts cell (pd_Start period) (pd_End period) db;
          scheduled = ScheduledForecastSlots (ce_ProviderID cell) (ce_LocationID cell) (pd_Start period) (pd_End period) db;
          success = SuccessfulCollections (ce_ProviderID cell) (ce_LocationID cell) (pd_Start period) (pd_End period) db;
          rows = computeRows fl ids (mb_drawn tbl) cell period pairs counts scheduled success;
          tbl1 = tbl\<lparr>mb_drawn := mb_drawn tbl + length rows\<rparr>
      in if rows = [] then (Inr 0, tbl1)
         else case Run (publish_metrics wall rows) (mb_rows tbl) of
           (Inl e, rs) \<Rightarrow> (Inl e, tbl1\<lparr>mb_rows := rs\<rparr>)
         | (Inr _, rs) \<Rightarrow> (Inr (length rows), tbl1\<lparr>mb_rows := rs\<rparr>))"

text \<open>The batch returns the rows written and the error, if any.\<close>

fun aggregate_cells :: "(real \<Rightarrow> real) \<Rightarrow> (nat \<Rightarrow> uuid) \<Rightarrow> instant \<Rightarrow> Period \<Rightarrow> analysis_db \<Rightarrow> Cell list \<Rightarrow> nat \<Rightarrow> metric_tbl \<Rightarrow>
    (nat \<times> metric_error option) \<times> metric_tbl" where
  "aggregate_cells fl ids wall period db [] written tbl = ((written, None), tbl)"
| "aggregate_cells fl ids wall period db (c # cs) written tbl =
     (case aggregateCellPeriod fl ids wall c period db tbl of
        (Inl e, tbl') \<Rightarrow> ((written, Some e), tbl')
      | (Inr n, tbl') \<Rightarrow> aggregate_cells fl ids wall period db cs (written + n) tbl')"

definition AggregatePeriod :: "(real \<Rightarrow> real) \<Rightarrow> (nat \<Rightarrow> uuid) \<Rightarrow> instant \<Rightarrow> Period \<Rightarrow> analysis_db \<Rightarrow> metric_tbl \<Rightarrow>
    (nat \<times> metric_error option) \<times> metric_tbl" where
  "AggregatePeriod fl ids wall period db tbl =
     aggregate_cells fl ids wall period db (ListCells (pd_Start period) (pd_End period) db) 0 tbl"

fun aggregate_periods :: "(real \<Rightarrow> real) \<Rightarrow> (nat \<Rightarrow> uuid) \<Rightarrow> instant \<Rightarrow> analysis_db \<Rightarrow> Period list \<Rightarrow> nat \<Rightarrow> metric_tbl \<Rightarrow>
    (nat \<times> metric_error option) \<times> metric_tbl" where
  "aggregate_periods fl ids wall db [] written tbl = ((written, None), tbl)"
| "aggregate_periods fl ids wall db (p # ps) written tbl =
     (case AggregatePeriod fl ids wall p db tbl of
        ((n, Some e), tbl') \<Rightarrow> ((written, Some e), tbl')
      | ((n, None), tbl') \<Rightarrow> aggregate_periods fl ids wall db ps (written + n) tbl')"

definition AggregateBatch :: "(real \<Rightarrow> real) \<Rightarrow> (nat \<Rightarrow> uuid) \<Rightarrow> instant \<Rightarrow> analysis_db \<Rightarrow> metric_tbl \<Rightarrow> (nat \<times> metric_error option) \<times> metric_tbl" where
  "AggregateBatch fl ids now db tbl = aggregate_periods fl ids now db (standardPeriods now) 0 tbl"

section \<open>The rows satisfy the constraints of the table\<close>

definition accs_inv :: "(real \<Rightarrow> real) \<Rightarrow> accs \<Rightarrow> bool" where
  "accs_inv fl a \<longleftrightarrow> list_all (cont_inv fl) [a_temp a, a_wind a, a_humidity a, a_pressure a, a_rainAll a, a_rainWet a] \<and>
     conf_inv fl (a_occ a) \<and> brier_inv fl (a_brier a) \<and>
     (a_occN a = 0 \<longrightarrow> a_occ a = Confusion0 \<and> bsumWeight (a_brier a) = 0)"

definition row_ok_at :: "pending \<Rightarrow> bool" where
  "row_ok_at g \<longleftrightarrow> (\<forall>i. metric_check (g i))"

lemma metric_row_ok:
  assumes "pd_Start period < pd_End period" "\<And>x. v = Some x \<Longrightarrow> 0 < n \<and> brackets ci x"
  shows "row_ok_at (metric cell period variable ty v ci n)"
  using assms by (cases v; cases ci)
    (auto simp: row_ok_at_def metric_check_def metric_def ci_check_def brackets_def split: option.splits)

lemma ratelessRow_ok:
  "pd_Start period < pd_End period \<Longrightarrow> row_ok_at (ratelessRow fl cell period variable ty num den)"
  by (auto simp: ratelessRow_def Let_def brackets_def intro!: metric_row_ok)

context rounding
begin

lemma add_eligible_inv: "cont_inv fl c \<Longrightarrow> 0 \<le> w \<Longrightarrow> cont_inv fl (add_eligible fl f o' q w c)"
  by (simp add: add_eligible_def Continuous_Add_inv)

lemma add_pair_inv:
  assumes "accs_inv fl a"
  shows "accs_inv fl (add_pair fl p a)"
  using assms ProvenanceWeight_bounds(1) [of "pp_ObservationType p"]
  by (auto simp: accs_inv_def add_pair_def Let_def add_eligible_inv Continuous_Add_inv Confusion_Add_inv Brier_Add_inv
      split: option.splits)

lemma accs_run_inv: "accs_inv fl (fold (add_pair fl) ps accs0)"
proof (induction ps rule: rev_induct)
  case Nil
  show ?case by (simp add: accs_inv_def accs0_def cont_inv_0 is_float_0 conf_inv_def brier_inv_def Confusion0_def Brier0_def)
next
  case (snoc p ps)
  then show ?case by (simp add: add_pair_inv)
qed

lemma metric_samples:
  assumes "cont_inv fl c"
  shows "MAE fl c = Some x \<Longrightarrow> 0 < cn c" "RMSE fl c = Some x \<Longrightarrow> 0 < cn c" "Bias fl c = Some x \<Longrightarrow> 0 < cn c"
  using assms by (auto simp: cont_inv_def MAE_def RMSE_def Bias_def split: if_splits)

lemma continuousRows_ok:
  assumes "pd_Start period < pd_End period" "cont_inv fl c"
  shows "list_all row_ok_at (continuousRows fl cell period variable c)"
  unfolding continuousRows_def list.pred_inject
  by (intro conjI TrueI list.pred_inject(1) metric_row_ok [OF assms(1)]) (simp_all add: metric_samples [OF assms(2)] CI_brackets)

lemma ratioRow_ok:
  assumes "pd_Start period < pd_End period" "\<And>x. v = Some x \<Longrightarrow> 0 \<le> x \<and> x \<le> 1 \<and> 0 < d \<and> 0 < n"
  shows "row_ok_at (ratioRow fl cell period ty v d n)"
proof (cases v)
  case None
  show ?thesis unfolding ratioRow_def None option.case by (rule metric_row_ok [OF assms(1)]) simp
next
  case (Some x)
  obtain lo hi where w: "Wilson fl x d = (lo, hi)" by (rule prod.exhaust)
  have "brackets (Some lo, Some hi) x" using Wilson_bounds [OF _ _ _ w] assms(2) [OF Some] by (simp add: brackets_def)
  then show ?thesis using assms(2) [OF Some] by (simp add: ratioRow_def Some w) (intro metric_row_ok [OF assms(1)], simp)
qed

lemma occurrence_ok:
  assumes "accs_inv fl a"
  defines "c \<equiv> a_occ a"
  shows "Recall fl c = Some x \<Longrightarrow> 0 \<le> x \<and> x \<le> 1 \<and> 0 < fadd fl (TP c) (FN c) \<and> 0 < int (a_occN a)"
    and "Precision fl c = Some x \<Longrightarrow> 0 \<le> x \<and> x \<le> 1 \<and> 0 < fadd fl (TP c) (FP c) \<and> 0 < int (a_occN a)"
    and "F1 fl c = Some x \<Longrightarrow> 0 \<le> x \<and> x \<le> 1 \<and> 0 < fadd fl (fadd fl (fmul fl 2 (TP c)) (FP c)) (FN c) \<and> 0 < int (a_occN a)"
    and "FalseAlarmRate fl c = Some x \<Longrightarrow> 0 \<le> x \<and> x \<le> 1 \<and> 0 < fadd fl (FP c) (TN c) \<and> 0 < int (a_occN a)"
    and "ThreatScore fl c = Some x \<Longrightarrow> 0 \<le> x \<and> x \<le> 1 \<and> 0 < fadd fl (fadd fl (TP c) (FP c)) (FN c) \<and> 0 < int (a_occN a)"
    and "OccurrenceAgreement fl c = Some x \<Longrightarrow> 0 \<le> x \<and> x \<le> 1 \<and> 0 < Confusion_N fl c \<and> 0 < int (a_occN a)"
proof -
  have inv: "conf_inv fl c" using assms by (simp add: accs_inv_def)
  have nn: "0 \<le> fadd fl (TP c) (FN c)" "0 \<le> fadd fl (TP c) (FP c)" "0 \<le> fadd fl (fadd fl (fmul fl 2 (TP c)) (FP c)) (FN c)"
    "0 \<le> fadd fl (FP c) (TN c)" "0 \<le> fadd fl (fadd fl (TP c) (FP c)) (FN c)" "0 \<le> Confusion_N fl c"
    using inv by (auto simp: conf_inv_def Confusion_N_def intro!: fadd_nonneg fmul_nonneg)
  have z: "0 < a_occN a" if "c \<noteq> Confusion0" using that assms by (auto simp: accs_inv_def)
  have n0: "Recall fl Confusion0 = None" "Precision fl Confusion0 = None" "F1 fl Confusion0 = None"
    "FalseAlarmRate fl Confusion0 = None" "ThreatScore fl Confusion0 = None" "OccurrenceAgreement fl Confusion0 = None"
    by (simp_all add: Recall_def Precision_def F1_def FalseAlarmRate_def ThreatScore_def OccurrenceAgreement_def Confusion_N_def
        Confusion0_def fadd_def fmul_def fl_0)
  have some: "0 \<le> x \<and> x \<le> 1 \<and> 0 < d \<and> 0 < int (a_occN a)"
    if "f c = Some x" "f Confusion0 = None" "0 \<le> x \<and> x \<le> 1" "0 \<le> d" "d = 0 \<Longrightarrow> f c = None" for f and x d :: real
  proof -
    have "c \<noteq> Confusion0" "d \<noteq> 0" using that by auto
    with that z show ?thesis by simp
  qed
  show "Recall fl c = Some x \<Longrightarrow> 0 \<le> x \<and> x \<le> 1 \<and> 0 < fadd fl (TP c) (FN c) \<and> 0 < int (a_occN a)"
    by (rule some [where f = "Recall fl", OF _ n0(1) ratio_bounds(1) [OF inv] nn(1)], assumption, assumption, simp add: Recall_def)
  show "Precision fl c = Some x \<Longrightarrow> 0 \<le> x \<and> x \<le> 1 \<and> 0 < fadd fl (TP c) (FP c) \<and> 0 < int (a_occN a)"
    by (rule some [where f = "Precision fl", OF _ n0(2) ratio_bounds(2) [OF inv] nn(2)], assumption, assumption, simp add: Precision_def)
  show "F1 fl c = Some x \<Longrightarrow> 0 \<le> x \<and> x \<le> 1 \<and> 0 < fadd fl (fadd fl (fmul fl 2 (TP c)) (FP c)) (FN c) \<and> 0 < int (a_occN a)"
    by (rule some [where f = "F1 fl", OF _ n0(3) ratio3_bounds(1) [OF inv] nn(3)], assumption, assumption, simp add: F1_def)
  show "FalseAlarmRate fl c = Some x \<Longrightarrow> 0 \<le> x \<and> x \<le> 1 \<and> 0 < fadd fl (FP c) (TN c) \<and> 0 < int (a_occN a)"
    by (rule some [where f = "FalseAlarmRate fl", OF _ n0(4) ratio_bounds(3) [OF inv] nn(4)], assumption, assumption, simp add: FalseAlarmRate_def)
  show "ThreatScore fl c = Some x \<Longrightarrow> 0 \<le> x \<and> x \<le> 1 \<and> 0 < fadd fl (fadd fl (TP c) (FP c)) (FN c) \<and> 0 < int (a_occN a)"
    by (rule some [where f = "ThreatScore fl", OF _ n0(5) ratio3_bounds(2) [OF inv] nn(5)], assumption, assumption, simp add: ThreatScore_def)
  show "OccurrenceAgreement fl c = Some x \<Longrightarrow> 0 \<le> x \<and> x \<le> 1 \<and> 0 < Confusion_N fl c \<and> 0 < int (a_occN a)"
    by (rule some [where f = "OccurrenceAgreement fl", OF _ n0(6) OccurrenceAgreement_bounds [OF inv] nn(6)], assumption, assumption, simp add: OccurrenceAgreement_def)
qed

lemma brier_ok:
  assumes "accs_inv fl a" "Score fl (a_brier a) = Some x"
  shows "0 < int (a_occN a)"
  using assms by (auto simp: accs_inv_def Score_def split: if_splits)

lemma pending_rows_ok:
  assumes p: "pd_Start period < pd_End period" and a: "accs_inv fl a"
  shows "list_all row_ok_at (pending_rows fl cell period a counts scheduled success)"
proof -
  have c: "cont_inv fl (a_temp a)" "cont_inv fl (a_wind a)" "cont_inv fl (a_humidity a)" "cont_inv fl (a_pressure a)"
    "cont_inv fl (a_rainAll a)" "cont_inv fl (a_rainWet a)"
    using a by (simp_all add: accs_inv_def)
  have rain: "row_ok_at (metric cell period VarPrecipitation ty (MAE fl x) (MAECI fl x) (int (cn x)))" if "cont_inv fl x" for x ty
    by (rule metric_row_ok [OF p]) (simp add: metric_samples [OF that] CI_brackets)
  have brier: "row_ok_at (metric cell period VarPrecipitation MetricBrier (Score fl (a_brier a)) (ScoreCI fl (a_brier a)) (int (a_occN a)))"
    by (rule metric_row_ok [OF p]) (use brier_ok [OF a] CI_brackets(4) in auto)
  show ?thesis
    unfolding pending_rows_def Let_def list_all_append list.pred_inject
    by (intro conjI TrueI list.pred_inject(1) continuousRows_ok [OF p] ratelessRow_ok [OF p] rain c brier occurrence_ok [OF a, THEN ratioRow_ok [OF p]])
qed

end
section \<open>Publishing the rows\<close>

interpretation mv: versioned am_ID metric_key mr_SupersededBy "\<lambda>i r :: metric_row. r\<lparr>mr_SupersededBy := Some i\<rparr>"
  by unfold_locales (simp_all add: metric_key_def)

definition row_tags :: "(string \<times> string) list" where
  "row_tags = [(v, t). v \<leftarrow> [VarTemperature, VarWindSpeed, VarHumidity, VarPressure], t \<leftarrow> [MetricMAE, MetricRMSE, MetricBias]] @
     map (Pair VarPrecipitation) [MetricRainMAEAll, MetricRainMAEWet, MetricRecall, MetricPrecision, MetricF1, MetricFAR,
       MetricThreatScore, MetricOccurrenceAgreement, MetricBrier] @
     map (\<lambda>v. (v, MetricCoverage)) [VarTemperature, VarWindSpeed, VarHumidity, VarPressure, VarPrecipitation] @
     [(VarAll, MetricReliability)]"

definition cell_key :: "Cell \<Rightarrow> Period \<Rightarrow> string \<times> string \<Rightarrow> uuid \<times> uuid \<times> int \<times> string \<times> string \<times> instant \<times> instant" where
  "cell_key c p = (\<lambda>(v, t). (ce_ProviderID c, ce_LocationID c, ce_HorizonMinutes c, v, t, pd_Start p, pd_End p))"

text \<open>A pending row carries the identifier it is given and a key that does not depend on it.\<close>

definition keyed :: "(uuid \<times> uuid \<times> int \<times> string \<times> string \<times> instant \<times> instant) \<Rightarrow> pending \<Rightarrow> bool" where
  "keyed k g \<longleftrightarrow> (\<forall>i. am_ID (g i) = i \<and> metric_key (g i) = k)"

lemma metric_keyed: "keyed (cell_key c p (v, t)) (metric c p v t x ci n)"
  by (simp add: keyed_def metric_def metric_key_def cell_key_def Let_def split: option.split)

lemma ratioRow_keyed: "keyed (cell_key c p (VarPrecipitation, t)) (ratioRow fl c p t x d n)"
  by (simp add: ratioRow_def metric_keyed split: option.split prod.split)

lemma ratelessRow_keyed: "keyed (cell_key c p (v, t)) (ratelessRow fl c p v t num den)"
  by (simp add: ratelessRow_def Let_def metric_keyed)

lemma pending_rows_keyed:
  "list_all2 keyed (map (cell_key c p) row_tags) (pending_rows fl c p a counts scheduled success)"
  by (simp add: pending_rows_def Let_def row_tags_def continuousRows_def metric_keyed ratioRow_keyed ratelessRow_keyed)

lemma row_tags_distinct: "distinct row_tags" "length row_tags = 27"
  by (simp_all add: row_tags_def var_defs metric_defs)

lemma length_draw [simp]: "length (draw ids k gs) = length gs"
  by (induction gs arbitrary: k) auto

lemma draw_keyed:
  assumes "list_all2 keyed ks gs"
  shows "map am_ID (draw ids k gs) = map (\<lambda>n. ids (k + n)) [0..<length gs]" "map metric_key (draw ids k gs) = ks"
proof -
  show "map am_ID (draw ids k gs) = map (\<lambda>n. ids (k + n)) [0..<length gs]" using assms
  proof (induction arbitrary: k rule: list_all2_induct)
    case (Cons x xs y ys)
    show ?case using Cons.hyps Cons.IH [of "Suc k"]
      by (simp add: keyed_def upt_conv_Cons map_Suc_upt [symmetric] comp_def del: upt_Suc)
  qed simp
  show "map metric_key (draw ids k gs) = ks" using assms
    by (induction arbitrary: k rule: list_all2_induct) (auto simp: keyed_def)
qed

lemma draw_checks: "list_all row_ok_at gs \<Longrightarrow> list_all metric_check (draw ids k gs)"
  by (induction gs arbitrary: k) (auto simp: row_ok_at_def)

lemma stored_fields [simp]:
  "am_ID (stored wall m) = am_ID m" "metric_key (stored wall m) = metric_key m" "mr_SupersededBy (stored wall m) = None"
  "mr_CalculatedAt (stored wall m) = wall"
  by (simp_all add: stored_def AccuracyMetric.extend_def metric_key_def)

lemma SupersedePrevious_eq:
  "SupersedePrevious m = supersede am_ID metric_key mr_SupersededBy (\<lambda>i r. r\<lparr>mr_SupersededBy := Some i\<rparr>) (stored wall m)"
  by (simp add: SupersedePrevious_def supersede_def fun_eq_iff)

lemma publish_metrics_eq:
  assumes "distinct (map am_ID ms)" "set (map am_ID ms) \<inter> am_ID ` set rows = {}" "list_all metric_check ms"
  shows "publish_metrics wall ms rows =
    (Inr (), publish am_ID metric_key mr_SupersededBy (\<lambda>i r. r\<lparr>mr_SupersededBy := Some i\<rparr>) (map (stored wall) ms) rows)"
proof -
  have "fold SupersedePrevious ms rs =
      fold (supersede am_ID metric_key mr_SupersededBy (\<lambda>i r. r\<lparr>mr_SupersededBy := Some i\<rparr>)) (map (stored wall) ms) rs" for rs
    by (induction ms arbitrary: rs) (simp_all add: SupersedePrevious_eq [of _ wall])
  moreover have "\<not> (\<exists>m \<in> set ms. am_ID m \<in> am_ID ` set rows)" using assms(2) by auto
  moreover have "\<not> (\<exists>m \<in> set ms. \<not> metric_check m)" using assms(3) by (auto simp: list_all_iff)
  ultimately show ?thesis using assms(1) by (simp add: publish_metrics_def InsertMetrics_def publish_def)
qed

lemma computeRows_facts:
  assumes "rounding fl" "pd_Start period < pd_End period"
    and ms_def: "ms = computeRows fl ids k cell period pairs counts scheduled success"
  shows "map am_ID ms = map (\<lambda>n. ids (k + n)) [0..<27]" "map metric_key ms = map (cell_key cell period) row_tags"
    and "list_all metric_check ms" "length ms = 27"
proof -
  let ?gs = "pending_rows fl cell period (fold (add_pair fl) pairs accs0) counts scheduled success"
  have l: "length ?gs = 27" using list_all2_lengthD [OF pending_rows_keyed] row_tags_distinct(2) by (metis length_map)
  show "map am_ID ms = map (\<lambda>n. ids (k + n)) [0..<27]" "map metric_key ms = map (cell_key cell period) row_tags"
    unfolding ms_def computeRows_def using draw_keyed [OF pending_rows_keyed] l by metis+
  show "list_all metric_check ms" unfolding ms_def computeRows_def
    by (intro draw_checks rounding.pending_rows_ok [OF assms(1,2)] rounding.accs_run_inv [OF assms(1)])
  show "length ms = 27" unfolding ms_def computeRows_def using l by simp
qed

lemma cell_keys_distinct: "distinct (map (cell_key cell period) row_tags)"
proof -
  have "inj_on (cell_key cell period) (set row_tags)" by (auto simp: inj_on_def cell_key_def)
  then show ?thesis using row_tags_distinct(1) by (simp add: distinct_map)
qed

text \<open>The rows a cell and period are given.\<close>

definition cell_rows :: "(real \<Rightarrow> real) \<Rightarrow> (nat \<Rightarrow> uuid) \<Rightarrow> nat \<Rightarrow> Cell \<Rightarrow> Period \<Rightarrow> analysis_db \<Rightarrow> AccuracyMetric list" where
  "cell_rows fl ids k cell period db =
     computeRows fl ids k cell period (ReadPairs cell (pd_Start period) (pd_End period) db)
       (SnapshotVariableCounts cell (pd_Start period) (pd_End period) db)
       (ScheduledForecastSlots (ce_ProviderID cell) (ce_LocationID cell) (pd_Start period) (pd_End period) db)
       (SuccessfulCollections (ce_ProviderID cell) (ce_LocationID cell) (pd_Start period) (pd_End period) db)"

abbreviation metrics_ok :: "metric_row list \<Rightarrow> bool" where
  "metrics_ok \<equiv> versions_ok am_ID metric_key mr_SupersededBy"

abbreviation live_metrics :: "metric_row list \<Rightarrow> uuid \<times> uuid \<times> int \<times> string \<times> string \<times> instant \<times> instant \<rightharpoonup> metric_row" where
  "live_metrics \<equiv> live_map metric_key mr_SupersededBy"

lemma aggregateCellPeriod_publishes:
  assumes "rounding fl" "pd_Start period < pd_End period" "metrics_ok (mb_rows tbl)"
    and fresh: "fresh_ids ids (mb_drawn tbl) 27 (am_ID ` set (mb_rows tbl))"
  shows "\<exists>rows'. aggregateCellPeriod fl ids wall cell period db tbl = (Inr 27, \<lparr>mb_rows = rows', mb_drawn = mb_drawn tbl + 27\<rparr>) \<and>
    metrics_ok rows' \<and> am_ID ` set rows' = am_ID ` set (mb_rows tbl) \<union> (\<lambda>n. ids (mb_drawn tbl + n)) ` {0..<27} \<and>
    live_metrics rows' = live_metrics (mb_rows tbl) ++
      map_of (map (\<lambda>m. (metric_key m, stored wall m)) (cell_rows fl ids (mb_drawn tbl) cell period db))"
proof -
  let ?ms = "cell_rows fl ids (mb_drawn tbl) cell period db"
  let ?pub = "publish am_ID metric_key mr_SupersededBy (\<lambda>i r. r\<lparr>mr_SupersededBy := Some i\<rparr>) (map (stored wall) ?ms) (mb_rows tbl)"
  have ms: "map am_ID ?ms = map (\<lambda>n. ids (mb_drawn tbl + n)) [0..<27]" "map metric_key ?ms = map (cell_key cell period) row_tags"
    "list_all metric_check ?ms" "length ?ms = 27"
    by (rule computeRows_facts [OF assms(1,2) cell_rows_def])+
  have d: "distinct (map am_ID ?ms)" "set (map am_ID ?ms) \<inter> am_ID ` set (mb_rows tbl) = {}"
    using fresh unfolding ms(1) fresh_ids_def by auto
  have b: "batch_ok am_ID metric_key mr_SupersededBy (map (stored wall) ?ms) (mb_rows tbl)"
    using d assms(3) cell_keys_distinct [of cell period] ms(2) by (auto simp: batch_ok_def versions_ok_def comp_def)
  have ne: "?ms \<noteq> []" using ms(4) by auto
  obtain old where p: "?pub = old @ map (stored wall) ?ms" "list_all2 (mv.aged (map (stored wall) ?ms)) (mb_rows tbl) old"
    using b by (rule mv.publish_shape)
  have "map am_ID old = map am_ID (mb_rows tbl)" using mv.map_ids(1) [OF p(2)] .
  then have "map am_ID ?pub = map am_ID (mb_rows tbl) @ map (\<lambda>n. ids (mb_drawn tbl + n)) [0..<27]"
    unfolding p(1) map_append map_map comp_def stored_fields ms(1) [symmetric] by simp
  from arg_cong [OF this, of set]
  have ids: "am_ID ` set ?pub = am_ID ` set (mb_rows tbl) \<union> (\<lambda>n. ids (mb_drawn tbl + n)) ` {0..<27}"
    by (simp only: set_append set_map set_upt)
  have "aggregateCellPeriod fl ids wall cell period db tbl = (Inr 27, \<lparr>mb_rows = ?pub, mb_drawn = mb_drawn tbl + 27\<rparr>)"
    unfolding aggregateCellPeriod_def Let_def cell_rows_def [symmetric] Run_def publish_metrics_eq [OF d ms(3)]
    using ne ms(4) by simp
  then show ?thesis using mv.publish_ok [OF assms(3) b] mv.publish_refines [OF b] ids by (auto simp: comp_def)
qed

lemma fresh_ids_drop:
  assumes "fresh_ids ids a (j + k) S" "S' = S \<union> (\<lambda>n. ids (a + n)) ` {0..<j}"
  shows "fresh_ids ids (a + j) k S'"
proof -
  have i: "inj_on (\<lambda>n. ids (a + n)) {0..<j + k}" using assms(1) by (simp add: fresh_ids_def distinct_map)
  have "inj_on (\<lambda>n. ids (a + j + n)) {0..<k}"
  proof (rule inj_onI)
    fix x y assume "x \<in> {0..<k}" "y \<in> {0..<k}" "ids (a + j + x) = ids (a + j + y)"
    then show "x = y" using inj_onD [OF i, of "j + x" "j + y"] by (simp add: add.assoc)
  qed
  moreover have "ids (a + j + n) \<notin> S'" if n: "n < k" for n
  proof
    assume "ids (a + j + n) \<in> S'"
    moreover have "ids (a + (j + n)) \<notin> S" using assms(1) n by (simp add: fresh_ids_def)
    ultimately obtain m where "m < j" "ids (a + (j + n)) = ids (a + m)" unfolding assms(2) by (auto simp: add.assoc)
    then show False using inj_onD [OF i, of "j + n" m] n by simp
  qed
  ultimately show ?thesis by (simp add: fresh_ids_def distinct_map)
qed

lemma aggregate_cells_publishes:
  assumes "rounding fl" "pd_Start period < pd_End period" "metrics_ok (mb_rows tbl)"
    and "fresh_ids ids (mb_drawn tbl) (27 * length cells + k) (am_ID ` set (mb_rows tbl))"
  shows "\<exists>tbl'. aggregate_cells fl ids wall period db cells written tbl = ((written + 27 * length cells, None), tbl') \<and>
    metrics_ok (mb_rows tbl') \<and> fresh_ids ids (mb_drawn tbl') k (am_ID ` set (mb_rows tbl'))"
  using assms(3,4)
proof (induction cells arbitrary: written tbl)
  case Nil
  then show ?case by simp
next
  case (Cons c cells)
  have "fresh_ids ids (mb_drawn tbl) (27 + (27 * length cells + k)) (am_ID ` set (mb_rows tbl))"
    using Cons.prems(2) by (simp add: algebra_simps)
  note fr = this
  have "fresh_ids ids (mb_drawn tbl) 27 (am_ID ` set (mb_rows tbl))" using fr by (rule fresh_ids_mono) simp_all
  from aggregateCellPeriod_publishes [OF assms(1,2) Cons.prems(1) this, of wall c db] obtain rows' where
    r: "aggregateCellPeriod fl ids wall c period db tbl = (Inr 27, \<lparr>mb_rows = rows', mb_drawn = mb_drawn tbl + 27\<rparr>)"
      "metrics_ok rows'" "am_ID ` set rows' = am_ID ` set (mb_rows tbl) \<union> (\<lambda>n. ids (mb_drawn tbl + n)) ` {0..<27}" by blast
  let ?t = "\<lparr>mb_rows = rows', mb_drawn = mb_drawn tbl + 27\<rparr>"
  have "fresh_ids ids (mb_drawn ?t) (27 * length cells + k) (am_ID ` set (mb_rows ?t))"
    using fresh_ids_drop [OF fr r(3)] by simp
  with Cons.IH [of ?t "written + 27"] r(2) show ?case unfolding aggregate_cells.simps r(1) by (simp add: add.assoc)
qed

text \<open>The calendar periods.\<close>

lemma day_start: "Date_utc (Year t) (Month t) (DayOfMonth t) = day_of t * Day"
  using Date_utc_of [of t 0] by simp

lemma day_of_mult [simp]: "day_of (n * Day) = n"
  by (simp add: day_of_def)

lemma standardPeriods_eq:
  "standardPeriods now =
    (let d = day_of now; b = (d + 3) mod 7 in
     [\<lparr>pd_Kind = PeriodDaily, pd_Start = d * Day, pd_End = (d + 1) * Day\<rparr>,
      \<lparr>pd_Kind = PeriodWeekly, pd_Start = (d - b) * Day, pd_End = (d - b + 7) * Day\<rparr>,
      \<lparr>pd_Kind = PeriodMonthly, pd_Start = month_start now, pd_End = AddDate 0 1 0 (month_start now)\<rparr>])"
proof -
  have "((day_of now + 4) mod 7 + 6) mod 7 = (day_of now + 3) mod 7"
    using mod_add_left_eq [of "day_of now + 4" 7 6] mod_add_self2 [of "day_of now + 3" "7 :: int"] by simp
  then show ?thesis
    by (simp add: standardPeriods_def Let_def day_start AddDate_days Weekday_def month_start_def algebra_simps)
qed

lemma standardPeriods_ordered: "p \<in> set (standardPeriods now) \<Longrightarrow> pd_Start p \<le> now \<and> now < pd_End p"
proof -
  have d: "day_of now * Day \<le> now" "now < (day_of now + 1) * Day"
    using div_mult_mod_eq [of now Day] by (simp_all add: day_of_def algebra_simps)
  define b where "b = (day_of now + 3) mod 7"
  have "0 \<le> b" "b < 7" by (simp_all add: b_def)
  then have "(day_of now - b) * Day \<le> day_of now * Day" "(day_of now + 1) * Day \<le> (day_of now - b + 7) * Day"
    by (intro mult_right_mono; simp)+
  then have w: "(day_of now - (day_of now + 3) mod 7) * Day \<le> now" "now < (day_of now - (day_of now + 3) mod 7 + 7) * Day"
    using d unfolding b_def by linarith+
  assume "p \<in> set (standardPeriods now)"
  then show ?thesis using d w month_start_le [of now] month_start_gt [of now] by (auto simp: standardPeriods_eq Let_def)
qed

lemma aggregate_periods_publishes:
  assumes "rounding fl" "\<And>p. p \<in> set ps \<Longrightarrow> pd_Start p < pd_End p" "metrics_ok (mb_rows tbl)"
    and "fresh_ids ids (mb_drawn tbl) (27 * (\<Sum>p\<leftarrow>ps. length (ListCells (pd_Start p) (pd_End p) db))) (am_ID ` set (mb_rows tbl))"
  shows "\<exists>tbl'. aggregate_periods fl ids wall db ps written tbl =
      ((written + 27 * (\<Sum>p\<leftarrow>ps. length (ListCells (pd_Start p) (pd_End p) db)), None), tbl') \<and> metrics_ok (mb_rows tbl')"
  using assms(2-4)
proof (induction ps arbitrary: written tbl)
  case (Cons p ps)
  let ?n = "length (ListCells (pd_Start p) (pd_End p) db)" and ?m = "\<Sum>p\<leftarrow>ps. length (ListCells (pd_Start p) (pd_End p) db)"
  have "fresh_ids ids (mb_drawn tbl) (27 * ?n + 27 * ?m) (am_ID ` set (mb_rows tbl))"
    using Cons.prems(3) by (simp add: algebra_simps)
  from aggregate_cells_publishes [OF assms(1) Cons.prems(1) Cons.prems(2) this, of p wall db 0] obtain t where
    t: "AggregatePeriod fl ids wall p db tbl = ((27 * ?n, None), t)" "metrics_ok (mb_rows t)"
      "fresh_ids ids (mb_drawn t) (27 * ?m) (am_ID ` set (mb_rows t))"
    unfolding AggregatePeriod_def by auto
  from Cons.IH [OF _ t(2,3), of "written + 27 * ?n"] Cons.prems(1) show ?case
    unfolding aggregate_periods.simps t(1) by (simp add: algebra_simps)
qed simp

section \<open>Sample data\<close>

definition sample_pair :: MatchedEvaluation where
  "sample_pair = newPair 50 0 (to_match sample_snapshot) 1 0"

definition sample_analysis :: analysis_db where
  "sample_analysis = \<lparr>an_snaps = [sample_snapshot], an_obs = [sample_obs 1 (Some 18) ''valid''], an_pairs = [sample_pair],
     an_slots = [], an_configs = [], an_collections = []\<rparr>"

definition sample_cell :: Cell where
  "sample_cell = \<lparr>ce_ProviderID = 3, ce_LocationID = 7, ce_HorizonMinutes = 60\<rparr>"

definition no_metrics :: metric_tbl where
  "no_metrics = \<lparr>mb_rows = [], mb_drawn = 0\<rparr>"

lemma fresh_seq_ids:
  assumes "a + k < 2 ^ 64"
  shows "fresh_ids seq_ids a k {}"
proof -
  have "uint (seq_ids n) = int n + 1" if "n < a + k" for n
  proof -
    have "int n + 1 < 2 ^ 128" using that assms by simp
    then show ?thesis unfolding seq_ids_def uint_word_of_int by (simp add: mod_pos_pos_trivial)
  qed
  then have "inj_on (\<lambda>n. seq_ids (a + n)) {0..<k}"
    by (intro inj_onI) (metis add_left_cancel add_less_cancel_left atLeastLessThan_iff add_right_cancel of_nat_eq_iff)
  then show ?thesis by (simp add: fresh_ids_def distinct_map)
qed

lemma sample_ReadPairs:
  "ReadPairs sample_cell from to sample_analysis = (if from \<le> 0 \<and> 0 < to then [pair_record sample_snapshot (sample_obs 1 (Some 18) ''valid'')] else [])"
  by (simp add: ReadPairs_def sample_cell_def sample_analysis_def sample_pair_def newPair_def to_match_def sample_snapshot_def
      sample_obs_def observation_live_def QualitySuspect_def)

lemma sample_cells: "ListCells from to sample_analysis = (if from \<le> 0 \<and> 0 < to then [sample_cell] else [])"
  by (simp add: ListCells_def sample_cell_def sample_analysis_def sample_pair_def newPair_def to_match_def sample_snapshot_def
      sample_obs_def observation_live_def nub_def)


section \<open>Correctness of the aggregation\<close>

text \<open>C5. Aggregating a cell for a period refines an override of the published metrics. In binary64 arithmetic,
  whatever pairs and counts are read, the 27 computed rows satisfy every constraint of the table (value null exactly when
  the sample is empty, the interval brackets the value), so the transaction always commits; afterwards the map from logical keys to live
  rows is the old one overridden by exactly those rows, each key has one live row, and every older version still
  resolves to its successor.\<close>

theorem aggregation_refines_override:
  assumes "pd_Start period < pd_End period" "metrics_ok (mb_rows tbl)"
    and "fresh_ids ids (mb_drawn tbl) 27 (am_ID ` set (mb_rows tbl))"
  shows "\<exists>rows'. aggregateCellPeriod fl64 ids wall cell period db tbl = (Inr 27, \<lparr>mb_rows = rows', mb_drawn = mb_drawn tbl + 27\<rparr>) \<and>
    metrics_ok rows' \<and>
    live_metrics rows' = live_metrics (mb_rows tbl) ++
      map_of (map (\<lambda>m. (metric_key m, stored wall m)) (cell_rows fl64 ids (mb_drawn tbl) cell period db))"
  using aggregateCellPeriod_publishes [OF b64.rounding_axioms assms] by blast

theorem aggregation_refines_override_witness:
  "\<exists>rows'. aggregateCellPeriod fl64 seq_ids 0 sample_cell (hd (standardPeriods 0)) sample_analysis no_metrics =
      (Inr 27, \<lparr>mb_rows = rows', mb_drawn = 27\<rparr>) \<and> metrics_ok rows' \<and>
    live_metrics rows' = map_of (map (\<lambda>m. (metric_key m, stored 0 m))
      (cell_rows fl64 seq_ids 0 sample_cell (hd (standardPeriods 0)) sample_analysis))"
proof -
  have "hd (standardPeriods 0) \<in> set (standardPeriods 0)" by (simp add: standardPeriods_eq Let_def)
  from standardPeriods_ordered [OF this] have p: "pd_Start (hd (standardPeriods 0)) < pd_End (hd (standardPeriods 0))" by linarith
  have "metrics_ok (mb_rows no_metrics)" "fresh_ids seq_ids (mb_drawn no_metrics) 27 (am_ID ` set (mb_rows no_metrics))"
    "live_metrics (mb_rows no_metrics) = Map.empty"
    using fresh_seq_ids [of 0 27] by (simp_all add: no_metrics_def versions_ok_def live_map_def live_rows_def)
  with aggregation_refines_override [OF p, of no_metrics seq_ids 0 sample_cell sample_analysis] show ?thesis
    by (simp add: no_metrics_def)
qed

text \<open>C26. The batch covers the current day, the current week from Monday and the current month, each of which contains the
  present; it never stops early: it writes 27 rows for every cell with a live pair in each period, and
  leaves one live row per key.\<close>

theorem AggregateBatch_completes:
  assumes "metrics_ok (mb_rows tbl)"
    and "n = (\<Sum>p\<leftarrow>standardPeriods now. length (ListCells (pd_Start p) (pd_End p) db))"
    and "fresh_ids ids (mb_drawn tbl) (27 * n) (am_ID ` set (mb_rows tbl))" "p \<in> set (standardPeriods now)"
  shows "fst (AggregateBatch fl64 ids now db tbl) = (27 * n, None) \<and> metrics_ok (mb_rows (snd (AggregateBatch fl64 ids now db tbl))) \<and>
    pd_Start p \<le> now \<and> now < pd_End p \<and> (pd_Kind p = PeriodWeekly \<longrightarrow> Weekday (pd_Start p) = 1)"
proof -
  have "pd_Start q < pd_End q" if "q \<in> set (standardPeriods now)" for q using standardPeriods_ordered [OF that] by linarith
  from aggregate_periods_publishes [OF b64.rounding_axioms this assms(1) assms(3) [unfolded assms(2)], of now 0]
  have "fst (AggregateBatch fl64 ids now db tbl) = (27 * n, None)" "metrics_ok (mb_rows (snd (AggregateBatch fl64 ids now db tbl)))"
    unfolding AggregateBatch_def assms(2) by auto
  moreover have "Weekday (pd_Start p) = 1" if "pd_Kind p = PeriodWeekly"
  proof -
    have "pd_Start p = (day_of now - (day_of now + 3) mod 7) * Day"
      using assms(4) that by (auto simp: standardPeriods_eq Let_def)
    then have "Weekday (pd_Start p) = (day_of now - (day_of now + 3) mod 7 + 4) mod 7" by (simp only: Weekday_def day_of_mult)
    then show ?thesis by presburger
  qed
  ultimately show ?thesis using standardPeriods_ordered [OF assms(4)] by blast
qed

theorem AggregateBatch_completes_witness:
  "fst (AggregateBatch fl64 seq_ids 0 sample_analysis no_metrics) = (81, None)"
proof -
  have n: "(\<Sum>p\<leftarrow>standardPeriods 0. length (ListCells (pd_Start p) (pd_End p) sample_analysis)) = 3"
  proof -
    have "length (ListCells (pd_Start p) (pd_End p) sample_analysis) = 1" if "p \<in> set (standardPeriods 0)" for p
      using standardPeriods_ordered [OF that] by (simp add: sample_cells)
    then have "(\<Sum>p\<leftarrow>standardPeriods 0. length (ListCells (pd_Start p) (pd_End p) sample_analysis)) = (\<Sum>p\<leftarrow>standardPeriods 0. 1)"
      by (intro arg_cong [where f = sum_list] map_cong) simp_all
    moreover have "length (standardPeriods 0) = 3" by (simp add: standardPeriods_eq Let_def)
    ultimately show ?thesis by (simp add: sum_list_triv)
  qed
  have t: "metrics_ok (mb_rows no_metrics)" "fresh_ids seq_ids (mb_drawn no_metrics) (27 * 3) (am_ID ` set (mb_rows no_metrics))"
    using fresh_seq_ids [of 0 81] by (simp_all add: no_metrics_def versions_ok_def live_rows_def)
  have "hd (standardPeriods 0) \<in> set (standardPeriods 0)" by (simp add: standardPeriods_eq Let_def)
  from AggregateBatch_completes [OF t(1) n [symmetric] t(2) this, THEN conjunct1] show ?thesis by simp
qed

end
