(* ===== verification/Ranking.thy ===== *)
theory Ranking
  imports Aggregation
begin

text \<open>
  The ranking engine: the cohort scoring of \<^verbatim>\<open>internal/analysis/domain/ranking.go\<close>, the service of
  \<^verbatim>\<open>internal/analysis/rank.go\<close> and the table \<^verbatim>\<open>provider_rankings\<close>
  (\<^verbatim>\<open>adapters/persistence/analysispg/rankingpg.go\<close>). A missing or nil map entry of the source is
  \<open>None\<close>; the component breakdown is kept as the list that is marshalled to JSON.
\<close>

section \<open>Scoring a cohort\<close>

definition WeightsVersion :: string where "WeightsVersion = ''w-2026.1''"

datatype RankingStatus = StatusRanked | StatusProvisionally | StatusUnranked

definition ProfileUniform :: string where "ProfileUniform = ''uniform''"

definition epsilon :: "(real \<Rightarrow> real) \<Rightarrow> real" where "epsilon fl = fl (1 / 10 ^ 9)"

definition rankedMinPairs :: int where "rankedMinPairs = 30"
definition provisionalMinPairs :: int where "provisionalMinPairs = 10"
definition coverageRankedMin :: "(real \<Rightarrow> real) \<Rightarrow> real" where "coverageRankedMin fl = fl 0.8"
definition coverageFloor :: "(real \<Rightarrow> real) \<Rightarrow> real" where "coverageFloor fl = fl 0.5"
definition minCalendarDays :: int where "minCalendarDays = 7"

datatype direction = lowerBetter | higherBetter | directValue

record Component =
  cp_Key :: string
  cp_Weight :: real
  cp_Direction :: direction

definition Components :: "(real \<Rightarrow> real) \<Rightarrow> Component list" where
  "Components fl =
     [\<lparr>cp_Key = ''temp_mae'', cp_Weight = fl 0.30, cp_Direction = lowerBetter\<rparr>,
      \<lparr>cp_Key = ''precip_f1'', cp_Weight = fl 0.25, cp_Direction = higherBetter\<rparr>,
      \<lparr>cp_Key = ''rain_mae_all'', cp_Weight = fl 0.15, cp_Direction = lowerBetter\<rparr>,
      \<lparr>cp_Key = ''wind_mae'', cp_Weight = fl 0.15, cp_Direction = lowerBetter\<rparr>,
      \<lparr>cp_Key = ''temp_bias_abs'', cp_Weight = fl 0.05, cp_Direction = lowerBetter\<rparr>,
      \<lparr>cp_Key = ''coverage'', cp_Weight = fl 0.05, cp_Direction = directValue\<rparr>,
      \<lparr>cp_Key = ''reliability'', cp_Weight = fl 0.05, cp_Direction = directValue\<rparr>]"

record ProviderInput =
  pi_ProviderID :: uuid
  pi_Values :: "string \<Rightarrow> real option"
  pi_CIHalf :: "string \<Rightarrow> real option"
  pi_TempSampleCount :: int
  pi_PrecipSampleCount :: int
  pi_CalendarDays :: int
  pi_Coverage :: "real option"
  pi_Reliability :: "real option"

record ComponentScore =
  co_Component :: string
  co_Value :: "real option"
  co_Normalized :: "real option"
  co_Weight :: real
  co_Excluded :: bool

record ProviderRanking =
  rk_ProviderID :: uuid
  rk_CompositeScore :: "real option"
  rk_CILower :: "real option"
  rk_CIUpper :: "real option"
  rk_Status :: RankingStatus
  rk_SampleCount :: int
  rk_Coverage :: "real option"
  rk_Reliability :: "real option"
  rk_ComponentScores :: "ComponentScore list"

fun minOf :: "real list \<Rightarrow> real" where
  "minOf [] = 0"
| "minOf (x # xs) = fold (\<lambda>y m. if y < m then y else m) xs x"

fun maxOf :: "real list \<Rightarrow> real" where
  "maxOf [] = 0"
| "maxOf (x # xs) = fold (\<lambda>y m. if y > m then y else m) xs x"

definition minInt :: "int \<Rightarrow> int \<Rightarrow> int" where
  "minInt a b = (if a < b then a else b)"

definition clamp01 :: "real \<Rightarrow> real" where
  "clamp01 x = (if x < 0 then 0 else if x > 1 then 1 else x)"

definition normalize :: "(real \<Rightarrow> real) \<Rightarrow> Component \<Rightarrow> real \<Rightarrow> real \<Rightarrow> real \<Rightarrow> real" where
  "normalize fl c v best shift = (case cp_Direction c of
      lowerBetter \<Rightarrow> fdiv fl best (fadd fl v shift)
    | higherBetter \<Rightarrow> (if best = 0 then 0 else fdiv fl v best)
    | directValue \<Rightarrow> v)"

definition rank_status :: "(real \<Rightarrow> real) \<Rightarrow> ProviderInput \<Rightarrow> RankingStatus" where
  "rank_status fl p =
     (let cov = (case pi_Coverage p of None \<Rightarrow> 0 | Some c \<Rightarrow> c) in
      if pi_TempSampleCount p < provisionalMinPairs \<or> pi_PrecipSampleCount p < provisionalMinPairs \<or> cov < coverageFloor fl
      then StatusUnranked
      else if pi_TempSampleCount p < rankedMinPairs \<or> pi_PrecipSampleCount p < rankedMinPairs \<or>
        cov < coverageRankedMin fl \<or> pi_CalendarDays p < minCalendarDays
      then StatusProvisionally
      else StatusRanked)"

text \<open>A component counts when every provider of the cohort has a value for it.\<close>

definition comp_active :: "ProviderInput list \<Rightarrow> Component \<Rightarrow> bool" where
  "comp_active cohort c \<longleftrightarrow> cohort \<noteq> [] \<and> list_all (\<lambda>p. pi_Values p (cp_Key c) \<noteq> None) cohort"

definition activeWeight :: "(real \<Rightarrow> real) \<Rightarrow> ProviderInput list \<Rightarrow> real" where
  "activeWeight fl cohort = fold (\<lambda>c w. if comp_active cohort c then fadd fl w (cp_Weight c) else w) (Components fl) 0"

definition comp_values :: "ProviderInput list \<Rightarrow> Component \<Rightarrow> real list" where
  "comp_values cohort c = map (\<lambda>p. the (pi_Values p (cp_Key c))) cohort"

text \<open>The cohort best of a component and the shift that keeps it from zero.\<close>

definition best_shift :: "(real \<Rightarrow> real) \<Rightarrow> ProviderInput list \<Rightarrow> Component \<Rightarrow> real \<times> real" where
  "best_shift fl cohort c =
     (if \<not> comp_active cohort c \<or> cp_Direction c = directValue then (0, 0)
      else case cp_Direction c of
        lowerBetter \<Rightarrow> (let m = minOf (comp_values cohort c) in if m = 0 then (fadd fl m (epsilon fl), epsilon fl) else (m, 0))
      | _ \<Rightarrow> (maxOf (comp_values cohort c), 0))"

text \<open>One component of one provider: the composite, the half interval and the breakdown so far.\<close>

definition score_step :: "(real \<Rightarrow> real) \<Rightarrow> ProviderInput list \<Rightarrow> ProviderInput \<Rightarrow> Component \<Rightarrow>
    real \<times> real \<times> ComponentScore list \<Rightarrow> real \<times> real \<times> ComponentScore list" where
  "score_step fl cohort p c = (\<lambda>(composite, ciHalf, scores).
     let v = pi_Values p (cp_Key c);
         cs = \<lparr>co_Component = cp_Key c, co_Value = v, co_Normalized = None, co_Weight = cp_Weight c, co_Excluded = \<not> comp_active cohort c\<rparr>
     in if \<not> comp_active cohort c then (composite, ciHalf, scores @ [cs])
        else let w = fdiv fl (cp_Weight c) (activeWeight fl cohort);
                 norm = (case best_shift fl cohort c of (best, shift) \<Rightarrow> normalize fl c (the v) best shift);
                 composite' = fadd fl composite (fmul fl w norm);
                 ciHalf' = (case pi_CIHalf p (cp_Key c) of
                    Some h \<Rightarrow> if cp_Direction c \<noteq> directValue \<and> the v \<noteq> 0
                              then fadd fl ciHalf (fmul fl (fmul fl w norm) (fdiv fl h (the v))) else ciHalf
                  | None \<Rightarrow> ciHalf)
             in (composite', ciHalf', scores @ [cs\<lparr>co_Weight := w, co_Normalized := Some norm\<rparr>]))"

definition rank_one :: "(real \<Rightarrow> real) \<Rightarrow> ProviderInput list \<Rightarrow> ProviderInput \<Rightarrow> ProviderRanking" where
  "rank_one fl cohort p =
     (case fold (score_step fl cohort p) (Components fl) (0, 0, []) of (composite0, ciHalf0, scores) \<Rightarrow>
        let r = \<lparr>rk_ProviderID = pi_ProviderID p, rk_CompositeScore = None, rk_CILower = None, rk_CIUpper = None,
              rk_Status = rank_status fl p, rk_SampleCount = minInt (pi_TempSampleCount p) (pi_PrecipSampleCount p),
              rk_Coverage = pi_Coverage p, rk_Reliability = pi_Reliability p, rk_ComponentScores = scores\<rparr>
        in if rk_Status r = StatusUnranked then r
           else let (composite1, ciHalf) =
                      (case pi_Coverage p of
                         Some cov \<Rightarrow> if cov < coverageRankedMin fl
                           then let penalty = fdiv fl cov (coverageRankedMin fl)
                                in (fmul fl composite0 penalty, fmul fl ciHalf0 penalty)
                           else (composite0, ciHalf0)
                       | None \<Rightarrow> (composite0, ciHalf0));
                    composite = clamp01 composite1;
                    r1 = r\<lparr>rk_CompositeScore := Some composite\<rparr>
                in if ciHalf > 0
                   then r1\<lparr>rk_CILower := Some (clamp01 (fsub fl composite ciHalf)), rk_CIUpper := Some (clamp01 (fadd fl composite ciHalf))\<rparr>
                   else r1)"

definition RankCohort :: "(real \<Rightarrow> real) \<Rightarrow> ProviderInput list \<Rightarrow> ProviderRanking list" where
  "RankCohort fl cohort = map (rank_one fl cohort) cohort"


section \<open>The order of publication\<close>

definition ciOverlap :: "ProviderRanking \<Rightarrow> ProviderRanking \<Rightarrow> bool" where
  "ciOverlap a b = (case (rk_CILower a, rk_CIUpper a, rk_CILower b, rk_CIUpper b) of
     (Some al, Some ah, Some bl, Some bh) \<Rightarrow> al \<le> bh \<and> bl \<le> ah | _ \<Rightarrow> False)"

fun rank_groups :: "ProviderRanking list \<Rightarrow> nat list list \<Rightarrow> nat list \<Rightarrow> nat list list" where
  "rank_groups rankings groups [] = groups"
| "rank_groups rankings groups (i # is) =
     (if groups \<noteq> [] \<and> ciOverlap (rankings ! hd (last groups)) (rankings ! i)
      then rank_groups rankings (butlast groups @ [last groups @ [i]]) is
      else rank_groups rankings (groups @ [[i]]) is)"

definition RankOrder :: "ProviderRanking list \<Rightarrow> nat list list" where
  "RankOrder rankings =
     (let idx = filter (\<lambda>i. rk_CompositeScore (rankings ! i) \<noteq> None) [0..<length rankings];
          sorted_idx = sort_less (\<lambda>a b. the (rk_CompositeScore (rankings ! a)) > the (rk_CompositeScore (rankings ! b))) idx
      in rank_groups rankings [] sorted_idx)"


section \<open>The service\<close>

record LocationHorizon =
  lh_LocationID :: uuid
  lh_HorizonMinutes :: int

record MetricValue =
  mval_ProviderID :: uuid
  mval_Variable :: string
  mval_MetricType :: string
  mval_Value :: "real option"
  mval_CILower :: "real option"
  mval_CIUpper :: "real option"
  mval_SampleCount :: int

record RankingRow =
  rr_ID :: uuid
  rr_ProviderID :: uuid
  rr_LocationID :: uuid
  rr_HorizonMinutes :: int
  rr_CompositeScore :: "real option"
  rr_CILower :: "real option"
  rr_CIUpper :: "real option"
  rr_Status :: RankingStatus
  rr_SampleCount :: int
  rr_Coverage :: "real option"
  rr_Reliability :: "real option"
  rr_ComponentScores :: "ComponentScore list"
  rr_MethodologyVersion :: string
  rr_WeightsVersion :: string
  rr_HorizonProfile :: string
  rr_PeriodStart :: instant
  rr_PeriodEnd :: instant

record ranking_row = RankingRow +
  rs_CalculatedAt :: instant
  rs_SupersededBy :: "uuid option"

record ranking_tbl =
  rb_rows :: "ranking_row list"
  rb_drawn :: nat

definition ListRankingCells :: "instant \<Rightarrow> instant \<Rightarrow> metric_row list \<Rightarrow> LocationHorizon list" where
  "ListRankingCells from to rows = nub
     [\<lparr>lh_LocationID = am_LocationID m, lh_HorizonMinutes = am_HorizonMinutes m\<rparr>.
       m \<leftarrow> rows, am_PeriodStart m = from \<and> am_PeriodEnd m = to \<and> mr_SupersededBy m = None]"

definition ReadCohortMetrics :: "uuid \<Rightarrow> int \<Rightarrow> instant \<Rightarrow> instant \<Rightarrow> metric_row list \<Rightarrow> MetricValue list" where
  "ReadCohortMetrics loc horizon from to rows =
     [\<lparr>mval_ProviderID = am_ProviderID m, mval_Variable = am_Variable m, mval_MetricType = am_MetricType m, mval_Value = am_Value m,
       mval_CILower = am_CILower m, mval_CIUpper = am_CIUpper m, mval_SampleCount = am_SampleCount m\<rparr>.
       m \<leftarrow> rows, am_LocationID m = loc \<and> am_HorizonMinutes m = horizon \<and> am_PeriodStart m = from \<and> am_PeriodEnd m = to \<and>
         mr_SupersededBy m = None]"

text \<open>What \<open>buildCohort\<close> collects of a provider.\<close>

record cacc =
  ca_values :: "string \<Rightarrow> real option"
  ca_ciHalf :: "string \<Rightarrow> real option"
  ca_tempSample :: int
  ca_precipSample :: int
  ca_coverages :: "real list"

definition cacc0 :: cacc where
  "cacc0 = \<lparr>ca_values = Map.empty, ca_ciHalf = Map.empty, ca_tempSample = 0, ca_precipSample = 0, ca_coverages = []\<rparr>"

definition halfOf :: "(real \<Rightarrow> real) \<Rightarrow> MetricValue \<Rightarrow> real option" where
  "halfOf fl m = (case (mval_CILower m, mval_CIUpper m) of (Some lo, Some hi) \<Rightarrow> Some (fdiv fl (fsub fl hi lo) 2) | _ \<Rightarrow> None)"

definition take_metric :: "(real \<Rightarrow> real) \<Rightarrow> MetricValue \<Rightarrow> cacc \<Rightarrow> cacc" where
  "take_metric fl m a =
     (let var = mval_Variable m; ty = mval_MetricType m in
      if var = VarTemperature \<and> ty = MetricMAE
      then a\<lparr>ca_values := (ca_values a)(''temp_mae'' := mval_Value m), ca_ciHalf := (ca_ciHalf a)(''temp_mae'' := halfOf fl m),
             ca_tempSample := mval_SampleCount m\<rparr>
      else if var = VarTemperature \<and> ty = MetricBias
      then a\<lparr>ca_values := (case mval_Value m of None \<Rightarrow> ca_values a | Some v \<Rightarrow> (ca_values a)(''temp_bias_abs'' := Some \<bar>v\<bar>)),
             ca_ciHalf := (ca_ciHalf a)(''temp_bias_abs'' := halfOf fl m)\<rparr>
      else if var = VarPrecipitation \<and> ty = MetricF1
      then a\<lparr>ca_values := (ca_values a)(''precip_f1'' := mval_Value m), ca_ciHalf := (ca_ciHalf a)(''precip_f1'' := halfOf fl m),
             ca_precipSample := mval_SampleCount m\<rparr>
      else if var = VarPrecipitation \<and> ty = MetricRainMAEAll
      then a\<lparr>ca_values := (ca_values a)(''rain_mae_all'' := mval_Value m), ca_ciHalf := (ca_ciHalf a)(''rain_mae_all'' := halfOf fl m)\<rparr>
      else if var = VarWindSpeed \<and> ty = MetricMAE
      then a\<lparr>ca_values := (ca_values a)(''wind_mae'' := mval_Value m), ca_ciHalf := (ca_ciHalf a)(''wind_mae'' := halfOf fl m)\<rparr>
      else if ty = MetricCoverage
      then (case mval_Value m of None \<Rightarrow> a | Some v \<Rightarrow> a\<lparr>ca_coverages := ca_coverages a @ [v]\<rparr>)
      else if var = VarAll \<and> ty = MetricReliability
      then a\<lparr>ca_values := (ca_values a)(''reliability'' := mval_Value m)\<rparr>
      else a)"

text \<open>The providers in the order they are first seen, each with what its metrics add up to.\<close>

definition provider_order :: "MetricValue list \<Rightarrow> uuid list" where
  "provider_order vals = nub (map mval_ProviderID vals)"

definition cohort_input :: "(real \<Rightarrow> real) \<Rightarrow> int \<Rightarrow> MetricValue list \<Rightarrow> uuid \<Rightarrow> ProviderInput" where
  "cohort_input fl calendarDays vals i =
     (let a = fold (take_metric fl) (filter (\<lambda>m. mval_ProviderID m = i) vals) cacc0;
          coverage = (if ca_coverages a = [] then None else Some (minOf (ca_coverages a)));
          values = (ca_values a)(''coverage'' := coverage)
      in \<lparr>pi_ProviderID = i, pi_Values = values, pi_CIHalf = ca_ciHalf a, pi_TempSampleCount = ca_tempSample a,
          pi_PrecipSampleCount = ca_precipSample a, pi_CalendarDays = calendarDays, pi_Coverage = coverage,
          pi_Reliability = values ''reliability''\<rparr>)"

definition buildCohort :: "(real \<Rightarrow> real) \<Rightarrow> MetricValue list \<Rightarrow> int \<Rightarrow> ProviderInput list" where
  "buildCohort fl vals calendarDays = map (cohort_input fl calendarDays vals) (provider_order vals)"

definition toRow :: "LocationHorizon \<Rightarrow> Period \<Rightarrow> ProviderRanking \<Rightarrow> uuid \<Rightarrow> RankingRow" where
  "toRow cell period r fresh = \<lparr>rr_ID = fresh, rr_ProviderID = rk_ProviderID r, rr_LocationID = lh_LocationID cell,
     rr_HorizonMinutes = lh_HorizonMinutes cell, rr_CompositeScore = rk_CompositeScore r, rr_CILower = rk_CILower r,
     rr_CIUpper = rk_CIUpper r, rr_Status = rk_Status r, rr_SampleCount = rk_SampleCount r, rr_Coverage = rk_Coverage r,
     rr_Reliability = rk_Reliability r, rr_ComponentScores = rk_ComponentScores r, rr_MethodologyVersion = MethodologyVersion,
     rr_WeightsVersion = WeightsVersion, rr_HorizonProfile = ProfileUniform, rr_PeriodStart = pd_Start period,
     rr_PeriodEnd = pd_End period\<rparr>"

datatype ranking_error = RankingDuplicateID | RankingCheck

definition in_unit :: "real option \<Rightarrow> bool" where
  "in_unit v = (case v of None \<Rightarrow> True | Some x \<Rightarrow> 0 \<le> x \<and> x \<le> 1)"

definition ranking_check :: "RankingRow \<Rightarrow> bool" where
  "ranking_check r \<longleftrightarrow> 0 \<le> rr_SampleCount r \<and> in_unit (rr_Coverage r) \<and> in_unit (rr_Reliability r) \<and>
     rr_PeriodStart r < rr_PeriodEnd r \<and> (rr_CompositeScore r = None \<longleftrightarrow> rr_Status r = StatusUnranked) \<and> in_unit (rr_CompositeScore r)"

definition ranking_key :: "'a RankingRow_scheme \<Rightarrow> uuid \<times> uuid \<times> int \<times> string \<times> instant \<times> instant" where
  "ranking_key r = (rr_ProviderID r, rr_LocationID r, rr_HorizonMinutes r, rr_HorizonProfile r, rr_PeriodStart r, rr_PeriodEnd r)"

definition stored_ranking :: "instant \<Rightarrow> RankingRow \<Rightarrow> ranking_row" where
  "stored_ranking wall r = RankingRow.extend r \<lparr>rs_CalculatedAt = wall, rs_SupersededBy = None\<rparr>"

definition InsertRankings :: "instant \<Rightarrow> RankingRow list \<Rightarrow> ranking_row list \<Rightarrow> (ranking_error, unit) result \<times> ranking_row list" where
  "InsertRankings wall rs rows =
     (if \<not> distinct (map rr_ID rs) \<or> (\<exists>r \<in> set rs. rr_ID r \<in> rr_ID ` set rows) then (Inl RankingDuplicateID, rows)
      else if \<exists>r \<in> set rs. \<not> ranking_check r then (Inl RankingCheck, rows)
      else (Inr (), rows @ map (stored_ranking wall) rs))"

definition SupersedePreviousRankings :: "RankingRow \<Rightarrow> ranking_row list \<Rightarrow> ranking_row list" where
  "SupersedePreviousRankings r rows =
     update_where (\<lambda>q. ranking_key q = ranking_key r \<and> rs_SupersededBy q = None \<and> rr_ID q \<noteq> rr_ID r)
       (\<lambda>q. q\<lparr>rs_SupersededBy := Some (rr_ID r)\<rparr>) rows"

definition publish_rankings :: "instant \<Rightarrow> RankingRow list \<Rightarrow> ranking_row list \<Rightarrow> (ranking_error, unit) result \<times> ranking_row list" where
  "publish_rankings wall rs rows =
     (case InsertRankings wall rs rows of (Inl e, rows') \<Rightarrow> (Inl e, rows') | (Inr _, rows') \<Rightarrow> (Inr (), fold SupersedePreviousRankings rs rows'))"

text \<open>\<^verbatim>\<open>Duration.Hours\<close>.\<close>

definition Hours :: "(real \<Rightarrow> real) \<Rightarrow> duration \<Rightarrow> real" where
  "Hours fl d = (let q = sgn d * (\<bar>d\<bar> div Hour); r = d - q * Hour
     in fadd fl (fl (of_int q)) (fdiv fl (fl (of_int r)) (fl (of_int Hour))))"

definition period_days :: "(real \<Rightarrow> real) \<Rightarrow> Period \<Rightarrow> int" where
  "period_days fl p = trunc_int (fdiv fl (Hours fl (pd_End p - pd_Start p)) 24)"

definition cell_rankings :: "(real \<Rightarrow> real) \<Rightarrow> (nat \<Rightarrow> uuid) \<Rightarrow> nat \<Rightarrow> LocationHorizon \<Rightarrow> Period \<Rightarrow> metric_row list \<Rightarrow> RankingRow list" where
  "cell_rankings fl ids k cell period metrics =
     draw ids k (map (toRow cell period) (RankCohort fl (buildCohort fl
       (ReadCohortMetrics (lh_LocationID cell) (lh_HorizonMinutes cell) (pd_Start period) (pd_End period) metrics) (period_days fl period))))"

fun rank_cells :: "(real \<Rightarrow> real) \<Rightarrow> (nat \<Rightarrow> uuid) \<Rightarrow> instant \<Rightarrow> Period \<Rightarrow> metric_row list \<Rightarrow> LocationHorizon list \<Rightarrow> nat \<Rightarrow> ranking_tbl \<Rightarrow>
    (nat \<times> ranking_error option) \<times> ranking_tbl" where
  "rank_cells fl ids wall period metrics [] written tbl = ((written, None), tbl)"
| "rank_cells fl ids wall period metrics (c # cs) written tbl =
     (let rows = cell_rankings fl ids (rb_drawn tbl) c period metrics; tbl1 = tbl\<lparr>rb_drawn := rb_drawn tbl + length rows\<rparr> in
      case Run (publish_rankings wall rows) (rb_rows tbl) of
        (Inl e, rs) \<Rightarrow> ((written, Some e), tbl1\<lparr>rb_rows := rs\<rparr>)
      | (Inr _, rs) \<Rightarrow> rank_cells fl ids wall period metrics cs (written + length rows) (tbl1\<lparr>rb_rows := rs\<rparr>))"

definition RankPeriod :: "(real \<Rightarrow> real) \<Rightarrow> (nat \<Rightarrow> uuid) \<Rightarrow> instant \<Rightarrow> Period \<Rightarrow> metric_row list \<Rightarrow> ranking_tbl \<Rightarrow>
    (nat \<times> ranking_error option) \<times> ranking_tbl" where
  "RankPeriod fl ids wall period metrics tbl =
     rank_cells fl ids wall period metrics (ListRankingCells (pd_Start period) (pd_End period) metrics) 0 tbl"

definition rank_month :: "instant \<Rightarrow> Period" where
  "rank_month now = (let start = Date_utc (Year now) (Month now) 1
     in \<lparr>pd_Kind = PeriodMonthly, pd_Start = start, pd_End = AddDate 0 1 0 start\<rparr>)"

definition RankBatch :: "(real \<Rightarrow> real) \<Rightarrow> (nat \<Rightarrow> uuid) \<Rightarrow> instant \<Rightarrow> metric_row list \<Rightarrow> ranking_tbl \<Rightarrow> (nat \<times> ranking_error option) \<times> ranking_tbl" where
  "RankBatch fl ids now metrics tbl = RankPeriod fl ids now (rank_month now) metrics tbl"

section \<open>Scores\<close>

lemma minOf_Min: "xs \<noteq> [] \<Longrightarrow> minOf xs = Min (set xs)"
proof -
  have "fold (\<lambda>y m. if y < m then y else m) ys x = Min (insert x (set ys))" for ys and x :: real
  proof (induction ys arbitrary: x)
    case (Cons y ys)
    have "(if y < x then y else x) = min y x" by (simp add: min_def)
    then show ?case by (cases "ys = []") (simp_all add: Cons min.commute min.left_commute)
  qed simp
  then show "xs \<noteq> [] \<Longrightarrow> minOf xs = Min (set xs)" by (cases xs) auto
qed

lemma maxOf_Max: "xs \<noteq> [] \<Longrightarrow> maxOf xs = Max (set xs)"
proof -
  have "fold (\<lambda>y m. if y > m then y else m) ys x = Max (insert x (set ys))" for ys and x :: real
  proof (induction ys arbitrary: x)
    case (Cons y ys)
    have "(if y > x then y else x) = max y x" by (simp add: max_def)
    then show ?case by (cases "ys = []") (simp_all add: Cons max.commute max.left_commute)
  qed simp
  then show "xs \<noteq> [] \<Longrightarrow> maxOf xs = Max (set xs)" by (cases xs) auto
qed

lemma best_shift_perm:
  assumes "set cohort = set cohort'"
  shows "comp_active cohort = comp_active cohort'" "best_shift fl cohort c = best_shift fl cohort' c"
proof -
  have e: "cohort = [] \<longleftrightarrow> cohort' = []" using assms by (metis set_empty)
  have a: "comp_active cohort c = comp_active cohort' c" for c using assms e by (simp add: comp_active_def list_all_iff)
  then show "comp_active cohort = comp_active cohort'" by blast
  have s: "set (comp_values cohort c) = set (comp_values cohort' c)" using assms by (simp add: comp_values_def)
  show "best_shift fl cohort c = best_shift fl cohort' c"
  proof (cases "cohort = []")
    case False
    then have "comp_values cohort c \<noteq> []" "comp_values cohort' c \<noteq> []" using e by (simp_all add: comp_values_def)
    then have "minOf (comp_values cohort c) = minOf (comp_values cohort' c)" "maxOf (comp_values cohort c) = maxOf (comp_values cohort' c)"
      using s by (simp_all add: minOf_Min maxOf_Max)
    then show ?thesis by (cases "cp_Direction c") (simp_all add: best_shift_def a)
  qed (use e in simp)
qed

lemma rank_one_perm:
  assumes "set cohort = set cohort'"
  shows "rank_one fl cohort p = rank_one fl cohort' p"
proof -
  have w: "activeWeight fl cohort = activeWeight fl cohort'" by (simp add: activeWeight_def best_shift_perm(1) [OF assms])
  have "score_step fl cohort p = score_step fl cohort' p"
    by (intro ext) (simp only: score_step_def best_shift_perm [OF assms] w)
  then show ?thesis by (simp add: rank_one_def)
qed

lemma clamp01_bounds: "0 \<le> clamp01 x" "clamp01 x \<le> 1"
  by (simp_all add: clamp01_def)

lemma clamp01_mono: "x \<le> y \<Longrightarrow> clamp01 x \<le> clamp01 y"
  by (simp add: clamp01_def)

lemma clamp01_id: "0 \<le> x \<Longrightarrow> x \<le> 1 \<Longrightarrow> clamp01 x = x"
  by (simp add: clamp01_def)

text \<open>The composite of a provider before the penalty, as the fold of its weighted components.\<close>

definition comp_norm :: "(real \<Rightarrow> real) \<Rightarrow> ProviderInput list \<Rightarrow> ProviderInput \<Rightarrow> Component \<Rightarrow> real" where
  "comp_norm fl cohort p c = (case best_shift fl cohort c of (best, shift) \<Rightarrow> normalize fl c (the (pi_Values p (cp_Key c))) best shift)"

definition comp_share :: "(real \<Rightarrow> real) \<Rightarrow> ProviderInput list \<Rightarrow> Component \<Rightarrow> real" where
  "comp_share fl cohort c = fdiv fl (cp_Weight c) (activeWeight fl cohort)"

definition raw_score :: "(real \<Rightarrow> real) \<Rightarrow> ProviderInput list \<Rightarrow> ProviderInput \<Rightarrow> real" where
  "raw_score fl cohort p = fold (\<lambda>c x. if comp_active cohort c then fadd fl x (fmul fl (comp_share fl cohort c) (comp_norm fl cohort p c)) else x)
     (Components fl) 0"

lemma raw_score_fold: "fst (fold (score_step fl cohort p) (Components fl) (0, 0, [])) = raw_score fl cohort p"
proof -
  have "fst (fold (score_step fl cohort p) cs (x, y, z)) =
      fold (\<lambda>c x. if comp_active cohort c then fadd fl x (fmul fl (comp_share fl cohort c) (comp_norm fl cohort p c)) else x) cs x" for cs x y z
  proof (induction cs arbitrary: x y z)
    case (Cons c cs)
    obtain x' y' z' where s: "score_step fl cohort p c (x, y, z) = (x', y', z')" by (metis prod.exhaust)
    then have "x' = (if comp_active cohort c then fadd fl x (fmul fl (comp_share fl cohort c) (comp_norm fl cohort p c)) else x)"
      by (auto simp: score_step_def Let_def comp_share_def comp_norm_def split: if_splits)
    with s Cons show ?case by simp
  qed simp
  then show ?thesis by (simp add: raw_score_def)
qed

definition penalised :: "(real \<Rightarrow> real) \<Rightarrow> ProviderInput \<Rightarrow> real \<Rightarrow> real" where
  "penalised fl p x = (case pi_Coverage p of
      Some cov \<Rightarrow> if cov < coverageRankedMin fl then fmul fl x (fdiv fl cov (coverageRankedMin fl)) else x
    | None \<Rightarrow> x)"

lemma rank_one_score:
  "rk_CompositeScore (rank_one fl cohort p) =
    (if rank_status fl p = StatusUnranked then None else Some (clamp01 (penalised fl p (raw_score fl cohort p))))"
  "rk_Status (rank_one fl cohort p) = rank_status fl p"
  "rk_Coverage (rank_one fl cohort p) = pi_Coverage p" "rk_Reliability (rank_one fl cohort p) = pi_Reliability p"
  "rk_SampleCount (rank_one fl cohort p) = min (pi_TempSampleCount p) (pi_PrecipSampleCount p)"
  "rk_ProviderID (rank_one fl cohort p) = pi_ProviderID p"
proof -
  obtain x h z where f: "fold (score_step fl cohort p) (Components fl) (0, 0, []) = (x, h, z)" by (metis prod.exhaust)
  then have "x = raw_score fl cohort p" using raw_score_fold [of fl cohort p] by simp
  then show "rk_CompositeScore (rank_one fl cohort p) =
      (if rank_status fl p = StatusUnranked then None else Some (clamp01 (penalised fl p (raw_score fl cohort p))))"
    by (simp add: rank_one_def f Let_def penalised_def split: option.split)
  show "rk_Status (rank_one fl cohort p) = rank_status fl p" "rk_Coverage (rank_one fl cohort p) = pi_Coverage p"
    "rk_Reliability (rank_one fl cohort p) = pi_Reliability p" "rk_ProviderID (rank_one fl cohort p) = pi_ProviderID p"
    "rk_SampleCount (rank_one fl cohort p) = min (pi_TempSampleCount p) (pi_PrecipSampleCount p)"
    by (auto simp: rank_one_def f Let_def minInt_def min_def split: option.split prod.split)
qed

lemma rank_one_ci:
  assumes "rk_CompositeScore (rank_one fl cohort p) = Some c"
  shows "rk_CILower (rank_one fl cohort p) = None \<and> rk_CIUpper (rank_one fl cohort p) = None \<or>
    (\<exists>h > 0. rk_CILower (rank_one fl cohort p) = Some (clamp01 (fsub fl c h)) \<and> rk_CIUpper (rank_one fl cohort p) = Some (clamp01 (fadd fl c h)))"
proof -
  obtain x h z where f: "fold (score_step fl cohort p) (Components fl) (0, 0, []) = (x, h, z)" by (metis prod.exhaust)
  with assms show ?thesis by (auto simp: rank_one_def f Let_def split: option.splits if_splits prod.splits)
qed
text \<open>Values a score can be computed from: magnitudes, a rate and two shares.\<close>

definition input_ok :: "ProviderInput \<Rightarrow> bool" where
  "input_ok p \<longleftrightarrow> in_unit (pi_Coverage p) \<and> in_unit (pi_Reliability p) \<and> 0 \<le> pi_TempSampleCount p \<and> 0 \<le> pi_PrecipSampleCount p"

definition values_ok :: "(real \<Rightarrow> real) \<Rightarrow> ProviderInput \<Rightarrow> bool" where
  "values_ok fl p \<longleftrightarrow> (\<forall>k x. pi_Values p k = Some x \<longrightarrow> 0 \<le> x \<and> is_float fl x)"

text \<open>\<open>p\<close> is at least as good as \<open>q\<close> in every component and covers at least as much.\<close>

definition as_good :: "(real \<Rightarrow> real) \<Rightarrow> ProviderInput \<Rightarrow> ProviderInput \<Rightarrow> bool" where
  "as_good fl p q \<longleftrightarrow> (\<forall>c \<in> set (Components fl). \<forall>x y. pi_Values p (cp_Key c) = Some x \<longrightarrow> pi_Values q (cp_Key c) = Some y \<longrightarrow>
       (if cp_Direction c = lowerBetter then x \<le> y else y \<le> x)) \<and>
     (case (pi_Coverage p, pi_Coverage q) of (Some a, Some b) \<Rightarrow> b \<le> a | _ \<Rightarrow> False)"

context rounding
begin

lemma Components_weight: "c \<in> set (Components fl) \<Longrightarrow> 0 \<le> cp_Weight c"
  by (auto simp: Components_def intro!: fl_nonneg)

lemma activeWeight_nonneg: "0 \<le> activeWeight fl cohort"
proof -
  have "0 \<le> fold (\<lambda>c w. if comp_active cohort c then fadd fl w (cp_Weight c) else w) cs x" if "0 \<le> x" "set cs \<subseteq> set (Components fl)" for cs x
    using that by (induction cs arbitrary: x) (simp_all add: fadd_nonneg Components_weight)
  then show ?thesis by (simp add: activeWeight_def)
qed

lemma comp_share_nonneg: "c \<in> set (Components fl) \<Longrightarrow> 0 \<le> comp_share fl cohort c"
  unfolding comp_share_def by (intro fdiv_nonneg Components_weight activeWeight_nonneg)

lemma epsilon_nonneg: "0 \<le> epsilon fl"
  by (simp add: epsilon_def fl_nonneg)

lemma raw_score_float: "is_float fl (raw_score fl cohort p)"
proof -
  have "is_float fl (fold (\<lambda>c x. if comp_active cohort c then fadd fl x (f c) else x) cs x)" if "is_float fl x" for cs x f
    using that by (induction cs arbitrary: x) (auto simp: float_results)
  then show ?thesis by (simp add: raw_score_def is_float_0)
qed

lemma penalised_float: "is_float fl x \<Longrightarrow> is_float fl (penalised fl p x)"
  by (simp add: penalised_def float_results split: option.split)

lemma clamp01_float: "is_float fl x \<Longrightarrow> is_float fl (clamp01 x)"
  by (simp add: clamp01_def is_float_0 is_float_1)

text \<open>The interval of a ranking brackets its score, within the unit interval.\<close>

lemma rank_one_brackets:
  assumes "rk_CompositeScore (rank_one fl cohort p) = Some c"
  shows "brackets (rk_CILower (rank_one fl cohort p), rk_CIUpper (rank_one fl cohort p)) c" "0 \<le> c" "c \<le> 1"
proof -
  have c: "c = clamp01 (penalised fl p (raw_score fl cohort p))" using assms by (simp add: rank_one_score split: if_splits)
  then show u: "0 \<le> c" "c \<le> 1" by (simp_all add: clamp01_bounds)
  have "is_float fl c" unfolding c by (intro clamp01_float penalised_float raw_score_float)
  then have "clamp01 (fsub fl c h) \<le> c \<and> c \<le> clamp01 (fadd fl c h)" if "0 < h" for h
    using clamp01_mono [OF fsub_le, of c h] clamp01_mono [OF fadd_ge, of c h] clamp01_id [OF u] that by simp
  with rank_one_ci [OF assms] show "brackets (rk_CILower (rank_one fl cohort p), rk_CIUpper (rank_one fl cohort p)) c"
    by (auto simp: brackets_def)
qed

lemma comp_norm_nonneg:
  assumes "comp_active cohort c" "p \<in> set cohort" "list_all (values_ok fl) cohort"
  shows "0 \<le> comp_norm fl cohort p c"
proof -
  have vals: "0 \<le> x" if "x \<in> set (comp_values cohort c)" for x
    using that assms(1,3) by (fastforce simp: comp_values_def comp_active_def list_all_iff values_ok_def)
  have ne: "comp_values cohort c \<noteq> []" using assms(2) by (auto simp: comp_values_def)
  have v: "0 \<le> the (pi_Values p (cp_Key c))" using assms(2) by (intro vals) (simp add: comp_values_def)
  have "minOf (comp_values cohort c) \<in> set (comp_values cohort c)" "maxOf (comp_values cohort c) \<in> set (comp_values cohort c)"
    using ne by (simp_all add: minOf_Min maxOf_Max)
  then have m: "0 \<le> minOf (comp_values cohort c)" "0 \<le> maxOf (comp_values cohort c)" using vals by simp_all
  show ?thesis using v m epsilon_nonneg unfolding comp_norm_def
    by (cases "cp_Direction c") (auto simp: best_shift_def normalize_def Let_def assms(1) intro!: fdiv_nonneg fadd_nonneg)
qed

lemma comp_norm_mono:
  assumes act: "comp_active cohort c" and p: "p \<in> set cohort" and q: "q \<in> set cohort" and nn: "list_all (values_ok fl) cohort"
    and good: "as_good fl p q" and c: "c \<in> set (Components fl)"
  shows "comp_norm fl cohort q c \<le> comp_norm fl cohort p c"
proof -
  let ?x = "the (pi_Values p (cp_Key c))" and ?y = "the (pi_Values q (cp_Key c))" and ?vs = "comp_values cohort c"
  have vals: "0 \<le> x \<and> is_float fl x" if "x \<in> set ?vs" for x
    using that act nn by (fastforce simp: comp_values_def comp_active_def list_all_iff values_ok_def)
  have mem: "?x \<in> set ?vs" "?y \<in> set ?vs" using p q by (simp_all add: comp_values_def)
  have some: "pi_Values p (cp_Key c) = Some ?x" "pi_Values q (cp_Key c) = Some ?y"
    using act p q by (auto simp: comp_active_def list_all_iff)
  have ord: "if cp_Direction c = lowerBetter then ?x \<le> ?y else ?y \<le> ?x"
    using good c some unfolding as_good_def by blast
  show ?thesis
  proof (cases "cp_Direction c")
    case lowerBetter
    then have le: "?x \<le> ?y" using ord by simp
    have ne: "?vs \<noteq> []" using mem(1) by auto
    have "minOf ?vs \<in> set ?vs" and min: "minOf ?vs \<le> ?x" unfolding minOf_Min [OF ne] using mem(1) ne by simp_all
    then have m: "0 \<le> minOf ?vs" "is_float fl (minOf ?vs)" using vals by simp_all
    have x: "0 \<le> ?x" using vals mem(1) by simp
    define b sh where "b = fst (best_shift fl cohort c)" and "sh = snd (best_shift fl cohort c)"
    have bs: "b = (if minOf ?vs = 0 then epsilon fl else minOf ?vs)" "sh = (if minOf ?vs = 0 then epsilon fl else 0)"
      using act lowerBetter by (simp_all add: b_def sh_def best_shift_def Let_def fadd_def epsilon_def fl_idem)
    have "is_float fl (epsilon fl)" by (simp add: epsilon_def fl_is_float)
    then have X: "b \<le> fadd fl ?x sh"
      using m(2) min x float_le_fl [of "epsilon fl" "?x + epsilon fl"] float_le_fl [of "minOf ?vs" ?x] by (simp add: bs fadd_def)
    have Y: "fadd fl ?x sh \<le> fadd fl ?y sh" unfolding fadd_def using le by (intro fl_mono) simp
    have b: "0 \<le> b" using m(1) epsilon_nonneg by (simp add: bs)
    have "b / fadd fl ?y sh \<le> b / fadd fl ?x sh"
    proof (cases "b = 0")
      case False
      then have "0 < fadd fl ?x sh" using b X by linarith
      then show ?thesis using b Y by (intro divide_left_mono mult_pos_pos) linarith+
    qed simp
    then show ?thesis using lowerBetter
      by (auto simp: comp_norm_def case_prod_beta b_def [symmetric] sh_def [symmetric] normalize_def fdiv_def intro!: fl_mono)
  next
    case higherBetter
    then have "?y \<le> ?x" using ord by simp
    moreover have "0 \<le> maxOf ?vs"
    proof -
      have ne: "?vs \<noteq> []" using mem(1) by auto
      then have "maxOf ?vs \<in> set ?vs" unfolding maxOf_Max [OF ne] by simp
      then show ?thesis using vals by simp
    qed
    ultimately show ?thesis using act higherBetter
      by (auto simp: comp_norm_def best_shift_def normalize_def fdiv_def intro!: fl_mono divide_right_mono)
  next
    case directValue
    then show ?thesis using ord by (simp add: comp_norm_def best_shift_def normalize_def)
  qed
qed

end

context rounding
begin

lemma raw_score_nonneg:
  assumes "p \<in> set cohort" "list_all (values_ok fl) cohort"
  shows "0 \<le> raw_score fl cohort p"
proof -
  have "0 \<le> fold (\<lambda>c x. if comp_active cohort c then fadd fl x (fmul fl (comp_share fl cohort c) (comp_norm fl cohort p c)) else x) cs x"
    if "0 \<le> x" "set cs \<subseteq> set (Components fl)" for cs x
    using that by (induction cs arbitrary: x) (simp_all add: fadd_nonneg fmul_nonneg comp_share_nonneg comp_norm_nonneg [OF _ assms])
  then show ?thesis by (simp add: raw_score_def)
qed

lemma raw_score_mono:
  assumes "p \<in> set cohort" "q \<in> set cohort" "list_all (values_ok fl) cohort" "as_good fl p q"
  shows "raw_score fl cohort q \<le> raw_score fl cohort p"
proof -
  let ?f = "\<lambda>p c x. if comp_active cohort c then fadd fl x (fmul fl (comp_share fl cohort c) (comp_norm fl cohort p c)) else x"
  have step: "?f q c y \<le> ?f p c x" if "y \<le> x" "c \<in> set (Components fl)" for c x y
    using that comp_norm_mono [OF _ assms that(2)] comp_share_nonneg [OF that(2), of cohort]
    by (auto simp: fadd_def fmul_def intro!: fl_mono add_mono mult_left_mono)
  have "fold (?f q) cs y \<le> fold (?f p) cs x" if "y \<le> x" "set cs \<subseteq> set (Components fl)" for cs x y
    using that
  proof (induction cs arbitrary: x y)
    case (Cons c cs)
    have "?f q c y \<le> ?f p c x" using Cons.prems by (intro step) simp_all
    with Cons show ?case by simp
  qed simp
  then show ?thesis by (simp add: raw_score_def)
qed

lemma penalty_le: "0 \<le> x \<Longrightarrow> is_float fl x \<Longrightarrow> 0 \<le> k \<Longrightarrow> k \<le> 1 \<Longrightarrow> fmul fl x k \<le> x"
  unfolding fmul_def by (intro fl_le_float mult_left_le) auto

lemma penalised_mono:
  assumes "0 \<le> y" "y \<le> x" "is_float fl x" "is_float fl y" "pi_Coverage p = Some a" "pi_Coverage q = Some b" "b \<le> a" "0 \<le> b"
  shows "penalised fl q y \<le> penalised fl p x"
proof -
  let ?t = "coverageRankedMin fl"
  have t: "0 \<le> ?t" by (simp add: coverageRankedMin_def fl_nonneg)
  have le1: "0 \<le> fdiv fl b ?t \<and> fdiv fl b ?t \<le> 1" if "b < ?t" using that assms(8) t by (simp add: fdiv_nonneg fdiv_le_1)
  have "fdiv fl b ?t \<le> fdiv fl a ?t" unfolding fdiv_def using assms(7) t by (intro fl_mono divide_right_mono)
  then have both: "fmul fl y (fdiv fl b ?t) \<le> fmul fl x (fdiv fl a ?t)"
    unfolding fmul_def [of fl y] fmul_def [of fl x] using assms(1,2,8) t by (intro fl_mono mult_mono) (simp_all add: fdiv_nonneg)
  have "fmul fl y (fdiv fl b ?t) \<le> x" if "b < ?t" using penalty_le [OF assms(1,4)] le1 [OF that] assms(2) by fastforce
  with both show ?thesis using assms(2,7) by (auto simp: penalised_def assms(5,6))
qed

lemma dominating_score:
  assumes "p \<in> set cohort" "q \<in> set cohort" "list_all (values_ok fl) cohort" "as_good fl p q" "in_unit (pi_Coverage q)"
  shows "clamp01 (penalised fl q (raw_score fl cohort q)) \<le> clamp01 (penalised fl p (raw_score fl cohort p))"
proof -
  obtain a b where cov: "pi_Coverage p = Some a" "pi_Coverage q = Some b" "b \<le> a"
    using assms(4) by (auto simp: as_good_def split: option.splits)
  have "0 \<le> b" using assms(5) by (simp add: cov in_unit_def)
  then show ?thesis
    using raw_score_nonneg [OF assms(2,3)] raw_score_mono [OF assms(1-4)] cov
    by (intro clamp01_mono penalised_mono [of _ _ p a q b]) (simp_all add: raw_score_float)
qed

end


section \<open>Publication order\<close>

lemma rank_groups_concat: "[] \<notin> set groups \<Longrightarrow> concat (rank_groups rs groups is) = concat groups @ is"
proof (induction rs groups "is" rule: rank_groups.induct)
  case (2 rs groups i "is")
  show ?case
  proof (cases "groups \<noteq> [] \<and> ciOverlap (rs ! hd (last groups)) (rs ! i)")
    case True
    have "concat groups = concat (butlast groups) @ last groups"
      using True by (metis append_butlast_last_id concat.simps concat_append append_Nil2)
    moreover have "[] \<notin> set (butlast groups @ [last groups @ [i]])" using 2(3) by (auto dest: in_set_butlastD)
    ultimately show ?thesis using 2(1) [OF True] True by simp
  next
    case False
    then show ?thesis using 2(2) [OF False] 2(3) by auto
  qed
qed simp

text \<open>Each group overlaps its leader, and each leader is clear of the one before.\<close>

definition groups_ok :: "ProviderRanking list \<Rightarrow> nat list list \<Rightarrow> bool" where
  "groups_ok rs groups \<longleftrightarrow> [] \<notin> set groups \<and>
     list_all (\<lambda>g. list_all (\<lambda>i. ciOverlap (rs ! hd g) (rs ! i)) (tl g)) groups \<and>
     successively (\<lambda>g h. \<not> ciOverlap (rs ! hd g) (rs ! hd h)) groups"

lemma rank_groups_ok: "groups_ok rs groups \<Longrightarrow> groups_ok rs (rank_groups rs groups is)"
proof (induction rs groups "is" rule: rank_groups.induct)
  case (2 rs groups i "is")
  show ?case
  proof (cases "groups \<noteq> [] \<and> ciOverlap (rs ! hd (last groups)) (rs ! i)")
    case True
    obtain gs g where g: "groups = gs @ [g]" using True by (metis append_butlast_last_id)
    have ne: "g \<noteq> []" using 2(3) by (auto simp: groups_ok_def g)
    then have "groups_ok rs (gs @ [g @ [i]])"
      using 2(3) True by (auto simp: groups_ok_def g successively_append_iff)
    then show ?thesis using 2(1) [OF True] True by (simp add: g)
  next
    case False
    have "groups_ok rs (groups @ [[i]])"
      using 2(3) False by (auto simp: groups_ok_def successively_append_iff)
    then show ?thesis using 2(2) [OF False] False by auto
  qed
qed simp
section \<open>Publishing the rankings\<close>

interpretation rv: versioned rr_ID ranking_key rs_SupersededBy "\<lambda>i r :: ranking_row. r\<lparr>rs_SupersededBy := Some i\<rparr>"
  by unfold_locales (simp_all add: ranking_key_def)

abbreviation rankings_ok :: "ranking_row list \<Rightarrow> bool" where
  "rankings_ok \<equiv> versions_ok rr_ID ranking_key rs_SupersededBy"

abbreviation live_rankings :: "ranking_row list \<Rightarrow> uuid \<times> uuid \<times> int \<times> string \<times> instant \<times> instant \<rightharpoonup> ranking_row" where
  "live_rankings \<equiv> live_map ranking_key rs_SupersededBy"

text \<open>What the aggregation guarantees of a metric row: shares are shares, samples are counts.\<close>

definition metric_sane :: "'a AccuracyMetric_scheme \<Rightarrow> bool" where
  "metric_sane m \<longleftrightarrow> 0 \<le> am_SampleCount m \<and>
     (am_MetricType m = MetricCoverage \<or> am_MetricType m = MetricReliability \<longrightarrow> in_unit (am_Value m))"

definition value_sane :: "MetricValue \<Rightarrow> bool" where
  "value_sane m \<longleftrightarrow> 0 \<le> mval_SampleCount m \<and>
     (mval_MetricType m = MetricCoverage \<or> mval_MetricType m = MetricReliability \<longrightarrow> in_unit (mval_Value m))"

lemma ReadCohortMetrics_sane:
  "list_all metric_sane rows \<Longrightarrow> list_all value_sane (ReadCohortMetrics loc h from to rows)"
  by (auto simp: ReadCohortMetrics_def list_all_iff metric_sane_def value_sane_def)

definition cacc_ok :: "cacc \<Rightarrow> bool" where
  "cacc_ok a \<longleftrightarrow> 0 \<le> ca_tempSample a \<and> 0 \<le> ca_precipSample a \<and> (\<forall>x \<in> set (ca_coverages a). 0 \<le> x \<and> x \<le> 1) \<and>
     in_unit (ca_values a ''reliability'')"

lemma take_metric_ok: "cacc_ok a \<Longrightarrow> value_sane m \<Longrightarrow> cacc_ok (take_metric fl m a)"
  by (auto simp: take_metric_def Let_def cacc_ok_def value_sane_def in_unit_def metric_defs split: option.splits)

lemma take_metrics_ok: "cacc_ok a \<Longrightarrow> list_all value_sane ms \<Longrightarrow> cacc_ok (fold (take_metric fl) ms a)"
  by (induction ms arbitrary: a) (simp_all add: take_metric_ok)

lemma cohort_input_ok:
  assumes "list_all value_sane vals"
  shows "input_ok (cohort_input fl days vals i)"
proof -
  define a where "a = fold (take_metric fl) (filter (\<lambda>m. mval_ProviderID m = i) vals) cacc0"
  have "cacc_ok cacc0" by (simp add: cacc_ok_def cacc0_def in_unit_def)
  moreover have "list_all value_sane (filter (\<lambda>m. mval_ProviderID m = i) vals)" using assms by (simp add: list_all_iff)
  ultimately have a: "cacc_ok a" unfolding a_def by (rule take_metrics_ok)
  have c: "in_unit (if ca_coverages a = [] then None else Some (minOf (ca_coverages a)))"
  proof (cases "ca_coverages a = []")
    case False
    then have "minOf (ca_coverages a) \<in> set (ca_coverages a)" by (simp add: minOf_Min)
    with a False show ?thesis by (simp add: cacc_ok_def in_unit_def)
  qed (simp add: in_unit_def)
  have "cohort_input fl days vals i = \<lparr>pi_ProviderID = i,
      pi_Values = (ca_values a)(''coverage'' := if ca_coverages a = [] then None else Some (minOf (ca_coverages a))),
      pi_CIHalf = ca_ciHalf a, pi_TempSampleCount = ca_tempSample a, pi_PrecipSampleCount = ca_precipSample a,
      pi_CalendarDays = days, pi_Coverage = if ca_coverages a = [] then None else Some (minOf (ca_coverages a)),
      pi_Reliability = ca_values a ''reliability''\<rparr>"
    unfolding cohort_input_def a_def [symmetric] Let_def by simp
  with a c show ?thesis by (simp add: input_ok_def cacc_ok_def)
qed

lemma draw_toRow:
  "map rr_ID (draw ids k (map (toRow c p) rs)) = map (\<lambda>n. ids (k + n)) [0..<length rs]"
  "map rr_ProviderID (draw ids k (map (toRow c p) rs)) = map rk_ProviderID rs"
proof -
  show "map rr_ID (draw ids k (map (toRow c p) rs)) = map (\<lambda>n. ids (k + n)) [0..<length rs]"
  proof (induction rs arbitrary: k)
    case (Cons r rs)
    show ?case using Cons [of "Suc k"] by (simp add: toRow_def upt_conv_Cons map_Suc_upt [symmetric] comp_def del: upt_Suc)
  qed simp
  show "map rr_ProviderID (draw ids k (map (toRow c p) rs)) = map rk_ProviderID rs"
    by (induction rs arbitrary: k) (simp_all add: toRow_def)
qed

lemma draw_all: "(\<And>g i. g \<in> set gs \<Longrightarrow> P (g i)) \<Longrightarrow> list_all P (draw ids k gs)"
  by (induction gs arbitrary: k) auto

definition cohort_size :: "LocationHorizon \<Rightarrow> Period \<Rightarrow> metric_row list \<Rightarrow> nat" where
  "cohort_size c p metrics = length (provider_order (ReadCohortMetrics (lh_LocationID c) (lh_HorizonMinutes c) (pd_Start p) (pd_End p) metrics))"

lemma cell_rankings_facts:
  assumes "rounding fl" "pd_Start p < pd_End p" "list_all metric_sane metrics"
  shows "map rr_ID (cell_rankings fl ids k c p metrics) = map (\<lambda>n. ids (k + n)) [0..<cohort_size c p metrics]"
    and "distinct (map ranking_key (cell_rankings fl ids k c p metrics))"
    and "list_all ranking_check (cell_rankings fl ids k c p metrics)"
    and "length (cell_rankings fl ids k c p metrics) = cohort_size c p metrics"
proof -
  let ?vals = "ReadCohortMetrics (lh_LocationID c) (lh_HorizonMinutes c) (pd_Start p) (pd_End p) metrics"
  let ?cohort = "buildCohort fl ?vals (period_days fl p)"
  have l: "length (RankCohort fl ?cohort) = cohort_size c p metrics" by (simp add: RankCohort_def buildCohort_def cohort_size_def)
  show "map rr_ID (cell_rankings fl ids k c p metrics) = map (\<lambda>n. ids (k + n)) [0..<cohort_size c p metrics]"
    unfolding cell_rankings_def draw_toRow l ..
  show "length (cell_rankings fl ids k c p metrics) = cohort_size c p metrics" by (simp add: cell_rankings_def l)
  have "map rk_ProviderID (RankCohort fl ?cohort) = provider_order ?vals"
    by (simp add: RankCohort_def buildCohort_def comp_def rank_one_score cohort_input_def Let_def)
  then have "distinct (map rr_ProviderID (cell_rankings fl ids k c p metrics))"
    unfolding cell_rankings_def draw_toRow by (simp add: provider_order_def)
  then show "distinct (map ranking_key (cell_rankings fl ids k c p metrics))"
    by (auto simp: distinct_map inj_on_def ranking_key_def)
  show "list_all ranking_check (cell_rankings fl ids k c p metrics)" unfolding cell_rankings_def
  proof (rule draw_all)
    fix g i assume "g \<in> set (map (toRow c p) (RankCohort fl ?cohort))"
    then obtain x where x: "x \<in> set ?cohort" "g = toRow c p (rank_one fl ?cohort x)" by (auto simp: RankCohort_def)
    have "input_ok x" using x(1) cohort_input_ok [OF ReadCohortMetrics_sane [OF assms(3)]] by (auto simp: buildCohort_def)
    then show "ranking_check (g i)" unfolding x(2)
      using assms(2) by (auto simp: ranking_check_def toRow_def rank_one_score input_ok_def in_unit_def clamp01_bounds)
  qed
qed

lemma stored_ranking_fields [simp]:
  "rr_ID (stored_ranking wall m) = rr_ID m" "ranking_key (stored_ranking wall m) = ranking_key m" "rs_SupersededBy (stored_ranking wall m) = None"
  by (simp_all add: stored_ranking_def RankingRow.extend_def ranking_key_def)

lemma publish_rankings_eq:
  assumes "distinct (map rr_ID ms)" "set (map rr_ID ms) \<inter> rr_ID ` set rows = {}" "list_all ranking_check ms"
  shows "publish_rankings wall ms rows =
    (Inr (), publish rr_ID ranking_key rs_SupersededBy (\<lambda>i r. r\<lparr>rs_SupersededBy := Some i\<rparr>) (map (stored_ranking wall) ms) rows)"
proof -
  have s: "SupersedePreviousRankings m = supersede rr_ID ranking_key rs_SupersededBy (\<lambda>i r. r\<lparr>rs_SupersededBy := Some i\<rparr>) (stored_ranking wall m)" for m
    by (simp add: SupersedePreviousRankings_def supersede_def fun_eq_iff)
  have "fold SupersedePreviousRankings ms rs =
      fold (supersede rr_ID ranking_key rs_SupersededBy (\<lambda>i r. r\<lparr>rs_SupersededBy := Some i\<rparr>)) (map (stored_ranking wall) ms) rs" for rs
    by (induction ms arbitrary: rs) (simp_all add: s)
  moreover have "\<not> (\<exists>m \<in> set ms. rr_ID m \<in> rr_ID ` set rows)" using assms(2) by auto
  moreover have "\<not> (\<exists>m \<in> set ms. \<not> ranking_check m)" using assms(3) by (auto simp: list_all_iff)
  ultimately show ?thesis using assms(1) by (simp add: publish_rankings_def InsertRankings_def publish_def)
qed

text \<open>The rankings a period publishes, cell by cell.\<close>

fun ranking_map :: "(real \<Rightarrow> real) \<Rightarrow> (nat \<Rightarrow> uuid) \<Rightarrow> instant \<Rightarrow> Period \<Rightarrow> metric_row list \<Rightarrow> nat \<Rightarrow> LocationHorizon list \<Rightarrow>
    uuid \<times> uuid \<times> int \<times> string \<times> instant \<times> instant \<rightharpoonup> ranking_row" where
  "ranking_map fl ids wall p metrics k [] = Map.empty"
| "ranking_map fl ids wall p metrics k (c # cs) =
     map_of (map (\<lambda>r. (ranking_key r, stored_ranking wall r)) (cell_rankings fl ids k c p metrics)) ++
     ranking_map fl ids wall p metrics (k + cohort_size c p metrics) cs"

lemma rank_cells_publishes:
  assumes "rounding fl" "pd_Start p < pd_End p" "list_all metric_sane metrics" "rankings_ok (rb_rows tbl)"
    and "fresh_ids ids (rb_drawn tbl) (\<Sum>c\<leftarrow>cells. cohort_size c p metrics) (rr_ID ` set (rb_rows tbl))"
  shows "\<exists>tbl'. rank_cells fl ids wall p metrics cells written tbl = ((written + (\<Sum>c\<leftarrow>cells. cohort_size c p metrics), None), tbl') \<and>
    rankings_ok (rb_rows tbl') \<and>
    live_rankings (rb_rows tbl') = live_rankings (rb_rows tbl) ++ ranking_map fl ids wall p metrics (rb_drawn tbl) cells"
  using assms(4,5)
proof (induction cells arbitrary: written tbl)
  case (Cons c cells)
  let ?ms = "cell_rankings fl ids (rb_drawn tbl) c p metrics" and ?n = "cohort_size c p metrics" and ?m = "\<Sum>c\<leftarrow>cells. cohort_size c p metrics"
  let ?new = "map (stored_ranking wall) ?ms"
  let ?pub = "publish rr_ID ranking_key rs_SupersededBy (\<lambda>i r. r\<lparr>rs_SupersededBy := Some i\<rparr>) ?new (rb_rows tbl)"
  note f = cell_rankings_facts [OF assms(1-3)]
  have fr: "fresh_ids ids (rb_drawn tbl) (?n + ?m) (rr_ID ` set (rb_rows tbl))" using Cons.prems(2) by simp
  have d: "distinct (map rr_ID ?ms)" "set (map rr_ID ?ms) \<inter> rr_ID ` set (rb_rows tbl) = {}"
    using fresh_ids_mono [OF fr, of ?n "rr_ID ` set (rb_rows tbl)"] unfolding f(1) fresh_ids_def by auto
  have b: "batch_ok rr_ID ranking_key rs_SupersededBy ?new (rb_rows tbl)"
    using d Cons.prems(1) f(2) by (auto simp: batch_ok_def versions_ok_def comp_def)
  obtain old where pb: "?pub = old @ ?new" "list_all2 (rv.aged ?new) (rb_rows tbl) old" using b by (rule rv.publish_shape)
  have "map rr_ID ?pub = map rr_ID (rb_rows tbl) @ map (\<lambda>n. ids (rb_drawn tbl + n)) [0..<?n]"
    unfolding pb(1) map_append map_map comp_def stored_ranking_fields f(1) using rv.map_ids(1) [OF pb(2)] by simp
  from arg_cong [OF this, of set]
  have "rr_ID ` set ?pub = rr_ID ` set (rb_rows tbl) \<union> (\<lambda>n. ids (rb_drawn tbl + n)) ` {0..<?n}"
    by (simp only: set_append set_map set_upt)
  note fr' = fresh_ids_drop [OF fr this]
  let ?t = "\<lparr>rb_rows = ?pub, rb_drawn = rb_drawn tbl + ?n\<rparr>"
  have step: "rank_cells fl ids wall p metrics (c # cells) written tbl = rank_cells fl ids wall p metrics cells (written + ?n) ?t"
    unfolding rank_cells.simps Let_def Run_def publish_rankings_eq [OF d f(3)] by (cases tbl) (simp add: f(4))
  from Cons.IH [of ?t "written + ?n"] rv.publish_ok [OF Cons.prems(1) b] fr' obtain t where
    t: "rank_cells fl ids wall p metrics cells (written + ?n) ?t = ((written + ?n + ?m, None), t)" "rankings_ok (rb_rows t)"
      "live_rankings (rb_rows t) = live_rankings ?pub ++ ranking_map fl ids wall p metrics (rb_drawn tbl + ?n) cells" by auto
  have "live_rankings ?pub = live_rankings (rb_rows tbl) ++ map_of (map (\<lambda>r. (ranking_key r, stored_ranking wall r)) ?ms)"
    using rv.publish_refines [OF b] by (simp add: comp_def)
  then show ?case unfolding step using t by (simp add: add.assoc)
qed simp

section \<open>Sample data\<close>

definition sample_input :: "uuid \<Rightarrow> int \<Rightarrow> int \<Rightarrow> ProviderInput" where
  "sample_input i v n = \<lparr>pi_ProviderID = i, pi_Values = (\<lambda>k. if k = ''temp_mae'' then Some (of_int v) else if k = ''coverage'' then Some 1 else None),
     pi_CIHalf = Map.empty, pi_TempSampleCount = n, pi_PrecipSampleCount = n, pi_CalendarDays = 31, pi_Coverage = Some 1, pi_Reliability = None\<rparr>"

definition sample_ranking :: "uuid \<Rightarrow> real \<Rightarrow> real \<Rightarrow> ProviderRanking" where
  "sample_ranking i s h = \<lparr>rk_ProviderID = i, rk_CompositeScore = Some s, rk_CILower = Some (s - h), rk_CIUpper = Some (s + h),
     rk_Status = StatusRanked, rk_SampleCount = 40, rk_Coverage = Some 1, rk_Reliability = Some 1, rk_ComponentScores = []\<rparr>"

definition coverage_metric :: metric_row where
  "coverage_metric = \<lparr>am_ID = 1, am_ProviderID = 3, am_LocationID = 7, am_HorizonMinutes = 60, am_Variable = VarTemperature,
     am_MetricType = MetricCoverage, am_Value = Some 1, am_CILower = None, am_CIUpper = None, am_SampleCount = 12,
     am_MethodologyVersion = MethodologyVersion, am_PeriodStart = 0, am_PeriodEnd = 31 * Day, mr_CalculatedAt = 0, mr_SupersededBy = None\<rparr>"

definition no_rankings :: ranking_tbl where
  "no_rankings = \<lparr>rb_rows = [], rb_drawn = 0\<rparr>"

section \<open>Correctness of the ranking\<close>





text \<open>The ranking of a provider does not depend on the order in which the cohort is read: permuting the cohort permutes
  the rankings and nothing else.\<close>

theorem RankCohort_order_independent:
  assumes "mset cohort = mset cohort'"
  shows "mset (RankCohort fl cohort) = mset (RankCohort fl cohort')"
proof -
  have "set cohort = set cohort'" using assms by (metis set_mset_mset)
  then have "rank_one fl cohort = rank_one fl cohort'" by (intro ext rank_one_perm)
  then show ?thesis using assms by (simp add: RankCohort_def)
qed

theorem RankCohort_order_independent_witness:
  "mset (RankCohort fl64 [sample_input 1 2 40, sample_input 2 3 40]) = mset (RankCohort fl64 [sample_input 2 3 40, sample_input 1 2 40])"
  by (rule RankCohort_order_independent) simp

text \<open>C8. Dominance: a provider that is at least as good as another in every component (lower errors, higher rates) and
  covers at least as much never gets a lower composite score, despite the rounding of every binary64 operation.\<close>

theorem RankCohort_dominance:
  assumes "p \<in> set cohort" "q \<in> set cohort" "list_all (values_ok fl64) cohort" "as_good fl64 p q" "in_unit (pi_Coverage q)"
    and "rk_CompositeScore (rank_one fl64 cohort p) = Some x" "rk_CompositeScore (rank_one fl64 cohort q) = Some y"
  shows "y \<le> x"
proof -
  have "x = clamp01 (penalised fl64 p (raw_score fl64 cohort p))" "y = clamp01 (penalised fl64 q (raw_score fl64 cohort q))"
    using assms(6,7) unfolding rank_one_score by (simp_all split: if_splits)
  then show ?thesis using b64.dominating_score [OF assms(1-5)] by simp
qed

lemma sample_status: "rank_status fl64 (sample_input i v 40) = StatusRanked"
proof -
  have "fl64 (8 / 10) \<le> fl64 1" by (rule b64.fl_mono) simp
  moreover have "fl64 1 = 1" by (rule fl64_exact [of _ 1 0]) simp_all
  ultimately have "coverageRankedMin fl64 \<le> 1" by (simp add: coverageRankedMin_def)
  moreover have "fl64 (1 / 2) = 1 / 2" by (rule fl64_exact [of _ 1 "- 1"]) simp_all
  ultimately show ?thesis
    by (simp add: rank_status_def sample_input_def coverageFloor_def provisionalMinPairs_def rankedMinPairs_def minCalendarDays_def)
qed

theorem RankCohort_dominance_witness:
  "\<exists>x y. rk_CompositeScore (rank_one fl64 [sample_input 1 2 40, sample_input 2 3 40] (sample_input 1 2 40)) = Some x \<and>
     rk_CompositeScore (rank_one fl64 [sample_input 1 2 40, sample_input 2 3 40] (sample_input 2 3 40)) = Some y \<and> y \<le> x"
proof -
  let ?p = "sample_input 1 2 40" and ?q = "sample_input 2 3 40"
  obtain x y where s: "rk_CompositeScore (rank_one fl64 [?p, ?q] ?p) = Some x" "rk_CompositeScore (rank_one fl64 [?p, ?q] ?q) = Some y"
    by (simp add: rank_one_score sample_status)
  have "fl64 1 = 1" "fl64 2 = 2" "fl64 3 = 3" by (rule fl64_exact [of _ 1 0] fl64_exact [of _ 2 0] fl64_exact [of _ 3 0], simp_all)+
  then have "list_all (values_ok fl64) [?p, ?q]" by (auto simp: values_ok_def sample_input_def is_float_def split: if_splits)
  moreover have "as_good fl64 ?p ?q" by (auto simp: as_good_def sample_input_def Components_def)
  moreover have "in_unit (pi_Coverage ?q)" by (simp add: sample_input_def in_unit_def)
  ultimately show ?thesis using RankCohort_dominance [of ?p "[?p, ?q]" ?q, OF _ _ _ _ _ s] s by auto
qed
text \<open>C16. The order of publication: the groups of \<open>RankOrder\<close> contain every scored provider exactly once and no other,
  read one after the other they run from the highest score to the lowest, in a group every interval overlaps that of
  the leader, and the leaders of neighbouring groups do not overlap.\<close>

theorem RankOrder_groups:
  assumes "is = concat (RankOrder rs)"
  shows "distinct is \<and> set is = {i. i < length rs \<and> rk_CompositeScore (rs ! i) \<noteq> None} \<and>
    sorted_wrt (\<lambda>i j. the (rk_CompositeScore (rs ! j)) \<le> the (rk_CompositeScore (rs ! i))) is \<and>
    groups_ok rs (RankOrder rs)"
proof -
  let ?lt = "\<lambda>a b. the (rk_CompositeScore (rs ! a)) > the (rk_CompositeScore (rs ! b))"
  let ?idx = "filter (\<lambda>i. rk_CompositeScore (rs ! i) \<noteq> None) [0..<length rs]"
  have i: "is = sort_less ?lt ?idx" unfolding assms RankOrder_def Let_def by (subst rank_groups_concat) simp_all
  have "sorted_wrt (\<lambda>a b. \<not> ?lt b a) (sort_less ?lt ?idx)" by (rule sorted_sort_less) auto
  then have "sorted_wrt (\<lambda>i j. the (rk_CompositeScore (rs ! j)) \<le> the (rk_CompositeScore (rs ! i))) is"
    unfolding i by (simp add: not_less)
  moreover have "groups_ok rs (RankOrder rs)" unfolding RankOrder_def Let_def by (rule rank_groups_ok) (simp add: groups_ok_def)
  ultimately show ?thesis by (auto simp: i)
qed

theorem RankOrder_groups_witness:
  "RankOrder [sample_ranking 1 (1/2) (1/100), sample_ranking 2 (9/10) (1/10), sample_ranking 3 (85/100) (1/10)] = [[1, 2], [0]] \<and>
   groups_ok [sample_ranking 1 (1/2) (1/100), sample_ranking 2 (9/10) (1/10), sample_ranking 3 (85/100) (1/10)] [[1, 2], [0]]"
proof -
  let ?rs = "[sample_ranking 1 (1/2) (1/100), sample_ranking 2 (9/10) (1/10), sample_ranking 3 (85/100) (1/10)]"
  have "RankOrder ?rs = [[1, 2], [0]]"
    by (simp add: RankOrder_def sample_ranking_def sort_less_def ciOverlap_def upt_rec del: not_None_eq)
  with RankOrder_groups [of "concat (RankOrder ?rs)" ?rs, OF refl] show ?thesis by simp
qed

lemma rank_month_period:
  "pd_Start (rank_month now) = month_start now" "pd_End (rank_month now) = month_start now + days_in_month (Year now) (Month now) * Day"
  using AddDate_month [OF Month_range [of now], of "Year now"] by (simp_all add: rank_month_def Let_def month_start_def)

text \<open>The calendar-day rule never applies to a batch. The day count handed to the cohort is the length of the calendar month,
  computed exactly in binary64 and at least 28, so a provider whose every forecast falls on one day passes the rule
  that its data span seven days.\<close>

theorem RankBatch_calendar_days_of_month:
  "period_days fl64 (rank_month now) = days_in_month (Year now) (Month now) \<and>
   minCalendarDays \<le> period_days fl64 (rank_month now) \<and>
   rank_status fl64 (cohort_input fl64 (period_days fl64 (rank_month now)) vals i) =
     rank_status fl64 (cohort_input fl64 minCalendarDays vals i)"
proof -
  define d where "d = days_in_month (Year now) (Month now)"
  have b: "28 \<le> d" "d \<le> 31" by (simp_all add: d_def days_in_month_pos)
  have "Hours fl64 (d * Day) = 24 * real_of_int d"
  proof -
    have "sgn (d * Day) = 1" "\<bar>d * Day\<bar> div Hour = 24 * d" using b(1) by (simp_all add: sgn_mult)
    moreover have "fl64 (of_int (24 * d)) = of_int (24 * d)" using b by (intro fl64_exact [of _ "24 * d" 0]) simp_all
    ultimately show ?thesis by (simp add: Hours_def Let_def fadd_def fdiv_def b64.fl_0)
  qed
  moreover have "fl64 (real_of_int d) = real_of_int d" using b by (intro fl64_exact [of _ d 0]) simp_all
  ultimately have "period_days fl64 (rank_month now) = d"
    using b(1) by (simp add: period_days_def rank_month_period fdiv_def trunc_int_def d_def)
  moreover have "minCalendarDays \<le> d" using b(1) by (simp add: minCalendarDays_def)
  ultimately show ?thesis by (simp add: d_def [symmetric] rank_status_def cohort_input_def Let_def)
qed

text \<open>C6. Ranking a month refines an override of the published rankings: whatever sane metrics are read, every row passes
  the constraints of the table, the batch writes one row per provider of each cell with a live metric and never fails,
  and the live rankings afterwards are the old ones overridden by exactly the computed rows, one per key.\<close>

theorem RankBatch_refines_override:
  assumes "list_all metric_sane metrics" "rankings_ok (rb_rows tbl)"
    and "cells = ListRankingCells (pd_Start (rank_month now)) (pd_End (rank_month now)) metrics"
    and "n = (\<Sum>c\<leftarrow>cells. cohort_size c (rank_month now) metrics)"
    and "fresh_ids ids (rb_drawn tbl) n (rr_ID ` set (rb_rows tbl))"
  shows "fst (RankBatch fl64 ids now metrics tbl) = (n, None) \<and> rankings_ok (rb_rows (snd (RankBatch fl64 ids now metrics tbl))) \<and>
    live_rankings (rb_rows (snd (RankBatch fl64 ids now metrics tbl))) =
      live_rankings (rb_rows tbl) ++ ranking_map fl64 ids now (rank_month now) metrics (rb_drawn tbl) cells"
proof -
  have "pd_Start (rank_month now) < pd_End (rank_month now)"
    unfolding rank_month_period using days_in_month_pos(1) [of "Year now" "Month now"] by simp
  from rank_cells_publishes [OF b64.rounding_axioms this assms(1,2) assms(5) [unfolded assms(4)], of now 0]
  show ?thesis unfolding RankBatch_def RankPeriod_def assms(3,4) by auto
qed

theorem RankBatch_refines_override_witness:
  "fst (RankBatch fl64 seq_ids 0 [coverage_metric] no_rankings) = (1, None) \<and>
   live_rankings (rb_rows (snd (RankBatch fl64 seq_ids 0 [coverage_metric] no_rankings))) =
     ranking_map fl64 seq_ids 0 (rank_month 0) [coverage_metric] 0 [\<lparr>lh_LocationID = 7, lh_HorizonMinutes = 60\<rparr>]"
proof -
  have m: "month_start 0 = 0" "days_in_month (Year 0) (Month 0) = 31" by code_simp+
  let ?c = "\<lparr>lh_LocationID = 7, lh_HorizonMinutes = 60\<rparr>"
  have cells: "ListRankingCells (pd_Start (rank_month 0)) (pd_End (rank_month 0)) [coverage_metric] = [?c]"
    by (simp add: ListRankingCells_def rank_month_period m coverage_metric_def nub_def)
  have n: "(\<Sum>c\<leftarrow>[?c]. cohort_size c (rank_month 0) [coverage_metric]) = 1"
    by (simp add: cohort_size_def ReadCohortMetrics_def rank_month_period m coverage_metric_def provider_order_def nub_def)
  have s: "list_all metric_sane [coverage_metric]" by (simp add: metric_sane_def coverage_metric_def in_unit_def)
  have t: "rankings_ok (rb_rows no_rankings)" "fresh_ids seq_ids (rb_drawn no_rankings) 1 (rr_ID ` set (rb_rows no_rankings))"
    "live_rankings (rb_rows no_rankings) = Map.empty" "rb_drawn no_rankings = 0"
    using fresh_seq_ids [of 0 1] by (simp_all add: no_rankings_def versions_ok_def live_map_def live_rows_def)
  from RankBatch_refines_override [OF s t(1) cells [symmetric] n [symmetric] t(2)] show ?thesis unfolding t by simp
qed

end
