(* ===== verification/Payload_Store.thy ===== *)
theory Payload_Store
  imports Ports Platform
begin

text \<open>
  The store of raw payloads, \<^verbatim>\<open>adapters/payloadstore/filesystem.go\<close>. The disk is a map from
  absolute paths to files; a file is what \<^verbatim>\<open>gzip.NewReader\<close> makes of its bytes, either the text
  that was compressed or nothing. How a disk operation ends is an argument.
\<close>

section \<open>Paths\<close>

text \<open>\<^verbatim>\<open>filepath.Join\<close> of a clean absolute directory with a relative path that has no \<^verbatim>\<open>..\<close>.\<close>

definition path_elems :: "string \<Rightarrow> string list" where
  "path_elems rel = filter (\<lambda>e. e \<noteq> [] \<and> e \<noteq> ''.'') (split_at (CHR ''/'') rel)"

definition path_join :: "string \<Rightarrow> string \<Rightarrow> string" where
  "path_join dir rel = (case path_elems rel of [] \<Rightarrow> dir
     | es \<Rightarrow> (if dir = ''/'' then '''' else dir) @ concat (map (\<lambda>e. CHR ''/'' # e) es))"

datatype store_error = InvalidKey | EscapesRoot | NotExist | CorruptPayload | DiskError

definition resolve :: "string \<Rightarrow> string \<Rightarrow> (store_error, string) result" where
  "resolve dir objectKey =
     (let rel = TrimPrefix (TrimPrefix objectKey PayloadSchemeFile) ''/'' in
      if rel = [] \<or> Contains rel ''..'' then Inl InvalidKey
      else let path = path_join dir rel
           in if \<not> HasPrefix path (dir @ ''/'') then Inl EscapesRoot else Inr path)"


section \<open>Operations\<close>

datatype content = Gz string | Broken

type_synonym disk = "string \<rightharpoonup> content"

text \<open>How far a write gets before the disk fails.\<close>

datatype disk_event = DiskOK | MkdirFails | WriteFails | RenameFails

definition store_Write :: "string \<Rightarrow> disk_event \<Rightarrow> string \<Rightarrow> string \<Rightarrow> disk \<Rightarrow> (store_error, unit) result \<times> disk" where
  "store_Write dir ev objectKey raw d =
     (case resolve dir objectKey of
        Inl e \<Rightarrow> (Inl e, d)
      | Inr path \<Rightarrow>
          (let tmp = path @ ''.tmp'' in
           case ev of
             MkdirFails \<Rightarrow> (Inl DiskError, d)
           | WriteFails \<Rightarrow> (Inl DiskError, d(tmp \<mapsto> Broken))
           | RenameFails \<Rightarrow> (Inl DiskError, d(tmp \<mapsto> Gz raw))
           | DiskOK \<Rightarrow> (Inr (), (d(tmp := None))(path \<mapsto> Gz raw))))"

definition store_Read :: "string \<Rightarrow> string \<Rightarrow> disk \<Rightarrow> (store_error, string) result" where
  "store_Read dir objectKey d =
     (case resolve dir objectKey of
        Inl e \<Rightarrow> Inl e
      | Inr path \<Rightarrow>
          (case d path of None \<Rightarrow> Inl NotExist | Some Broken \<Rightarrow> Inl CorruptPayload | Some (Gz raw) \<Rightarrow> Inr raw))"

definition Quarantine :: "string \<Rightarrow> instant \<Rightarrow> string \<Rightarrow> disk \<Rightarrow> (store_error, string) result \<times> disk" where
  "Quarantine dir now objectKey d =
     (case resolve dir objectKey of
        Inl e \<Rightarrow> (Inl e, d)
      | Inr path \<Rightarrow>
          (let suffix = ''.corrupt-'' @ itoa now in
           case d path of
             None \<Rightarrow> (Inl DiskError, d)
           | Some f \<Rightarrow> (Inr (objectKey @ suffix), (d(path := None))(path @ suffix \<mapsto> f))))"

section \<open>Containment\<close>

lemma Contains_dots_append:
  "Contains (a @ b) ''..'' \<longleftrightarrow> Contains a ''..'' \<or> Contains b ''..'' \<or> a \<noteq> [] \<and> b \<noteq> [] \<and> last a = CHR ''.'' \<and> hd b = CHR ''.''"
proof (induction a)
  case (Cons c a)
  show ?case
  proof (cases a)
    case Nil
    then show ?thesis by (cases b) auto
  next
    case (Cons d a')
    then show ?thesis using Cons.IH by auto
  qed
qed simp

lemma no_dot_no_dots: "CHR ''.'' \<notin> set s \<Longrightarrow> \<not> Contains s ''..''"
  by (induction s) auto

lemma split_at_no_sep: "e \<in> set (split_at d s) \<Longrightarrow> d \<notin> set e"
  by (induction d s arbitrary: e rule: split_at.induct) (auto split: list.splits if_splits)

lemma split_at_nonempty: "split_at d s \<noteq> []"
  by (cases s) (auto split: list.splits)

lemma split_at_cons: "d \<notin> set a \<Longrightarrow> split_at d (a @ d # s) = a # split_at d s"
  by (induction a) (auto split: list.splits)

lemma split_at_single: "d \<notin> set a \<Longrightarrow> split_at d a = [a]"
  by (induction a) auto

lemma split_at_dots:
  "\<not> Contains s ''..'' \<Longrightarrow> e \<in> set (split_at d s) \<Longrightarrow> \<not> Contains e ''..''"
proof (induction d s arbitrary: e rule: split_at.induct)
  case (2 d c s)
  obtain w ws where w: "split_at d s = w # ws" using split_at_nonempty by (meson list.exhaust)
  have hd: "w \<noteq> [] \<Longrightarrow> s \<noteq> [] \<and> hd s = hd w" using w by (cases s) (auto split: list.splits if_splits)
  show ?case
  proof (cases "c = d")
    case True
    then show ?thesis using 2 by auto
  next
    case False
    then have "e = c # w \<or> e \<in> set ws" using "2.prems"(2) w by auto
    moreover have "\<not> Contains (c # w) ''..''"
    proof -
      have "\<not> Contains w ''..''" using 2(2) [OF False, of w] "2.prems"(1) w by auto
      moreover have "\<not> (c = CHR ''.'' \<and> w \<noteq> [] \<and> hd w = CHR ''.'')"
        using "2.prems"(1) hd by (cases s) auto
      ultimately show ?thesis by (cases w) auto
    qed
    moreover have "\<not> Contains e ''..''" if "e \<in> set ws" using 2(2) [OF False, of e] "2.prems"(1) w that by auto
    ultimately show ?thesis by blast
  qed
qed simp

text \<open>A resolved path is the directory followed by named elements, none of which leads upwards.\<close>

lemma resolve_inside:
  assumes "resolve dir key = Inr path"
  obtains es where "path = dir @ concat (map (\<lambda>e. CHR ''/'' # e) es)" "es \<noteq> []"
    "\<forall>e \<in> set es. e \<noteq> [] \<and> e \<noteq> ''.'' \<and> \<not> Contains e ''..'' \<and> CHR ''/'' \<notin> set e"
proof -
  define rel where "rel = TrimPrefix (TrimPrefix key PayloadSchemeFile) ''/''"
  have r: "\<not> Contains rel ''..''" "path = path_join dir rel" "HasPrefix path (dir @ ''/'')"
    using assms by (auto simp: resolve_def rel_def Let_def split: if_splits)
  have ok: "\<forall>e \<in> set (path_elems rel). e \<noteq> [] \<and> e \<noteq> ''.'' \<and> \<not> Contains e ''..'' \<and> CHR ''/'' \<notin> set e"
    using r(1) split_at_dots split_at_no_sep by (auto simp: path_elems_def)
  have ne: "path_elems rel \<noteq> []" using r(2,3) by (auto simp: path_join_def HasPrefix_iff)
  have "dir \<noteq> ''/''"
  proof
    assume d: "dir = ''/''"
    obtain e es where e: "path_elems rel = e # es" using ne by (cases "path_elems rel") auto
    have "path = ''/'' @ e @ concat (map (\<lambda>e. CHR ''/'' # e) es)" using r(2) d e by (simp add: path_join_def)
    moreover have "e \<noteq> []" "CHR ''/'' \<notin> set e" using ok e by auto
    ultimately show False using r(3) d by (cases e) auto
  qed
  then have "path = dir @ concat (map (\<lambda>e. CHR ''/'' # e) (path_elems rel))" using r(2) ne by (auto simp: path_join_def split: list.splits)
  with ne ok that show thesis by blast
qed
section \<open>Keys of collections\<close>

text \<open>A provider slug that names one directory.\<close>

definition slug_ok :: "string \<Rightarrow> bool" where
  "slug_ok s \<longleftrightarrow> s \<noteq> [] \<and> CHR ''/'' \<notin> set s \<and> CHR ''.'' \<notin> set s"

definition payload_elems :: "(uuid \<Rightarrow> string) \<Rightarrow> string \<Rightarrow> instant \<Rightarrow> uuid \<Rightarrow> string list" where
  "payload_elems ustr slug t i = [slug, pad0 4 (Year t), pad0 2 (Month t), pad0 2 (DayOfMonth t), ustr i @ ''.json.gz'']"

lemma pad0_chars: "c \<in> set (pad0 k n) \<Longrightarrow> is_digit c \<or> c = CHR ''-''"
proof -
  have "is_digit c" if "c \<in> set (digits10 m)" for m using digits10_digits [of m] that by (simp add: list_all_iff)
  then show "c \<in> set (pad0 k n) \<Longrightarrow> is_digit c \<or> c = CHR ''-''"
    by (auto simp: pad0_def is_digit_def Let_def split: if_splits)
qed

lemma pad0_name: "pad0 k n \<noteq> [] \<and> CHR ''/'' \<notin> set (pad0 k n) \<and> CHR ''.'' \<notin> set (pad0 k n)"
proof -
  have "pad0 k n \<noteq> []" using digits10_digits [of "nat \<bar>n\<bar>"] by (simp add: pad0_def Let_def)
  moreover have "\<not> is_digit (CHR ''/'')" "\<not> is_digit (CHR ''.'')" by (simp_all add: is_digit_def)
  ultimately show ?thesis using pad0_chars [of "CHR ''/''" k n] pad0_chars [of "CHR ''.''" k n] by auto
qed

lemma uuid_string_name: "CHR ''/'' \<notin> set (uuid_string u) \<and> CHR ''.'' \<notin> set (uuid_string u)"
proof -
  have h: "hexdigit d \<noteq> CHR ''/''" "hexdigit d \<noteq> CHR ''.''" for d
  proof -
    have "(of_char (hexdigit d) :: nat) \<ge> 48" by (simp add: hexdigit_def Let_def)
    then show "hexdigit d \<noteq> CHR ''/''" "hexdigit d \<noteq> CHR ''.''" by auto
  qed
  have "set (hyphenate s) \<subseteq> insert (CHR ''-'') (set s)" for s
    by (auto simp: hyphenate_def dest!: in_set_takeD in_set_dropD)
  then show ?thesis using h by (fastforce simp: uuid_string_def)
qed

lemma resolve_payload_key:
  assumes "slug_ok slug" "dir \<noteq> ''/''"
  shows "resolve dir (BuildPayloadKey uuid_string slug t i) =
    Inr (dir @ concat (map (\<lambda>e. CHR ''/'' # e) (payload_elems uuid_string slug t i)))"
proof -
  let ?y = "pad0 4 (Year t)" and ?m = "pad0 2 (Month t)" and ?d = "pad0 2 (DayOfMonth t)" and ?u = "uuid_string i @ ''.json.gz''"
  let ?rel = "slug @ CHR ''/'' # ?y @ CHR ''/'' # ?m @ CHR ''/'' # ?d @ CHR ''/'' # ?u"
  note nm = pad0_name [of 4 "Year t"] pad0_name [of 2 "Month t"] pad0_name [of 2 "DayOfMonth t"] uuid_string_name [of i]
  have s: "slug \<noteq> []" "CHR ''/'' \<notin> set slug" "CHR ''.'' \<notin> set slug" using assms(1) by (auto simp: slug_ok_def)
  have rel: "TrimPrefix (TrimPrefix (BuildPayloadKey uuid_string slug t i) PayloadSchemeFile) ''/'' = ?rel"
    using s by (cases slug) (auto simp: BuildPayloadKey_def PayloadSchemeFile_def TrimPrefix_def)
  have "split_at (CHR ''/'') ?rel = payload_elems uuid_string slug t i"
    using s nm by (simp add: split_at_cons split_at_single payload_elems_def)
  then have e: "path_elems ?rel = payload_elems uuid_string slug t i"
    using s nm by (auto simp: path_elems_def payload_elems_def)
  have dots: "\<not> Contains ?rel ''..''"
  proof -
    have "\<not> Contains (slug @ CHR ''/'' # ?y @ CHR ''/'' # ?m @ CHR ''/'' # ?d @ CHR ''/'' # uuid_string i) ''..''"
      using s nm by (intro no_dot_no_dots) auto
    moreover have "last (slug @ CHR ''/'' # ?y @ CHR ''/'' # ?m @ CHR ''/'' # ?d @ CHR ''/'' # uuid_string i) \<noteq> CHR ''.''"
    proof (cases "uuid_string i = []")
      case False
      then have "last (uuid_string i) \<in> set (uuid_string i)" by simp
      with nm(4) have "last (uuid_string i) \<noteq> CHR ''.''" by metis
      with False show ?thesis by simp
    qed simp
    ultimately show ?thesis
      using Contains_dots_append [of "slug @ CHR ''/'' # ?y @ CHR ''/'' # ?m @ CHR ''/'' # ?d @ CHR ''/'' # uuid_string i" "''.json.gz''"] by simp
  qed
  have "?rel \<noteq> []" using s by simp
  then show ?thesis unfolding resolve_def rel Let_def
    using dots assms(2) by (simp add: path_join_def e HasPrefix_iff payload_elems_def)
qed
section \<open>The contract of the store\<close>

text \<open>What the collection services rely on: a completed write is read back, a failed one is as if it had not been
  tried, and neither touches a separate key.\<close>

locale blob_store =
  fixes put :: "disk_event \<Rightarrow> string \<Rightarrow> string \<Rightarrow> 'd \<Rightarrow> (store_error, unit) result \<times> 'd"
    and get :: "string \<Rightarrow> 'd \<Rightarrow> (store_error, string) result"
    and separate :: "string \<Rightarrow> string \<Rightarrow> bool"
  assumes read_own: "put ev k raw d = (Inr u, d') \<Longrightarrow> get k d' = Inr raw"
    and failed: "put ev k raw d = (Inl e, d') \<Longrightarrow> get k d' = get k d"
    and read_other: "separate k k' \<Longrightarrow> get k' (snd (put ev k raw d)) = get k' d"
begin

definition put_all :: "(disk_event \<times> string \<times> string) list \<Rightarrow> 'd \<Rightarrow> 'd" where
  "put_all ws d = fold (\<lambda>(ev, k, raw) d. snd (put ev k raw d)) ws d"

lemma survives:
  assumes "\<forall>(ev, k', raw) \<in> set ws. separate k' k"
  shows "get k (put_all ws d) = get k d"
  using assms unfolding put_all_def by (induction ws arbitrary: d) (auto simp: read_other)

lemma kept:
  assumes "put ev k raw d = (Inr u, d')" "\<forall>(ev, k', raw) \<in> set ws. separate k' k"
  shows "get k (put_all ws d') = Inr raw"
  using survives [OF assms(2)] read_own [OF assms(1)] by simp

end

text \<open>Two keys whose files, temporary files included, are different.\<close>

definition separate_keys :: "string \<Rightarrow> string \<Rightarrow> string \<Rightarrow> bool" where
  "separate_keys dir k k' \<longleftrightarrow> (case (resolve dir k, resolve dir k') of
     (Inr p, Inr p') \<Rightarrow> p \<noteq> p' \<and> p @ ''.tmp'' \<noteq> p' | _ \<Rightarrow> True)"

interpretation fs: blob_store "store_Write dir" "store_Read dir" "separate_keys dir"
proof unfold_locales
  show "store_Write dir ev k raw d = (Inr u, d') \<Longrightarrow> store_Read dir k d' = Inr raw" for ev k raw d u d'
    by (auto simp: store_Write_def store_Read_def Let_def split: sum.splits disk_event.splits)
  show "store_Write dir ev k raw d = (Inl e, d') \<Longrightarrow> store_Read dir k d' = store_Read dir k d" for ev k raw d e d'
    by (auto simp: store_Write_def store_Read_def Let_def split: sum.splits disk_event.splits)
  show "separate_keys dir k k' \<Longrightarrow> store_Read dir k' (snd (store_Write dir ev k raw d)) = store_Read dir k' d" for ev k k' raw d
    by (auto simp: store_Write_def store_Read_def separate_keys_def Let_def split: sum.splits disk_event.splits)
qed

text \<open>The keys of two collections are separate.\<close>

lemma length_uuid_string: "length (uuid_string u) = 36"
  by (simp add: uuid_string_def hyphenate_def)

lemma payload_path_inj:
  assumes "slug_ok slug" "slug_ok slug'" "dir \<noteq> ''/''" "i \<noteq> j"
  shows "separate_keys dir (BuildPayloadKey uuid_string slug t i) (BuildPayloadKey uuid_string slug' t' j)"
proof -
  have tail: "\<exists>p. dir @ concat (map (\<lambda>e. CHR ''/'' # e) (payload_elems uuid_string s t i)) = p @ uuid_string i @ ''.json.gz''" for s t i
    by (simp add: payload_elems_def)
  obtain p q where p: "dir @ concat (map (\<lambda>e. CHR ''/'' # e) (payload_elems uuid_string slug t i)) = p @ uuid_string i @ ''.json.gz''"
    and q: "dir @ concat (map (\<lambda>e. CHR ''/'' # e) (payload_elems uuid_string slug' t' j)) = q @ uuid_string j @ ''.json.gz''"
    using tail by metis
  have "uuid_string i \<noteq> uuid_string j" using assms(4) rfc.text_inj by blast
  then have "p @ uuid_string i @ ''.json.gz'' \<noteq> q @ uuid_string j @ ''.json.gz''"
    using append_eq_append_conv [of "uuid_string i" "uuid_string j" p q] by (simp add: length_uuid_string)
  moreover have "(p @ uuid_string i @ ''.json.gz'') @ ''.tmp'' \<noteq> q @ uuid_string j @ ''.json.gz''"
  proof
    assume "(p @ uuid_string i @ ''.json.gz'') @ ''.tmp'' = q @ uuid_string j @ ''.json.gz''"
    then have "last ((p @ uuid_string i @ ''.json.gz'') @ ''.tmp'') = last (q @ uuid_string j @ ''.json.gz'')" by simp
    then show False by simp
  qed
  ultimately show ?thesis by (simp add: separate_keys_def resolve_payload_key assms p q)
qed
section \<open>Correctness of the store\<close>

text \<open>C21. A payload written for a collection is read back byte for byte, whatever is written for other collections afterwards
  and however those writes end. Its file lies under the store's directory, reached through named elements only; a write
  that fails leaves what is read under its key as it was.\<close>

theorem payload_round_trip:
  assumes "slug_ok slug" "dir \<noteq> ''/''" "key = BuildPayloadKey uuid_string slug t i"
    and "list_all (\<lambda>(ev, k, r). \<exists>s t' j. k = BuildPayloadKey uuid_string s t' j \<and> slug_ok s \<and> j \<noteq> i) ws"
  shows "fst (store_Write dir DiskOK key raw d) = Inr () \<and>
    store_Read dir key (fs.put_all dir ws (snd (store_Write dir DiskOK key raw d))) = Inr raw \<and>
    (\<exists>es. resolve dir key = Inr (dir @ concat (map (\<lambda>e. CHR ''/'' # e) es)) \<and>
       list_all (\<lambda>e. e \<noteq> [] \<and> e \<noteq> ''.'' \<and> \<not> Contains e ''..'' \<and> CHR ''/'' \<notin> set e) es) \<and>
    (ev \<noteq> DiskOK \<longrightarrow> (\<exists>e. fst (store_Write dir ev key raw d) = Inl e) \<and> store_Read dir key (snd (store_Write dir ev key raw d)) = store_Read dir key d)"
proof -
  note r = resolve_payload_key [OF assms(1,2), of t i, folded assms(3)]
  have ok: "store_Write dir DiskOK key raw d = (Inr (), snd (store_Write dir DiskOK key raw d))"
    by (simp add: store_Write_def r Let_def)
  have f: "fst (store_Write dir DiskOK key raw d) = Inr ()" by (simp add: store_Write_def r Let_def)
  have "\<forall>(ev, k', r) \<in> set ws. separate_keys dir k' key"
  proof clarify
    fix e k' r' assume "(e, k', r') \<in> set ws"
    with assms(4) obtain s t' j where "k' = BuildPayloadKey uuid_string s t' j" "slug_ok s" "j \<noteq> i" by (auto simp: list_all_iff)
    then show "separate_keys dir k' key" unfolding assms(3) using payload_path_inj assms(1,2) by blast
  qed
  note kept = fs.kept [OF ok this]
  obtain es where es: "resolve dir key = Inr (dir @ concat (map (\<lambda>e. CHR ''/'' # e) es))"
      "list_all (\<lambda>e. e \<noteq> [] \<and> e \<noteq> ''.'' \<and> \<not> Contains e ''..'' \<and> CHR ''/'' \<notin> set e) es"
    by (rule resolve_inside [OF r]) (simp add: r list_all_iff)
  have "(\<exists>e. fst (store_Write dir ev key raw d) = Inl e) \<and> store_Read dir key (snd (store_Write dir ev key raw d)) = store_Read dir key d"
    if ne: "ev \<noteq> DiskOK"
  proof -
    obtain e d' where w: "store_Write dir ev key raw d = (Inl e, d')" using ne by (cases ev) (simp_all add: store_Write_def r Let_def)
    then show ?thesis using fs.failed [OF w] by simp
  qed
  with f kept es show ?thesis by blast
qed

theorem payload_round_trip_witness:
  "store_Read ''/data'' (BuildPayloadKey uuid_string ''open-meteo'' 0 1)
     (fs.put_all ''/data'' [(WriteFails, BuildPayloadKey uuid_string ''openweather'' 0 2, ''x'')]
       (snd (store_Write ''/data'' DiskOK (BuildPayloadKey uuid_string ''open-meteo'' 0 1) ''{}'' Map.empty))) = Inr ''{}''"
proof -
  have s: "slug_ok ''open-meteo''" "slug_ok ''openweather''" "''/data'' \<noteq> ''/''" by (simp_all add: slug_ok_def)
  have "(2 :: uuid) \<noteq> 1" by simp
  then have "list_all (\<lambda>(ev, k, r). \<exists>s t' j. k = BuildPayloadKey uuid_string s t' j \<and> slug_ok s \<and> j \<noteq> 1)
      [(WriteFails, BuildPayloadKey uuid_string ''openweather'' 0 2, ''x'')]"
    unfolding list.pred_inject prod.case using s(2) by (intro conjI) (blast, simp)
  from payload_round_trip [OF s(1,3) refl this, THEN conjunct2, THEN conjunct1] show ?thesis .
qed

end
