(* ===== verification/Collecting.thy ===== *)
theory Collecting
  imports Observing Circuit Payload_Store
begin

text \<open>
  Forecast collection: the service of \<^verbatim>\<open>internal/collection/collect.go\<close> and \<^verbatim>\<open>replay.go\<close>, the reader and the
  adapter registry, over the tables \<^verbatim>\<open>forecast_collections\<close> and \<^verbatim>\<open>forecast_snapshots\<close>
  (\<^verbatim>\<open>adapters/persistence/collectionpg\<close> with the constraints of the migration), the circuit table, the payload
  store and the audit trail. What an adapter returns for a request is an argument, as are the clock readings, the
  fresh identifier and the fate of the disk write.
\<close>

section \<open>The tables\<close>

record coll_db =
  cd_collections :: "ForecastCollection list"
  cd_snapshots :: "ForecastSnapshot list"
  cd_partitions :: "instant list"
  cd_circuits :: circuits
  cd_disk :: disk
  cd_audit :: "AuditEvent list"

datatype coll_error = CollNotFound | CollInactive | CollCircuitOpen uuid "instant option" | CollFetch string
  | CollDuplicateKey | CollCheck | ErrDuplicateCollection | CollImmutable
  | SnapNoPartition | SnapCheck | SnapDuplicateKey
  | ErrPayloadUnavailable | ErrReplayUnsupported | CollDecode string | CollCursor

definition CollectionStatus_str :: "CollectionStatus \<Rightarrow> string" where
  "CollectionStatus_str s = (case s of StatusPending \<Rightarrow> ''pending'' | StatusSuccess \<Rightarrow> ''success'' | StatusPartial \<Rightarrow> ''partial''
     | StatusFailed \<Rightarrow> ''failed'' | StatusDeduplicated \<Rightarrow> ''deduplicated'' | StatusRateLimited \<Rightarrow> ''rate_limited''
     | StatusTimeout \<Rightarrow> ''timeout'')"

definition coll_checks :: "ForecastCollection \<Rightarrow> bool" where
  "coll_checks c \<longleftrightarrow> (fc_Status c \<noteq> StatusPending \<or> fc_CompletedAt c = None) \<and>
     (case fc_CompletedAt c of None \<Rightarrow> True | Some t \<Rightarrow> t \<ge> fc_RequestedAt c) \<and>
     (AccountingHolds c \<or> \<not> Successful (fc_Status c))"

text \<open>The partial unique index \<^verbatim>\<open>forecast_collections_dedup\<close>.\<close>

definition dedup_key :: "ForecastCollection \<Rightarrow> uuid \<times> uuid \<times> instant" where
  "dedup_key c = (fc_ProviderID c, fc_LocationID c, case fc_ProviderModelRunTime c of Some m \<Rightarrow> m | None \<Rightarrow> fc_RequestedAt c)"

definition dedup_clash :: "ForecastCollection \<Rightarrow> ForecastCollection list \<Rightarrow> bool" where
  "dedup_clash c rows \<longleftrightarrow> Successful (fc_Status c) \<and>
     (\<exists>r \<in> set rows. fc_ID r \<noteq> fc_ID c \<and> Successful (fc_Status r) \<and> dedup_key r = dedup_key c)"

definition CollRepo_Insert :: "ForecastCollection \<Rightarrow> coll_db \<Rightarrow> (coll_error, unit) result \<times> coll_db" where
  "CollRepo_Insert c db =
     (if \<not> coll_checks c then (Inl CollCheck, db)
      else if (\<exists>r \<in> set (cd_collections db). fc_ID r = fc_ID c) \<or> dedup_clash c (cd_collections db) then (Inl CollDuplicateKey, db)
      else (Inr (), db\<lparr>cd_collections := cd_collections db @ [c]\<rparr>))"

text \<open>The one update of a row. The trigger refuses it unless the row is pending.\<close>

definition completed :: "ForecastCollection \<Rightarrow> ForecastCollection \<Rightarrow> ForecastCollection" where
  "completed c r = r\<lparr>fc_CompletedAt := fc_CompletedAt c, fc_Status := fc_Status c, fc_RecordsReceived := fc_RecordsReceived c,
     fc_SnapshotsStored := fc_SnapshotsStored c, fc_SnapshotsDeduplicated := fc_SnapshotsDeduplicated c,
     fc_SnapshotsInvalid := fc_SnapshotsInvalid c, fc_ErrorCode := fc_ErrorCode c, fc_ErrorMessage := fc_ErrorMessage c\<rparr>"

definition CollRepo_Complete :: "ForecastCollection \<Rightarrow> coll_db \<Rightarrow> (coll_error, unit) result \<times> coll_db" where
  "CollRepo_Complete c db =
     (case find (\<lambda>r. fc_ID r = fc_ID c) (cd_collections db) of
        None \<Rightarrow> (Inr (), db)
      | Some r \<Rightarrow>
          (if fc_Status r \<noteq> StatusPending then (Inl CollImmutable, db)
           else if \<not> coll_checks (completed c r) then (Inl CollCheck, db)
           else if dedup_clash (completed c r) (cd_collections db) then (Inl ErrDuplicateCollection, db)
           else (Inr (), db\<lparr>cd_collections := update_where (\<lambda>q. fc_ID q = fc_ID c) (completed c) (cd_collections db)\<rparr>)))"

definition CollRepo_GetByID :: "uuid \<Rightarrow> coll_db \<Rightarrow> (coll_error, ForecastCollection) result" where
  "CollRepo_GetByID i db = (case find (\<lambda>r. fc_ID r = i) (cd_collections db) of None \<Rightarrow> Inl CollNotFound | Some r \<Rightarrow> Inr r)"

definition FindDedup :: "uuid \<Rightarrow> uuid \<Rightarrow> instant \<Rightarrow> coll_db \<Rightarrow> ForecastCollection option" where
  "FindDedup provider loc key db =
     find (\<lambda>r. dedup_key r = (provider, loc, key) \<and> Successful (fc_Status r)) (cd_collections db)"

text \<open>Of rows requested at the same time the first one is taken.\<close>

definition LatestSuccessful :: "uuid \<Rightarrow> uuid \<Rightarrow> coll_db \<Rightarrow> ForecastCollection option" where
  "LatestSuccessful provider loc db =
     (case sort_key (\<lambda>r. - fc_RequestedAt r) (filter (\<lambda>r. fc_ProviderID r = provider \<and> fc_LocationID r = loc \<and> Successful (fc_Status r))
         (cd_collections db)) of [] \<Rightarrow> None | r # rs \<Rightarrow> Some r)"

definition CollRepo_List :: "CollectionFilter \<Rightarrow> coll_db \<Rightarrow> ForecastCollection list" where
  "CollRepo_List f db =
     keyset fc_ID (\<lambda>r. (case cf_ProviderID f of None \<Rightarrow> True | Some p \<Rightarrow> fc_ProviderID r = p) \<and>
       (case cf_LocationID f of None \<Rightarrow> True | Some l \<Rightarrow> fc_LocationID r = l) \<and>
       (case cf_Status f of None \<Rightarrow> True | Some s \<Rightarrow> fc_Status r = s)) (cf_Cursor f) (nat (cf_Limit f) + 1) (cd_collections db)"

definition snap_key :: "ForecastSnapshot \<Rightarrow> uuid \<times> uuid \<times> instant \<times> instant" where
  "snap_key s = (fs_ProviderID s, fs_LocationID s, fs_IssuedAt s, fs_TargetTime s)"

definition SnapRepo_EnsurePartitions :: "instant list \<Rightarrow> coll_db \<Rightarrow> coll_db" where
  "SnapRepo_EnsurePartitions ms db = db\<lparr>cd_partitions := foldl (\<lambda>ps m. List.insert m ps) (cd_partitions db) ms\<rparr>"

text \<open>\<^verbatim>\<open>INSERT ... ON CONFLICT (provider_id, location_id, issued_at, target_time) DO NOTHING\<close>, row by row.\<close>

fun SnapRepo_InsertBatch :: "instant \<Rightarrow> ForecastSnapshot list \<Rightarrow> coll_db \<Rightarrow> (coll_error, nat) result \<times> coll_db" where
  "SnapRepo_InsertBatch created [] db = (Inr 0, db)"
| "SnapRepo_InsertBatch created (s # ss) db =
     (if month_start (fs_TargetTime s) \<notin> set (cd_partitions db) then (Inl SnapNoPartition, db)
      else if \<not> snapshot_checks s then (Inl SnapCheck, db)
      else if \<exists>q \<in> set (cd_snapshots db). snap_key q = snap_key s then SnapRepo_InsertBatch created ss db
      else if \<exists>q \<in> set (cd_snapshots db). fs_ID q = fs_ID s \<and> fs_TargetTime q = fs_TargetTime s then (Inl SnapDuplicateKey, db)
      else (case SnapRepo_InsertBatch created ss (db\<lparr>cd_snapshots := cd_snapshots db @ [s\<lparr>fs_CreatedAt := created\<rparr>]\<rparr>) of
              (Inl e, db') \<Rightarrow> (Inl e, db')
            | (Inr n, db') \<Rightarrow> (Inr (n + 1), db')))"

definition ByCollectionID :: "uuid \<Rightarrow> coll_db \<Rightarrow> ForecastSnapshot list" where
  "ByCollectionID i db = sort_key fs_TargetTime (filter (\<lambda>s. fs_ForecastCollectionID s = i) (cd_snapshots db))"

definition SnapRepo_GetByID :: "uuid \<Rightarrow> coll_db \<Rightarrow> (coll_error, ForecastSnapshot) result" where
  "SnapRepo_GetByID i db = (case find (\<lambda>s. fs_ID s = i) (cd_snapshots db) of None \<Rightarrow> Inl CollNotFound | Some s \<Rightarrow> Inr s)"

section \<open>Collecting a forecast\<close>

definition SourceManual :: string where "SourceManual = ''manual''"
definition SourceScheduled :: string where "SourceScheduled = ''scheduled''"
definition SourceReplay :: string where "SourceReplay = ''replay''"

record CollectInput =
  in_Provider :: Provider
  in_Location :: Location
  in_Config :: ProviderConfiguration
  in_Actor :: Actor
  in_Source :: string

text \<open>What one run reads from outside: the clock at its successive readings (the start, completion, recording a
  duplicate, publication), the database clock, the fresh identifier and how the payload write ends.\<close>

record collect_env =
  cv_now :: instant
  cv_completedAt :: instant
  cv_dedupAt :: instant
  cv_publishedAt :: instant
  cv_wall :: instant
  cv_fresh :: uuid
  cv_disk :: disk_event

definition orDefault :: "string \<Rightarrow> string \<Rightarrow> string" where
  "orDefault v d = (if v \<noteq> [] then v else d)"

definition coll_classify :: "ForecastResult \<Rightarrow> bool \<Rightarrow> CollectionStatus \<times> string \<times> string" where
  "coll_classify result payloadOK =
     (let reasons = (if fr_InvalidReasons result \<noteq> [] then join ''; '' (take 5 (fr_InvalidReasons result)) else []);
          errorMsg = (case fr_Err result of Some e \<Rightarrow> if reasons = [] then e else reasons | None \<Rightarrow> reasons);
          errorCode = (if \<not> payloadOK then ''payload_write_failed'' else [])
      in case fr_Outcome result of
           OutcomeSuccess \<Rightarrow> (StatusSuccess, errorCode, errorMsg)
         | OutcomePartial \<Rightarrow> (StatusPartial, if errorCode = [] then ''partial_validation'' else errorCode, errorMsg)
         | OutcomeRateLimited \<Rightarrow> (StatusRateLimited, orDefault errorCode ''rate_limited'', errorMsg)
         | OutcomeTimeout \<Rightarrow> (StatusTimeout, orDefault errorCode ''timeout'', errorMsg)
         | OutcomeAuthFailed \<Rightarrow> (StatusFailed, orDefault errorCode ''invalid_credentials'', errorMsg)
         | OutcomeFailed \<Rightarrow> (StatusFailed, orDefault errorCode (fr_ErrorCode result), errorMsg))"

definition monthStarts :: "ForecastSnapshot list \<Rightarrow> instant list" where
  "monthStarts snaps = nub (map (\<lambda>s. month_start (fs_TargetTime s)) snaps)"

definition usable :: "ForecastResult \<Rightarrow> bool" where
  "usable result \<longleftrightarrow> fr_Outcome result = OutcomeSuccess \<or> fr_Outcome result = OutcomePartial"

definition dedup_time :: "instant \<Rightarrow> ForecastResult \<Rightarrow> instant" where
  "dedup_time issuedAt result = (case fr_ModelRunTime result of Some m \<Rightarrow> m | None \<Rightarrow> issuedAt)"

definition issued_at :: "instant \<Rightarrow> instant" where
  "issued_at now = Truncate now Hour - Hour"

definition forecast_request :: "(string \<Rightarrow> string) \<Rightarrow> CollectInput \<Rightarrow> instant \<Rightarrow> ForecastRequest" where
  "forecast_request resolveCred inp issuedAt =
     \<lparr>fq_ProviderID = pr_ID (in_Provider inp), fq_LocationID = lo_ID (in_Location inp), fq_ProviderSlug = pr_Slug (in_Provider inp),
      fq_BaseURL = pr_APIBaseURL (in_Provider inp), fq_Credential = resolveCred (pc_CredentialRef (in_Config inp)),
      fq_Latitude = lo_Latitude (in_Location inp), fq_Longitude = lo_Longitude (in_Location inp),
      fq_Timezone = lo_Timezone (in_Location inp), fq_IssuedAt = issuedAt\<rparr>"

definition CircuitState_str :: "CircuitState \<Rightarrow> string" where
  "CircuitState_str s = (case s of CircuitClosed \<Rightarrow> ''closed'' | CircuitHalfOpen \<Rightarrow> ''half_open'' | CircuitOpen \<Rightarrow> ''open'')"

definition coll_events :: "collect_env \<Rightarrow> CollectInput \<Rightarrow> ForecastCollection \<Rightarrow> nat \<Rightarrow> Transition option \<Rightarrow> Event list" where
  "coll_events env inp coll stored transition =
     (case transition of Some tr \<Rightarrow>
          (if tr_Changed tr then [ProviderHealthChanged (tr_ProviderID tr) (CircuitState_str (tr_Old tr)) (CircuitState_str (tr_New tr))
              (tr_ConsecutiveFailures tr)] else [])
        | None \<Rightarrow> []) @
     [ForecastCollected (fc_ID coll) (pr_ID (in_Provider inp)) (fc_LocationID coll) (int stored) (CollectionStatus_str (fc_Status coll))
        (cv_publishedAt env)]"

definition dedup_collection :: "collect_env \<Rightarrow> CollectInput \<Rightarrow> instant \<Rightarrow> ForecastResult \<Rightarrow> ForecastCollection" where
  "dedup_collection env inp issuedAt result =
     \<lparr>fc_ID = cv_fresh env, fc_ProviderID = pr_ID (in_Provider inp), fc_LocationID = lo_ID (in_Location inp),
      fc_ProviderConfigurationID = pc_ID (in_Config inp), fc_RequestedAt = issuedAt, fc_CompletedAt = Some (cv_dedupAt env),
      fc_Status = StatusDeduplicated, fc_ProviderRequestID = [], fc_ProviderModelRunTime = fr_ModelRunTime result,
      fc_RawPayloadObjectKey = [], fc_RawPayloadChecksum = [], fc_ResponseStatusCode = 0, fc_ResponseLatencyMS = 0,
      fc_RecordsReceived = fr_RecordsReceived result, fc_SnapshotsStored = 0, fc_SnapshotsDeduplicated = fr_RecordsReceived result,
      fc_SnapshotsInvalid = 0, fc_SchemaVersion = fr_SchemaVersion result, fc_AdapterVersion = fr_AdapterVersion result,
      fc_ErrorCode = [], fc_ErrorMessage = [], fc_CreatedAt = cv_dedupAt env\<rparr>"

definition storeDeduplicated :: "collect_env \<Rightarrow> CollectInput \<Rightarrow> instant \<Rightarrow> ForecastResult \<Rightarrow> coll_db \<Rightarrow>
    ((coll_error, ForecastCollection) result \<times> Event list) \<times> coll_db" where
  "storeDeduplicated env inp issuedAt result db =
     (let coll = dedup_collection env inp issuedAt result in
      case CollRepo_Insert coll db of
        (Inl e, db') \<Rightarrow> ((Inl e, []), db')
      | (Inr _, db') \<Rightarrow> ((Inr coll, [ForecastCollected (fc_ID coll) (pr_ID (in_Provider inp)) (lo_ID (in_Location inp)) 0
          (CollectionStatus_str StatusDeduplicated) (cv_dedupAt env)]), db'))"

definition pending_collection :: "collect_env \<Rightarrow> CollectInput \<Rightarrow> instant \<Rightarrow> ForecastResult \<Rightarrow> string \<Rightarrow> ForecastCollection" where
  "pending_collection env inp issuedAt result objectKey =
     \<lparr>fc_ID = cv_fresh env, fc_ProviderID = pr_ID (in_Provider inp), fc_LocationID = lo_ID (in_Location inp),
      fc_ProviderConfigurationID = pc_ID (in_Config inp), fc_RequestedAt = issuedAt, fc_CompletedAt = None,
      fc_Status = StatusPending, fc_ProviderRequestID = fr_ProviderRequestID result, fc_ProviderModelRunTime = fr_ModelRunTime result,
      fc_RawPayloadObjectKey = objectKey, fc_RawPayloadChecksum = fr_Checksum result,
      fc_ResponseStatusCode = fr_HTTPStatusCode result, fc_ResponseLatencyMS = fr_LatencyMS result,
      fc_RecordsReceived = 0, fc_SnapshotsStored = 0, fc_SnapshotsDeduplicated = 0,
      fc_SnapshotsInvalid = 0, fc_SchemaVersion = fr_SchemaVersion result, fc_AdapterVersion = fr_AdapterVersion result,
      fc_ErrorCode = [], fc_ErrorMessage = [], fc_CreatedAt = cv_now env\<rparr>"

definition own_snapshot :: "ForecastCollection \<Rightarrow> ForecastSnapshot \<Rightarrow> ForecastSnapshot" where
  "own_snapshot coll s = s\<lparr>fs_ForecastCollectionID := fc_ID coll, fs_ProviderID := fc_ProviderID coll, fs_LocationID := fc_LocationID coll\<rparr>"

text \<open>The part of the transaction that collecting and replaying share: insert the pending row, insert the snapshots,
  complete the row.\<close>

definition terminal_collection :: "ForecastCollection \<Rightarrow> ForecastResult \<Rightarrow> nat \<Rightarrow> CollectionStatus \<Rightarrow> string \<Rightarrow> string \<Rightarrow> instant \<Rightarrow> ForecastCollection" where
  "terminal_collection coll result stored status errorCode errorMsg completedAt =
     coll\<lparr>fc_SnapshotsStored := int stored, fc_SnapshotsDeduplicated := int (length (fr_Snapshots result)) - int stored,
       fc_SnapshotsInvalid := fr_InvalidCount result, fc_RecordsReceived := fr_RecordsReceived result, fc_Status := status,
       fc_CompletedAt := Some completedAt, fc_ErrorCode := errorCode, fc_ErrorMessage := errorMsg\<rparr>"

definition store_tx :: "collect_env \<Rightarrow> ForecastCollection \<Rightarrow> ForecastResult \<Rightarrow> bool \<Rightarrow> CollectionStatus \<Rightarrow> string \<Rightarrow> string \<Rightarrow> coll_db \<Rightarrow>
    (coll_error, ForecastCollection \<times> nat) result \<times> coll_db" where
  "store_tx env coll result storeSnaps status errorCode errorMsg db =
     (case CollRepo_Insert coll db of
        (Inl e, db1) \<Rightarrow> (Inl e, db1)
      | (Inr _, db1) \<Rightarrow>
          (case (if storeSnaps then SnapRepo_InsertBatch (cv_wall env) (map (own_snapshot coll) (fr_Snapshots result)) db1 else (Inr 0, db1)) of
             (Inl e, db2) \<Rightarrow> (Inl e, db2)
           | (Inr stored, db2) \<Rightarrow>
               (let coll' = terminal_collection coll result stored status errorCode errorMsg (cv_completedAt env) in
                case CollRepo_Complete coll' db2 of
                  (Inl e, db3) \<Rightarrow> (Inl e, db3)
                | (Inr _, db3) \<Rightarrow> (Inr (coll', stored), db3))))"

definition circuit_outcome :: "uuid \<Rightarrow> CollectionStatus \<Rightarrow> Outcome \<Rightarrow> instant \<Rightarrow> coll_db \<Rightarrow> Transition option \<times> coll_db" where
  "circuit_outcome provider status outcome at_time db =
     (if Successful status
      then (let (tr, cs) = RecordSuccess provider at_time (cd_circuits db) in (Some tr, db\<lparr>cd_circuits := cs\<rparr>))
      else if outcome = OutcomeFailed \<or> outcome = OutcomeTimeout
      then (let (tr, cs) = RecordFailure provider at_time (cd_circuits db) in (Some tr, db\<lparr>cd_circuits := cs\<rparr>))
      else (None, db))"

definition collect_tx :: "collect_env \<Rightarrow> CollectInput \<Rightarrow> ForecastCollection \<Rightarrow> ForecastResult \<Rightarrow> CollectionStatus \<Rightarrow> string \<Rightarrow> string \<Rightarrow> coll_db \<Rightarrow>
    (coll_error, ForecastCollection \<times> nat \<times> Transition option) result \<times> coll_db" where
  "collect_tx env inp coll result status errorCode errorMsg db =
     (case store_tx env coll result (Successful status \<and> fr_Snapshots result \<noteq> []) status errorCode errorMsg db of
        (Inl e, db1) \<Rightarrow> (Inl e, db1)
      | (Inr (coll', stored), db1) \<Rightarrow>
          (case circuit_outcome (pr_ID (in_Provider inp)) status (fr_Outcome result) (cv_completedAt env) db1 of
             (tr, db2) \<Rightarrow> (Inr (coll', stored, tr), db2)))"

definition audit_record :: "instant \<Rightarrow> AuditEvent \<Rightarrow> coll_db \<Rightarrow> coll_db" where
  "audit_record wall e db = db\<lparr>cd_audit := Record wall e (cd_audit db)\<rparr>"

text \<open>Steps 5 to 9 of \<open>Collect\<close>, from the payload write on.\<close>

definition write_payload :: "string \<Rightarrow> collect_env \<Rightarrow> string \<Rightarrow> ForecastResult \<Rightarrow> coll_db \<Rightarrow> bool \<times> coll_db" where
  "write_payload dir env objectKey result db =
     (if fr_RawPayload result = [] then (True, db)
      else case store_Write dir (cv_disk env) objectKey (fr_RawPayload result) (cd_disk db) of
             (r, d) \<Rightarrow> (r = Inr (), db\<lparr>cd_disk := d\<rparr>))"

definition collect_audit :: "collect_env \<Rightarrow> CollectInput \<Rightarrow> ForecastCollection \<Rightarrow> coll_db \<Rightarrow> coll_db" where
  "collect_audit env inp coll db =
     (if in_Source inp = SourceManual \<or> in_Source inp = SourceReplay
      then audit_record (cv_wall env)
        \<lparr>ae_UserID = ac_UserID (in_Actor inp), ae_Action = ''collection.'' @ in_Source inp, ae_ResourceType = ''forecast_collection'',
         ae_ResourceID = Some (fc_ID coll),
         ae_Details = [(''actor'', DStr (ac_Name (in_Actor inp))), (''provider'', DStr (pr_Slug (in_Provider inp))),
           (''location_id'', DStr (uuid_string (lo_ID (in_Location inp)))), (''status'', DStr (CollectionStatus_str (fc_Status coll)))],
         ae_IPAddress = ac_IPAddress (in_Actor inp), ae_At = None\<rparr> db
      else db)"

definition collect_store :: "string \<Rightarrow> collect_env \<Rightarrow> CollectInput \<Rightarrow> instant \<Rightarrow> ForecastResult \<Rightarrow> coll_db \<Rightarrow>
    ((coll_error, ForecastCollection) result \<times> Event list) \<times> coll_db" where
  "collect_store dir env inp issuedAt result db =
     (let objectKey = BuildPayloadKey uuid_string (pr_Slug (in_Provider inp)) (cv_now env) (cv_fresh env);
          (payloadOK, db1) = write_payload dir env objectKey result db;
          (status, errorCode, errorMsg) = coll_classify result payloadOK;
          db2 = (if Successful status \<and> fr_Snapshots result \<noteq> [] then SnapRepo_EnsurePartitions (monthStarts (fr_Snapshots result)) db1 else db1);
          coll = pending_collection env inp issuedAt result (if payloadOK \<and> fr_RawPayload result \<noteq> [] then objectKey else [])
      in case Run (collect_tx env inp coll result status errorCode errorMsg) db2 of
           (Inl e, db3) \<Rightarrow>
             (if e = ErrDuplicateCollection then storeDeduplicated env inp issuedAt result db3 else ((Inl e, []), db3))
         | (Inr (coll', stored, tr), db3) \<Rightarrow>
             ((Inr coll', coll_events env inp coll' stored tr), collect_audit env inp coll' db3))"

text \<open>Step 4, the lookup of a collection with the same key.\<close>

definition collect_record :: "string \<Rightarrow> collect_env \<Rightarrow> CollectInput \<Rightarrow> instant \<Rightarrow> ForecastResult \<Rightarrow> coll_db \<Rightarrow>
    ((coll_error, ForecastCollection) result \<times> Event list) \<times> coll_db" where
  "collect_record dir env inp issuedAt result db =
     (if usable result \<and> FindDedup (pr_ID (in_Provider inp)) (lo_ID (in_Location inp)) (dedup_time issuedAt result) db \<noteq> None
      then storeDeduplicated env inp issuedAt result db
      else collect_store dir env inp issuedAt result db)"

type_synonym fetcher = "ForecastRequest \<Rightarrow> (string, ForecastResult) result"

text \<open>The checks and the circuit before the provider is called.\<close>

definition collect_admit :: "(string \<rightharpoonup> fetcher) \<Rightarrow> instant \<Rightarrow> CollectInput \<Rightarrow> coll_db \<Rightarrow> (coll_error, fetcher \<times> instant) result \<times> coll_db" where
  "collect_admit adapters now inp db =
     (if \<not> Active (pr_Status (in_Provider inp)) \<or> \<not> Active (lo_Status (in_Location inp)) \<or> \<not> Active (pc_Status (in_Config inp))
      then (Inl CollInactive, db)
      else case adapters (pr_Slug (in_Provider inp)) of
             None \<Rightarrow> (Inl CollInactive, db)
           | Some fetch \<Rightarrow>
               (case CircuitService_Evaluate (pr_ID (in_Provider inp)) now (cd_circuits db) of
                  (d, cs) \<Rightarrow>
                    (if \<not> Allowed d then (Inl (CollCircuitOpen (pr_ID (in_Provider inp)) (RetryAt d)), db\<lparr>cd_circuits := cs\<rparr>)
                     else (Inr (fetch, issued_at now), db\<lparr>cd_circuits := cs\<rparr>))))"

definition Collect :: "(string \<rightharpoonup> fetcher) \<Rightarrow> (string \<Rightarrow> string) \<Rightarrow> string \<Rightarrow> collect_env \<Rightarrow> CollectInput \<Rightarrow> coll_db \<Rightarrow>
    ((coll_error, ForecastCollection) result \<times> Event list) \<times> coll_db" where
  "Collect adapters resolveCred dir env inp db =
     (case collect_admit adapters (cv_now env) inp db of
        (Inl e, db1) \<Rightarrow> ((Inl e, []), db1)
      | (Inr (fetch, issuedAt), db1) \<Rightarrow>
          (case fetch (forecast_request resolveCred inp issuedAt) of
             Inl msg \<Rightarrow> ((Inl (CollFetch msg), []), db1)
           | Inr result \<Rightarrow> collect_record dir env inp issuedAt result db1))"


section \<open>Replaying a stored payload\<close>

type_synonym decoder = "ForecastRequest \<Rightarrow> string \<Rightarrow> (string, ForecastResult) result"

definition replay_request :: "ForecastCollection \<Rightarrow> Provider \<Rightarrow> ForecastRequest" where
  "replay_request orig provider =
     \<lparr>fq_ProviderID = fc_ProviderID orig, fq_LocationID = fc_LocationID orig, fq_ProviderSlug = pr_Slug provider, fq_BaseURL = [],
      fq_Credential = [], fq_Latitude = 0, fq_Longitude = 0, fq_Timezone = [], fq_IssuedAt = fc_RequestedAt orig\<rparr>"

definition replay_collection :: "collect_env \<Rightarrow> ForecastCollection \<Rightarrow> ForecastResult \<Rightarrow> ForecastCollection" where
  "replay_collection env orig result =
     \<lparr>fc_ID = cv_fresh env, fc_ProviderID = fc_ProviderID orig, fc_LocationID = fc_LocationID orig,
      fc_ProviderConfigurationID = fc_ProviderConfigurationID orig, fc_RequestedAt = fc_RequestedAt orig, fc_CompletedAt = None,
      fc_Status = StatusPending, fc_ProviderRequestID = fc_ProviderRequestID orig, fc_ProviderModelRunTime = fc_ProviderModelRunTime orig,
      fc_RawPayloadObjectKey = fc_RawPayloadObjectKey orig, fc_RawPayloadChecksum = fc_RawPayloadChecksum orig,
      fc_ResponseStatusCode = 0, fc_ResponseLatencyMS = 0, fc_RecordsReceived = 0, fc_SnapshotsStored = 0,
      fc_SnapshotsDeduplicated = 0, fc_SnapshotsInvalid = 0, fc_SchemaVersion = fr_SchemaVersion result,
      fc_AdapterVersion = fr_AdapterVersion result, fc_ErrorCode = [], fc_ErrorMessage = [], fc_CreatedAt = cv_now env\<rparr>"

definition replay_audit :: "collect_env \<Rightarrow> Actor \<Rightarrow> Provider \<Rightarrow> ForecastCollection \<Rightarrow> ForecastCollection \<Rightarrow> coll_db \<Rightarrow> coll_db" where
  "replay_audit env actor provider orig coll db = audit_record (cv_wall env)
     \<lparr>ae_UserID = ac_UserID actor, ae_Action = ''collection.'' @ SourceReplay, ae_ResourceType = ''forecast_collection'',
      ae_ResourceID = Some (fc_ID coll),
      ae_Details = [(''actor'', DStr (ac_Name actor)), (''provider'', DStr (pr_Slug provider)),
        (''original_collection_id'', DStr (uuid_string (fc_ID orig))), (''snapshots_stored'', DInt (fc_SnapshotsStored coll)),
        (''snapshots_deduplicated'', DInt (fc_SnapshotsDeduplicated coll)), (''status'', DStr (CollectionStatus_str (fc_Status coll)))],
      ae_IPAddress = ac_IPAddress actor, ae_At = None\<rparr> db"

text \<open>From the decoded result on.\<close>

definition replay_store :: "collect_env \<Rightarrow> Actor \<Rightarrow> Provider \<Rightarrow> ForecastCollection \<Rightarrow> ForecastResult \<Rightarrow> coll_db \<Rightarrow>
    ((coll_error, ForecastCollection) result \<times> Event list) \<times> coll_db" where
  "replay_store env actor provider orig result db =
     (let (decodeStatus, errorCode, errorMsg) = coll_classify result True;
          storeSnaps = (Successful decodeStatus \<and> fr_Snapshots result \<noteq> []);
          collStatus = (if \<not> Successful decodeStatus then decodeStatus else StatusDeduplicated);
          coll = replay_collection env orig result;
          db1 = (if storeSnaps then SnapRepo_EnsurePartitions (monthStarts (fr_Snapshots result)) db else db)
      in case Run (store_tx env coll result storeSnaps collStatus errorCode errorMsg) db1 of
           (Inl e, db2) \<Rightarrow> ((Inl e, []), db2)
         | (Inr (coll', stored), db2) \<Rightarrow>
             ((Inr coll', [ForecastCollected (fc_ID coll') (fc_ProviderID orig) (fc_LocationID orig) (int stored)
                (CollectionStatus_str (fc_Status coll')) (cv_now env)]),
              replay_audit env actor provider orig coll' db2))"

definition Replay :: "(uuid \<Rightarrow> (coll_error, Provider) result) \<Rightarrow> (string \<rightharpoonup> decoder option) \<Rightarrow> string \<Rightarrow> collect_env \<Rightarrow> Actor \<Rightarrow> uuid \<Rightarrow> coll_db \<Rightarrow>
    ((coll_error, ForecastCollection) result \<times> Event list) \<times> coll_db" where
  "Replay getProvider adapters dir env actor collectionID db =
     (case CollRepo_GetByID collectionID db of
        Inl e \<Rightarrow> ((Inl e, []), db)
      | Inr orig \<Rightarrow>
          (if fc_RawPayloadObjectKey orig = [] \<or> fc_RawPayloadChecksum orig = [] then ((Inl ErrPayloadUnavailable, []), db)
           else case getProvider (fc_ProviderID orig) of
             Inl e \<Rightarrow> ((Inl e, []), db)
           | Inr provider \<Rightarrow>
               (case adapters (pr_Slug provider) of
                  None \<Rightarrow> ((Inl CollInactive, []), db)
                | Some None \<Rightarrow> ((Inl ErrReplayUnsupported, []), db)
                | Some (Some decode) \<Rightarrow>
                    (case store_Read dir (fc_RawPayloadObjectKey orig) (cd_disk db) of
                       Inl _ \<Rightarrow> ((Inl ErrPayloadUnavailable, []), db)
                     | Inr raw \<Rightarrow>
                         (if \<not> VerifyChecksum raw (fc_RawPayloadChecksum orig)
                          then ((Inl ErrPayloadUnavailable, []),
                                db\<lparr>cd_disk := snd (Quarantine dir (cv_wall env) (fc_RawPayloadObjectKey orig) (cd_disk db))\<rparr>)
                          else case decode (replay_request orig provider) raw of
                                 Inl msg \<Rightarrow> ((Inl (CollDecode msg), []), db)
                               | Inr result \<Rightarrow> replay_store env actor provider orig result db)))))"


section \<open>The reader\<close>

record CollectionListInput =
  li_ProviderID :: "uuid option"
  li_LocationID :: "uuid option"
  li_Status :: "CollectionStatus option"
  li_Cursor :: string
  li_Limit :: int

definition ListCollections :: "(uuid \<Rightarrow> string) \<Rightarrow> (string \<Rightarrow> uuid option) \<Rightarrow> CollectionListInput \<Rightarrow> coll_db \<Rightarrow>
    (coll_error, ForecastCollection list \<times> PageInfo) result" where
  "ListCollections ustr uparse inp db =
     (let limit = page_limit (li_Limit inp) in
      case parse_cursor uparse (li_Cursor inp) of
        None \<Rightarrow> Inl CollCursor
      | Some c \<Rightarrow> Inr (cut_page ustr fc_ID limit (CollRepo_List \<lparr>cf_ProviderID = li_ProviderID inp, cf_LocationID = li_LocationID inp,
          cf_Status = li_Status inp, cf_Cursor = c, cf_Limit = int limit\<rparr> db)))"

definition LatestForecast :: "uuid \<Rightarrow> uuid \<Rightarrow> coll_db \<Rightarrow> (ForecastCollection \<times> ForecastSnapshot list) option" where
  "LatestForecast provider loc db =
     (case LatestSuccessful provider loc db of None \<Rightarrow> None | Some c \<Rightarrow> Some (c, ByCollectionID (fc_ID c) db))"

section \<open>What a transaction adds\<close>

definition coll_inv :: "coll_db \<Rightarrow> bool" where
  "coll_inv db \<longleftrightarrow> distinct (map fc_ID (cd_collections db)) \<and>
     list_all (\<lambda>c. coll_checks c \<and> Terminal (fc_Status c)) (cd_collections db) \<and>
     distinct (map dedup_key (filter (\<lambda>c. Successful (fc_Status c)) (cd_collections db))) \<and>
     distinct (map snap_key (cd_snapshots db)) \<and> distinct (map (\<lambda>s. (fs_ID s, fs_TargetTime s)) (cd_snapshots db)) \<and>
     list_all snapshot_checks (cd_snapshots db) \<and>
     list_all (\<lambda>s. \<exists>c \<in> set (cd_collections db). fc_ID c = fs_ForecastCollectionID s \<and> fc_ProviderID c = fs_ProviderID s \<and>
       fc_LocationID c = fs_LocationID s) (cd_snapshots db) \<and>
     list_all (\<lambda>c. fc_SnapshotsStored c = int (length (filter (\<lambda>s. fs_ForecastCollectionID s = fc_ID c) (cd_snapshots db)))) (cd_collections db)"

definition appended :: "coll_db \<Rightarrow> ForecastCollection list \<Rightarrow> ForecastSnapshot list \<Rightarrow> coll_db \<Rightarrow> bool" where
  "appended db cs ss db' \<longleftrightarrow> cd_collections db' = cd_collections db @ cs \<and> cd_snapshots db' = cd_snapshots db @ ss"

text \<open>Snapshots a batch can add to a table.\<close>

definition snaps_ok :: "ForecastSnapshot list \<Rightarrow> ForecastSnapshot list \<Rightarrow> bool" where
  "snaps_ok old new \<longleftrightarrow> (distinct (map snap_key old) \<longrightarrow> distinct (map snap_key (old @ new))) \<and>
     (distinct (map (\<lambda>s. (fs_ID s, fs_TargetTime s)) old) \<longrightarrow> distinct (map (\<lambda>s. (fs_ID s, fs_TargetTime s)) (old @ new))) \<and>
     list_all snapshot_checks new"

lemma snapshot_checks_created [simp]: "snapshot_checks (s\<lparr>fs_CreatedAt := t\<rparr>) = snapshot_checks s"
  by (simp add: snapshot_checks_def)

lemma snap_key_created [simp]: "snap_key (s\<lparr>fs_CreatedAt := t\<rparr>) = snap_key s"
  by (simp add: snap_key_def)

lemma SnapRepo_InsertBatch_ok:
  assumes "SnapRepo_InsertBatch created ss db = (Inr n, db')"
  shows "\<exists>new. db' = db\<lparr>cd_snapshots := cd_snapshots db @ new\<rparr> \<and> length new = n \<and> n \<le> length ss \<and>
    set new \<subseteq> (\<lambda>s. s\<lparr>fs_CreatedAt := created\<rparr>) ` set ss \<and> snaps_ok (cd_snapshots db) new \<and>
    snap_key ` set ss \<subseteq> snap_key ` set (cd_snapshots db')"
  using assms
proof (induction ss arbitrary: db n)
  case Nil
  then show ?case by (simp add: snaps_ok_def)
next
  case (Cons s ss)
  show ?case
  proof (cases "\<exists>q \<in> set (cd_snapshots db). snap_key q = snap_key s")
    case True
    with Cons.prems have "SnapRepo_InsertBatch created ss db = (Inr n, db')" by (auto split: if_splits)
    from Cons.IH [OF this] obtain new where h: "db' = db\<lparr>cd_snapshots := cd_snapshots db @ new\<rparr>" "length new = n" "n \<le> length ss"
      "set new \<subseteq> (\<lambda>s. s\<lparr>fs_CreatedAt := created\<rparr>) ` set ss" "snaps_ok (cd_snapshots db) new"
      "snap_key ` set ss \<subseteq> snap_key ` set (cd_snapshots db')" by blast
    have "snap_key s \<in> snap_key ` set (cd_snapshots db')" using True unfolding h(1) by simp (metis UnI1 imageI image_Un)
    then show ?thesis using h by (intro exI [of _ new]) auto
  next
    case False
    let ?s = "s\<lparr>fs_CreatedAt := created\<rparr>"
    let ?db = "db\<lparr>cd_snapshots := cd_snapshots db @ [?s]\<rparr>"
    from False Cons.prems obtain m where c: "snapshot_checks s"
      and pk: "\<not> (\<exists>q \<in> set (cd_snapshots db). fs_ID q = fs_ID s \<and> fs_TargetTime q = fs_TargetTime s)"
      and m: "n = m + 1" and rest: "SnapRepo_InsertBatch created ss ?db = (Inr m, db')"
      by (auto split: if_splits prod.splits sum.splits)
    from Cons.IH [OF rest] obtain new where h: "db' = ?db\<lparr>cd_snapshots := cd_snapshots ?db @ new\<rparr>" "length new = m" "m \<le> length ss"
      "set new \<subseteq> (\<lambda>s. s\<lparr>fs_CreatedAt := created\<rparr>) ` set ss" "snaps_ok (cd_snapshots ?db) new"
      "snap_key ` set ss \<subseteq> snap_key ` set (cd_snapshots db')" by auto
    have k: "snap_key s \<notin> snap_key ` set (cd_snapshots db)" using False by (metis imageE)
    have i: "(fs_ID s, fs_TargetTime s) \<notin> (\<lambda>s. (fs_ID s, fs_TargetTime s)) ` set (cd_snapshots db)" using pk by auto
    have "snaps_ok (cd_snapshots db) (?s # new)"
      using h(5) k i c unfolding snaps_ok_def by simp
    moreover have "snap_key s \<in> snap_key ` set (cd_snapshots db')" by (simp add: h(1))
    ultimately show ?thesis using h m by (intro exI [of _ "?s # new"]) auto
  qed
qed

lemma find_appended: "\<not> (\<exists>x \<in> set xs. P x) \<Longrightarrow> P y \<Longrightarrow> find P (xs @ [y]) = Some y"
  by (induction xs) auto

lemma update_where_appended: "\<not> (\<exists>x \<in> set xs. P x) \<Longrightarrow> P y \<Longrightarrow> update_where P f (xs @ [y]) = xs @ [f y]"
  by (auto simp: update_where_def map_idI)

lemma terminal_collection_simps [simp]:
  "fc_ID (terminal_collection c r n s e m t) = fc_ID c" "fc_ProviderID (terminal_collection c r n s e m t) = fc_ProviderID c"
  "fc_LocationID (terminal_collection c r n s e m t) = fc_LocationID c" "fc_Status (terminal_collection c r n s e m t) = s"
  "fc_SnapshotsStored (terminal_collection c r n s e m t) = int n" "dedup_key (terminal_collection c r n s e m t) = dedup_key c"
  "fc_RequestedAt (terminal_collection c r n s e m t) = fc_RequestedAt c"
  "completed (terminal_collection c r n s e m t) c = terminal_collection c r n s e m t"
  by (simp_all add: terminal_collection_def dedup_key_def completed_def split: option.split)

text \<open>A committed transaction appends the completed row and its snapshots.\<close>

lemma store_tx_ok:
  assumes "store_tx env coll result storeSnaps status errorCode errorMsg db = (Inr (coll', stored), db')"
    and "fc_Status coll = StatusPending"
  shows "\<exists>new. db' = db\<lparr>cd_collections := cd_collections db @ [coll'], cd_snapshots := cd_snapshots db @ new\<rparr> \<and>
    coll' = terminal_collection coll result stored status errorCode errorMsg (cv_completedAt env) \<and> length new = stored \<and>
    fc_ID coll \<notin> fc_ID ` set (cd_collections db) \<and> coll_checks coll' \<and> \<not> dedup_clash coll' (cd_collections db) \<and>
    list_all (\<lambda>s. fs_ForecastCollectionID s = fc_ID coll \<and> fs_ProviderID s = fc_ProviderID coll \<and> fs_LocationID s = fc_LocationID coll) new \<and>
    snaps_ok (cd_snapshots db) new \<and>
    (storeSnaps \<longrightarrow> snap_key ` set (map (own_snapshot coll) (fr_Snapshots result)) \<subseteq> snap_key ` set (cd_snapshots db'))"
proof -
  let ?db1 = "db\<lparr>cd_collections := cd_collections db @ [coll]\<rparr>"
  let ?ss = "map (own_snapshot coll) (fr_Snapshots result)"
  have ins: "CollRepo_Insert coll db = (Inr (), ?db1)" "fc_ID coll \<notin> fc_ID ` set (cd_collections db)"
  proof -
    obtain r d where i: "CollRepo_Insert coll db = (r, d)" by fastforce
    with assms(1) have "r = Inr ()" by (cases r) (auto simp: store_tx_def)
    with i show "CollRepo_Insert coll db = (Inr (), ?db1)" "fc_ID coll \<notin> fc_ID ` set (cd_collections db)"
      by (auto simp: CollRepo_Insert_def split: if_splits)
  qed
  obtain b db2 where batch0: "(if storeSnaps then SnapRepo_InsertBatch (cv_wall env) ?ss ?db1 else (Inr 0, ?db1)) = (b, db2)" by (metis surj_pair)
  with assms(1) ins(1) obtain n where n: "b = Inr n" by (cases b) (auto simp: store_tx_def)
  note batch = batch0 [unfolded n]
  have rest: "(case CollRepo_Complete (terminal_collection coll result n status errorCode errorMsg (cv_completedAt env)) db2 of
        (Inl e, db3) \<Rightarrow> (Inl e, db3)
      | (Inr _, db3) \<Rightarrow> (Inr (terminal_collection coll result n status errorCode errorMsg (cv_completedAt env), n), db3)) = (Inr (coll', stored), db')"
    using assms(1) unfolding store_tx_def ins(1) prod.case sum.case batch Let_def .
  obtain new where new: "db2 = ?db1\<lparr>cd_snapshots := cd_snapshots db @ new\<rparr>" "length new = n"
      "set new \<subseteq> (\<lambda>s. s\<lparr>fs_CreatedAt := cv_wall env\<rparr>) ` set ?ss" "snaps_ok (cd_snapshots db) new"
      "storeSnaps \<longrightarrow> snap_key ` set ?ss \<subseteq> snap_key ` set (cd_snapshots db2)"
  proof (cases storeSnaps)
    case True
    then have "SnapRepo_InsertBatch (cv_wall env) ?ss ?db1 = (Inr n, db2)" using batch by simp
    from SnapRepo_InsertBatch_ok [OF this] show thesis using that by auto
  next
    case False
    then show thesis using batch that [of "[]"] by (auto simp: snaps_ok_def)
  qed
  let ?t = "terminal_collection coll result n status errorCode errorMsg (cv_completedAt env)"
  have nid: "\<not> (\<exists>r \<in> set (cd_collections db). fc_ID r = fc_ID coll)" using ins(2) by (metis image_eqI)
  have cols: "cd_collections db2 = cd_collections db @ [coll]" using new(1) by simp
  have f: "find (\<lambda>r. fc_ID r = fc_ID coll) (cd_collections db2) = Some coll"
    and u: "update_where (\<lambda>q. fc_ID q = fc_ID coll) (completed ?t) (cd_collections db2) = cd_collections db @ [?t]"
    unfolding cols using find_appended [OF nid] update_where_appended [OF nid] by simp_all
  have "coll_checks ?t \<and> \<not> dedup_clash ?t (cd_collections db2) \<and> coll' = ?t \<and> stored = n \<and> db' = db2\<lparr>cd_collections := cd_collections db @ [?t]\<rparr>"
    using rest assms(2) unfolding CollRepo_Complete_def by (auto simp: f u split: if_splits)
  moreover have "list_all (\<lambda>s. fs_ForecastCollectionID s = fc_ID coll \<and> fs_ProviderID s = fc_ProviderID coll \<and> fs_LocationID s = fc_LocationID coll) new"
    using new(3) by (auto simp: list_all_iff own_snapshot_def)
  ultimately show ?thesis using new ins(2) by (intro exI [of _ new]) (auto simp: cols dedup_clash_def)
qed

section \<open>The invariant\<close>

lemma commit_inv:
  assumes inv: "coll_inv db" and cols: "cd_collections db' = cd_collections db @ [c]" and snaps: "cd_snapshots db' = cd_snapshots db @ new"
    and fresh: "fc_ID c \<notin> fc_ID ` set (cd_collections db)" and ok: "coll_checks c" "Terminal (fc_Status c)" "\<not> dedup_clash c (cd_collections db)"
    and new: "snaps_ok (cd_snapshots db) new" "fc_SnapshotsStored c = int (length new)"
    and own: "list_all (\<lambda>s. fs_ForecastCollectionID s = fc_ID c \<and> fs_ProviderID s = fc_ProviderID c \<and> fs_LocationID s = fc_LocationID c) new"
  shows "coll_inv db'"
proof -
  have fk: "fs_ForecastCollectionID s \<noteq> fc_ID c" if "s \<in> set (cd_snapshots db)" for s
    using inv fresh that unfolding coll_inv_def list_all_iff by (metis imageI)
  then have "filter (\<lambda>s. fs_ForecastCollectionID s = fc_ID c) (cd_snapshots db) = []" by (simp add: filter_empty_conv)
  moreover have "filter (\<lambda>s. fs_ForecastCollectionID s = fc_ID c) new = new" using own by (simp add: list_all_iff filter_id_conv)
  moreover have "filter (\<lambda>s. fs_ForecastCollectionID s = fc_ID d) new = []" if "d \<in> set (cd_collections db)" for d
    using own fresh that by (auto simp: list_all_iff filter_empty_conv)
  moreover have "dedup_key c \<notin> dedup_key ` {r \<in> set (cd_collections db). Successful (fc_Status r)}" if "Successful (fc_Status c)"
  proof
    assume "dedup_key c \<in> dedup_key ` {r \<in> set (cd_collections db). Successful (fc_Status r)}"
    then obtain r where r: "r \<in> set (cd_collections db)" "Successful (fc_Status r)" "dedup_key r = dedup_key c" by auto
    then have "fc_ID r \<noteq> fc_ID c" using fresh by (metis imageI)
    with r ok(3) that show False unfolding dedup_clash_def by blast
  qed
  ultimately show ?thesis
    using inv ok(1,2) new own fresh unfolding coll_inv_def cols snaps by (auto simp: list_all_iff snaps_ok_def)
qed

definition coll_grows :: "coll_db \<Rightarrow> coll_db \<Rightarrow> bool" where
  "coll_grows db db' \<longleftrightarrow> (\<exists>cs ss. appended db cs ss db')"

lemma coll_inv_cong:
  "cd_collections db' = cd_collections db \<Longrightarrow> cd_snapshots db' = cd_snapshots db \<Longrightarrow> coll_inv db' = coll_inv db"
  by (simp add: coll_inv_def)

lemma coll_grows_refl: "cd_collections db' = cd_collections db \<Longrightarrow> cd_snapshots db' = cd_snapshots db \<Longrightarrow> coll_grows db db'"
  by (simp add: coll_grows_def appended_def)

lemma coll_grows_trans: "coll_grows db db1 \<Longrightarrow> coll_grows db1 db2 \<Longrightarrow> coll_grows db db2"
  by (auto simp: coll_grows_def appended_def)

lemma side_effects [simp]:
  "cd_collections (SnapRepo_EnsurePartitions ms db) = cd_collections db" "cd_snapshots (SnapRepo_EnsurePartitions ms db) = cd_snapshots db"
  "cd_collections (collect_audit env inp c db) = cd_collections db" "cd_snapshots (collect_audit env inp c db) = cd_snapshots db"
  "cd_collections (replay_audit env actor p o1 c db) = cd_collections db" "cd_snapshots (replay_audit env actor p o1 c db) = cd_snapshots db"
  by (simp_all add: SnapRepo_EnsurePartitions_def collect_audit_def replay_audit_def audit_record_def)

lemma write_payload_tables:
  "write_payload dir env key result db = (b, db') \<Longrightarrow> cd_collections db' = cd_collections db \<and> cd_snapshots db' = cd_snapshots db"
  by (auto simp: write_payload_def split: if_splits prod.splits)

lemma circuit_outcome_tables:
  "circuit_outcome p st oc t db = (tr, db') \<Longrightarrow> cd_collections db' = cd_collections db \<and> cd_snapshots db' = cd_snapshots db"
  by (auto simp: circuit_outcome_def split: if_splits prod.splits)

lemma pending_status [simp]:
  "fc_Status (pending_collection env inp t result key) = StatusPending" "fc_Status (replay_collection env orig result) = StatusPending"
  by (simp_all add: pending_collection_def replay_collection_def)

lemma coll_classify_terminal: "coll_classify result b = (st, e, m) \<Longrightarrow> Terminal st"
  by (auto simp: coll_classify_def Let_def Terminal_def split: Outcome.splits)

lemma store_tx_inv:
  assumes "store_tx env coll result sn status e m db = (Inr (coll', stored), db')" "fc_Status coll = StatusPending" "Terminal status" "coll_inv db"
  shows "coll_inv db' \<and> coll_grows db db'"
proof -
  obtain new where n: "db' = db\<lparr>cd_collections := cd_collections db @ [coll'], cd_snapshots := cd_snapshots db @ new\<rparr>"
    "coll' = terminal_collection coll result stored status e m (cv_completedAt env)" "length new = stored"
    "fc_ID coll \<notin> fc_ID ` set (cd_collections db)" "coll_checks coll'" "\<not> dedup_clash coll' (cd_collections db)"
    "list_all (\<lambda>s. fs_ForecastCollectionID s = fc_ID coll \<and> fs_ProviderID s = fc_ProviderID coll \<and> fs_LocationID s = fc_LocationID coll) new"
    "snaps_ok (cd_snapshots db) new"
    using store_tx_ok [OF assms(1,2)] by blast
  have "coll_inv db'"
    by (rule commit_inv [OF assms(4), of _ coll' new]) (use n assms(3) in \<open>simp_all\<close>)
  moreover have "coll_grows db db'" using n(1) by (auto simp: coll_grows_def appended_def)
  ultimately show ?thesis ..
qed

lemma storeDeduplicated_inv:
  assumes "coll_inv db"
  shows "coll_inv (snd (storeDeduplicated env inp t result db)) \<and> coll_grows db (snd (storeDeduplicated env inp t result db))"
proof -
  let ?c = "dedup_collection env inp t result"
  obtain r db' where i: "CollRepo_Insert ?c db = (r, db')" by fastforce
  show ?thesis
  proof (cases r)
    case (Inl e)
    with i have "db' = db" by (auto simp: CollRepo_Insert_def split: if_splits)
    then show ?thesis using i Inl assms by (simp add: storeDeduplicated_def Let_def coll_grows_refl)
  next
    case (Inr u)
    with i have d: "db' = db\<lparr>cd_collections := cd_collections db @ [?c]\<rparr>" "coll_checks ?c" "fc_ID ?c \<notin> fc_ID ` set (cd_collections db)"
      "\<not> dedup_clash ?c (cd_collections db)" by (auto simp: CollRepo_Insert_def split: if_splits)
    have "coll_inv db'"
      by (rule commit_inv [OF assms, of _ ?c "[]"]) (use d in \<open>simp_all add: snaps_ok_def dedup_collection_def Terminal_def\<close>)
    moreover have "coll_grows db db'" using d(1) by (auto simp: coll_grows_def appended_def)
    ultimately show ?thesis using i Inr by (simp add: storeDeduplicated_def Let_def)
  qed
qed

lemma collect_store_inv:
  assumes "coll_inv db"
  shows "coll_inv (snd (collect_store dir env inp t result db)) \<and> coll_grows db (snd (collect_store dir env inp t result db))"
proof -
  define key where "key = BuildPayloadKey uuid_string (pr_Slug (in_Provider inp)) (cv_now env) (cv_fresh env)"
  obtain b db1 where w: "write_payload dir env key result db = (b, db1)" by fastforce
  obtain st e m where cl: "coll_classify result b = (st, e, m)" using prod_cases3 by blast
  define db2 where "db2 = (if Successful st \<and> fr_Snapshots result \<noteq> [] then SnapRepo_EnsurePartitions (monthStarts (fr_Snapshots result)) db1 else db1)"
  define coll where "coll = pending_collection env inp t result (if b \<and> fr_RawPayload result \<noteq> [] then key else [])"
  obtain r db3 where tx: "Run (collect_tx env inp coll result st e m) db2 = (r, db3)" by fastforce
  have t2: "cd_collections db2 = cd_collections db" "cd_snapshots db2 = cd_snapshots db"
    using write_payload_tables [OF w] by (simp_all add: db2_def)
  have i2: "coll_inv db2" "coll_grows db db2" using coll_inv_cong [OF t2] coll_grows_refl [OF t2] assms by simp_all
  have eq: "collect_store dir env inp t result db = (case (r, db3) of
      (Inl e, db3) \<Rightarrow> (if e = ErrDuplicateCollection then storeDeduplicated env inp t result db3 else ((Inl e, []), db3))
    | (Inr (coll', stored, tr), db3) \<Rightarrow> ((Inr coll', coll_events env inp coll' stored tr), collect_audit env inp coll' db3))"
    unfolding collect_store_def Let_def key_def [symmetric] w prod.case cl db2_def [symmetric] coll_def [symmetric] tx ..
  show ?thesis
  proof (cases r)
    case (Inl err)
    then have "db3 = db2" using Run_cases [OF tx] by auto
    then show ?thesis using i2 storeDeduplicated_inv [OF i2(1)] coll_grows_trans [OF i2(2)] unfolding eq Inl by auto
  next
    case (Inr x)
    obtain coll' stored tr where x: "x = (coll', stored, tr)" using prod_cases3 by blast
    then have "collect_tx env inp coll result st e m db2 = (Inr (coll', stored, tr), db3)" using Run_cases [OF tx] Inr by auto
    then obtain dbs where s: "store_tx env coll result (Successful st \<and> fr_Snapshots result \<noteq> []) st e m db2 = (Inr (coll', stored), dbs)"
      and c: "circuit_outcome (pr_ID (in_Provider inp)) st (fr_Outcome result) (cv_completedAt env) dbs = (tr, db3)"
      by (auto simp: collect_tx_def split: prod.splits sum.splits)
    have "coll_inv dbs \<and> coll_grows db2 dbs"
      by (rule store_tx_inv [OF s _ coll_classify_terminal [OF cl] i2(1)]) (simp add: coll_def)
    moreover have t4: "cd_collections (collect_audit env inp coll' db3) = cd_collections dbs" "cd_snapshots (collect_audit env inp coll' db3) = cd_snapshots dbs"
      using circuit_outcome_tables [OF c] by simp_all
    ultimately show ?thesis using coll_inv_cong [OF t4] coll_grows_refl [OF t4] coll_grows_trans i2(2) unfolding eq Inr x
      by (simp, blast)
  qed
qed
lemma replay_store_inv:
  assumes "coll_inv db"
  shows "coll_inv (snd (replay_store env actor p orig result db)) \<and> coll_grows db (snd (replay_store env actor p orig result db))"
proof -
  obtain st e m where cl: "coll_classify result True = (st, e, m)" using prod_cases3 by blast
  define sn where "sn = (Successful st \<and> fr_Snapshots result \<noteq> [])"
  define st' where "st' = (if \<not> Successful st then st else StatusDeduplicated)"
  define db1 where "db1 = (if sn then SnapRepo_EnsurePartitions (monthStarts (fr_Snapshots result)) db else db)"
  obtain r db2 where tx: "Run (store_tx env (replay_collection env orig result) result sn st' e m) db1 = (r, db2)" by fastforce
  have t1: "cd_collections db1 = cd_collections db" "cd_snapshots db1 = cd_snapshots db" by (simp_all add: db1_def)
  have i1: "coll_inv db1" "coll_grows db db1" using coll_inv_cong [OF t1] coll_grows_refl [OF t1] assms by simp_all
  have eq: "snd (replay_store env actor p orig result db) = (case r of Inl e \<Rightarrow> db2 | Inr (coll', stored) \<Rightarrow> replay_audit env actor p orig coll' db2)"
    unfolding replay_store_def cl prod.case Let_def sn_def [symmetric] st'_def [symmetric] db1_def [symmetric] tx
    by (auto split: sum.splits prod.splits)
  show ?thesis
  proof (cases r)
    case (Inl err)
    then have "db2 = db1" using Run_cases [OF tx] by auto
    then show ?thesis using i1 by (simp add: eq Inl)
  next
    case (Inr x)
    obtain coll' stored where x: "x = (coll', stored)" by fastforce
    then have s: "store_tx env (replay_collection env orig result) result sn st' e m db1 = (Inr (coll', stored), db2)"
      using Run_cases [OF tx] Inr by auto
    have "Terminal st'" using coll_classify_terminal [OF cl] by (simp add: st'_def Terminal_def)
    from store_tx_inv [OF s _ this i1(1)] have "coll_inv db2" "coll_grows db1 db2" by simp_all
    moreover have t2: "cd_collections (replay_audit env actor p orig coll' db2) = cd_collections db2"
      "cd_snapshots (replay_audit env actor p orig coll' db2) = cd_snapshots db2" by simp_all
    ultimately show ?thesis unfolding eq Inr x sum.case prod.case
      using coll_inv_cong [OF t2] coll_grows_trans [OF coll_grows_trans [OF i1(2)] coll_grows_refl [OF t2]] by blast
  qed
qed

text \<open>
  What the workers, the trigger and the replay endpoint do to the tables, one database call or transaction at a time,
  in any interleaving: the lookup of a duplicate and the transaction of a collection are separate steps.
\<close>

inductive coll_step :: "coll_db \<Rightarrow> coll_db \<Rightarrow> bool" where
  admit: "coll_step db (snd (collect_admit adapters now inp db))"
| duplicate: "coll_step db (snd (storeDeduplicated env inp issuedAt result db))"
| store: "coll_step db (snd (collect_store dir env inp issuedAt result db))"
| quarantine: "coll_step db (db\<lparr>cd_disk := snd (Quarantine dir now key (cd_disk db))\<rparr>)"
| replay: "coll_step db (snd (replay_store env actor provider orig result db))"

lemma coll_step_inv: "coll_step db db' \<Longrightarrow> coll_inv db \<Longrightarrow> coll_inv db' \<and> coll_grows db db'"
proof (induction rule: coll_step.induct)
  case (admit db adapters now inp)
  have "cd_collections (snd (collect_admit adapters now inp db)) = cd_collections db" "cd_snapshots (snd (collect_admit adapters now inp db)) = cd_snapshots db"
    by (auto simp: collect_admit_def split: option.splits prod.splits)
  then show ?case using admit coll_inv_cong coll_grows_refl by blast
next
  case (quarantine db dir now key)
  then show ?case by (simp add: coll_inv_def coll_grows_def appended_def)
qed (simp_all add: storeDeduplicated_inv collect_store_inv replay_store_inv)

lemma coll_steps_inv: "coll_step\<^sup>*\<^sup>* db db' \<Longrightarrow> coll_inv db \<Longrightarrow> coll_inv db' \<and> coll_grows db db'"
proof (induction rule: rtranclp_induct)
  case base
  then show ?case by (simp add: coll_grows_refl)
next
  case (step db1 db2)
  then show ?case using coll_step_inv coll_grows_trans by blast
qed

text \<open>The handlers are made of these steps.\<close>

lemma Collect_steps: "coll_step\<^sup>*\<^sup>* db (snd (Collect adapters cred dir env inp db))"
proof -
  obtain r db1 where a: "collect_admit adapters (cv_now env) inp db = (r, db1)" by fastforce
  have s1: "coll_step db db1" using coll_step.admit [of db adapters "cv_now env" inp] a by simp
  have s2: "coll_step db1 (snd (collect_record dir env inp t result db1))" for t result
    unfolding collect_record_def using coll_step.duplicate coll_step.store by simp
  have s3: "coll_step\<^sup>*\<^sup>* db (snd (collect_record dir env inp t result db1))" for t result
    using s1 s2 by (meson r_into_rtranclp rtranclp.rtrancl_into_rtrancl)
  show ?thesis
  proof (cases r)
    case (Inr x)
    obtain fetch t where "x = (fetch, t)" by fastforce
    then show ?thesis using a Inr s1 s3 by (auto simp: Collect_def split: sum.splits)
  qed (use a s1 in \<open>auto simp: Collect_def\<close>)
qed

lemma Replay_steps: "coll_step\<^sup>*\<^sup>* db (snd (Replay gp adapters dir env actor i db))"
  unfolding Replay_def by (auto split: sum.splits option.splits intro: coll_step.quarantine coll_step.replay)

section \<open>Completion of a run\<close>

text \<open>What the service relies on in a result: the counts add up, the rows pass the checks of the table, and their
  identifiers are new.\<close>

definition result_ok :: "ForecastResult \<Rightarrow> bool" where
  "result_ok r \<longleftrightarrow> (usable r \<longrightarrow> fr_RecordsReceived r = int (length (fr_Snapshots r)) + fr_InvalidCount r) \<and>
     list_all snapshot_checks (fr_Snapshots r)"

definition ids_fresh :: "ForecastSnapshot list \<Rightarrow> coll_db \<Rightarrow> bool" where
  "ids_fresh ss db \<longleftrightarrow> distinct (map fs_ID ss) \<and> fs_ID ` set ss \<inter> fs_ID ` set (cd_snapshots db) = {}"

lemma SnapRepo_InsertBatch_commits:
  assumes "list_all snapshot_checks ss" "ids_fresh ss db" "(\<lambda>s. month_start (fs_TargetTime s)) ` set ss \<subseteq> set (cd_partitions db)"
  shows "\<exists>n db'. SnapRepo_InsertBatch created ss db = (Inr n, db')"
  using assms
proof (induction ss arbitrary: db)
  case (Cons s ss)
  let ?db = "db\<lparr>cd_snapshots := cd_snapshots db @ [s\<lparr>fs_CreatedAt := created\<rparr>]\<rparr>"
  have "ids_fresh ss db" "ids_fresh ss ?db" using Cons.prems(2) by (auto simp: ids_fresh_def)
  then obtain n db' m db'' where "SnapRepo_InsertBatch created ss db = (Inr n, db')" "SnapRepo_InsertBatch created ss ?db = (Inr m, db'')"
    using Cons.IH [of db] Cons.IH [of ?db] Cons.prems by auto
  moreover have "\<not> (\<exists>q \<in> set (cd_snapshots db). fs_ID q = fs_ID s \<and> fs_TargetTime q = fs_TargetTime s)"
  proof -
    have "fs_ID s \<notin> fs_ID ` set (cd_snapshots db)" using Cons.prems(2) by (simp add: ids_fresh_def)
    then show ?thesis by (metis imageI)
  qed
  ultimately show ?case using Cons.prems by auto
qed simp

lemma own_snapshot_simps [simp]:
  "fs_ID (own_snapshot c s) = fs_ID s" "fs_TargetTime (own_snapshot c s) = fs_TargetTime s" "snapshot_checks (own_snapshot c s) = snapshot_checks s"
  "fs_IssuedAt (own_snapshot c s) = fs_IssuedAt s"
  by (simp_all add: own_snapshot_def snapshot_checks_def)

lemma partitions_ensured:
  "set (cd_partitions (SnapRepo_EnsurePartitions (monthStarts ss) db)) = set (cd_partitions db) \<union> (\<lambda>s. month_start (fs_TargetTime s)) ` set ss"
proof -
  have "set (foldl (\<lambda>ps m. List.insert m ps) ps ms) = set ps \<union> set ms" for ps ms :: "instant list"
    by (induction ms arbitrary: ps) auto
  then show ?thesis by (simp add: SnapRepo_EnsurePartitions_def monthStarts_def)
qed

lemma store_tx_commits:
  assumes st: "fc_Status coll = StatusPending" "fc_CompletedAt coll = None" and fresh: "fc_ID coll \<notin> fc_ID ` set (cd_collections db)"
    and time: "fc_RequestedAt coll \<le> cv_completedAt env"
    and res: "Successful status \<longrightarrow> fr_RecordsReceived result = int (length (fr_Snapshots result)) + fr_InvalidCount result"
    and clash: "Successful status \<longrightarrow> \<not> (\<exists>r \<in> set (cd_collections db). Successful (fc_Status r) \<and> dedup_key r = dedup_key coll)"
    and snaps: "sn \<longrightarrow> list_all snapshot_checks (fr_Snapshots result) \<and> ids_fresh (fr_Snapshots result) db \<and>
      (\<lambda>s. month_start (fs_TargetTime s)) ` set (fr_Snapshots result) \<subseteq> set (cd_partitions db)"
    and trm: "Terminal status"
  shows "\<exists>coll' stored db'. store_tx env coll result sn status e m db = (Inr (coll', stored), db')"
proof -
  let ?db1 = "db\<lparr>cd_collections := cd_collections db @ [coll]\<rparr>" and ?ss = "map (own_snapshot coll) (fr_Snapshots result)"
  have nid: "\<not> (\<exists>r \<in> set (cd_collections db). fc_ID r = fc_ID coll)" using fresh by (metis image_eqI)
  have "coll_checks coll" using st by (simp add: coll_checks_def Successful_def)
  moreover have "\<not> dedup_clash coll (cd_collections db)" using st by (simp add: dedup_clash_def Successful_def)
  ultimately have ins: "CollRepo_Insert coll db = (Inr (), ?db1)" using nid by (auto simp: CollRepo_Insert_def)
  obtain n db2 where b: "(if sn then SnapRepo_InsertBatch (cv_wall env) ?ss ?db1 else (Inr 0, ?db1)) = (Inr n, db2)"
    and c2: "cd_collections db2 = cd_collections db @ [coll]"
  proof (cases sn)
    case True
    have "ids_fresh ?ss ?db1" using snaps True by (auto simp: ids_fresh_def comp_def)
    moreover have "list_all snapshot_checks ?ss" using snaps True by (simp add: list_all_iff)
    moreover have "(\<lambda>s. month_start (fs_TargetTime s)) ` set ?ss \<subseteq> set (cd_partitions ?db1)" using snaps True by auto
    ultimately obtain n db2 where "SnapRepo_InsertBatch (cv_wall env) ?ss ?db1 = (Inr n, db2)" using SnapRepo_InsertBatch_commits by blast
    then show thesis using that SnapRepo_InsertBatch_ok True by fastforce
  qed (use that in auto)
  let ?t = "terminal_collection coll result n status e m (cv_completedAt env)"
  have "coll_checks ?t" using time res trm by (auto simp: coll_checks_def terminal_collection_def AccountingHolds_def Terminal_def)
  moreover have "\<not> dedup_clash ?t (cd_collections db2)" using clash st by (auto simp: dedup_clash_def c2 Successful_def)
  moreover have "find (\<lambda>r. fc_ID r = fc_ID coll) (cd_collections db2) = Some coll" unfolding c2 using find_appended [OF nid] by simp
  ultimately have "\<exists>db3. CollRepo_Complete ?t db2 = (Inr (), db3)" using st by (simp add: CollRepo_Complete_def)
  then show ?thesis unfolding store_tx_def ins prod.case sum.case b Let_def by auto
qed
lemma coll_classify_status: "fst (coll_classify result b) = fst (coll_classify result True)"
  by (simp add: coll_classify_def Let_def split: Outcome.split)

lemma coll_classify_successful: "Successful (fst (coll_classify result b)) = usable result"
  by (simp add: coll_classify_def Let_def usable_def Successful_def split: Outcome.split)

lemma write_payload_frame:
  "write_payload dir env key result db = (b, db') \<Longrightarrow> db' = db\<lparr>cd_disk := cd_disk db'\<rparr>"
  by (auto simp: write_payload_def split: if_splits prod.splits)

lemma circuit_outcome_eq:
  "circuit_outcome p st oc t db = (fst (circuit_outcome p st oc t db), db\<lparr>cd_circuits := cd_circuits (snd (circuit_outcome p st oc t db))\<rparr>)"
  by (auto simp: circuit_outcome_def split: prod.splits)

definition circuit_after :: "uuid \<Rightarrow> instant \<Rightarrow> ForecastResult \<Rightarrow> circuits \<Rightarrow> circuits" where
  "circuit_after p t result cs =
     (if usable result then snd (RecordSuccess p t cs)
      else if fr_Outcome result = OutcomeFailed \<or> fr_Outcome result = OutcomeTimeout then snd (RecordFailure p t cs) else cs)"

lemma circuit_outcome_after:
  "cd_circuits (snd (circuit_outcome p (fst (coll_classify result b)) (fr_Outcome result) t db)) = circuit_after p t result (cd_circuits db)"
  by (simp add: circuit_outcome_def circuit_after_def coll_classify_successful split: prod.split)

lemma collect_store_commits:
  assumes fresh: "cv_fresh env \<notin> fc_ID ` set (cd_collections db)" and time: "t \<le> cv_completedAt env"
    and res: "result_ok result" "ids_fresh (fr_Snapshots result) db"
    and key: "usable result \<longrightarrow> FindDedup (pr_ID (in_Provider inp)) (lo_ID (in_Location inp)) (dedup_time t result) db = None"
    and pk_def: "pk = BuildPayloadKey uuid_string (pr_Slug (in_Provider inp)) (cv_now env) (cv_fresh env)"
  shows "\<exists>c evs db'. collect_store dir env inp t result db = ((Inr c, evs), db') \<and> cd_collections db' = cd_collections db @ [c] \<and>
    fc_Status c = fst (coll_classify result True) \<and> dedup_key c = (pr_ID (in_Provider inp), lo_ID (in_Location inp), dedup_time t result) \<and>
    (usable result \<longrightarrow> snap_key ` set (map (own_snapshot c) (fr_Snapshots result)) \<subseteq> snap_key ` set (cd_snapshots db')) \<and>
    cd_circuits db' = circuit_after (pr_ID (in_Provider inp)) (cv_completedAt env) result (cd_circuits db) \<and>
    fc_ID c = cv_fresh env \<and> fc_RequestedAt c = t \<and> fc_ProviderID c = pr_ID (in_Provider inp) \<and> fc_LocationID c = lo_ID (in_Location inp) \<and>
    fc_RawPayloadChecksum c = fr_Checksum result \<and>
    fc_RawPayloadObjectKey c = (if fst (write_payload dir env pk result db) \<and> fr_RawPayload result \<noteq> [] then pk else []) \<and>
    cd_disk db' = cd_disk (snd (write_payload dir env pk result db))"
proof -
  obtain b db1 where w: "write_payload dir env pk result db = (b, db1)" by fastforce
  obtain st e m where cl: "coll_classify result b = (st, e, m)" using prod_cases3 by blast
  have st: "st = fst (coll_classify result True)" "Successful st = usable result"
    using coll_classify_status [of result b] coll_classify_successful [of result b] cl by simp_all
  define sn where "sn = (Successful st \<and> fr_Snapshots result \<noteq> [])"
  define db2 where "db2 = (if sn then SnapRepo_EnsurePartitions (monthStarts (fr_Snapshots result)) db1 else db1)"
  define coll where "coll = pending_collection env inp t result (if b \<and> fr_RawPayload result \<noteq> [] then pk else [])"
  have t2: "cd_collections db2 = cd_collections db" "cd_snapshots db2 = cd_snapshots db" "cd_circuits db2 = cd_circuits db"
      "cd_disk db2 = cd_disk db1"
    using write_payload_frame [OF w] by (simp_all add: db2_def SnapRepo_EnsurePartitions_def, (metis coll_db.select_convs coll_db.surjective coll_db.update_convs)+)
  have part: "sn \<longrightarrow> (\<lambda>s. month_start (fs_TargetTime s)) ` set (fr_Snapshots result) \<subseteq> set (cd_partitions db2)"
    by (simp add: db2_def partitions_ensured)
  have dk: "dedup_key coll = (pr_ID (in_Provider inp), lo_ID (in_Location inp), dedup_time t result)"
    by (simp add: coll_def pending_collection_def dedup_key_def dedup_time_def split: option.split)
  have "\<exists>coll' stored db'. store_tx env coll result sn st e m db2 = (Inr (coll', stored), db')"
  proof (rule store_tx_commits)
    show "Successful st \<longrightarrow> \<not> (\<exists>r \<in> set (cd_collections db2). Successful (fc_Status r) \<and> dedup_key r = dedup_key coll)"
      using key by (auto simp: st(2) t2 dk FindDedup_def find_None_iff)
    show "sn \<longrightarrow> list_all snapshot_checks (fr_Snapshots result) \<and> ids_fresh (fr_Snapshots result) db2 \<and>
        (\<lambda>s. month_start (fs_TargetTime s)) ` set (fr_Snapshots result) \<subseteq> set (cd_partitions db2)"
      using res part by (simp add: result_ok_def ids_fresh_def t2)
    show "Terminal st" using coll_classify_terminal [OF cl] .
  qed (use fresh time res st in \<open>simp_all add: coll_def pending_collection_def t2 result_ok_def\<close>)
  then obtain c stored db3 where s: "store_tx env coll result sn st e m db2 = (Inr (c, stored), db3)" by blast
  note ok = store_tx_ok [OF s, unfolded coll_def, OF pending_status(1), folded coll_def]
  from ok have c: "c = terminal_collection coll result stored st e m (cv_completedAt env)" "cd_collections db3 = cd_collections db @ [c]"
      "cd_circuits db3 = cd_circuits db" "cd_disk db3 = cd_disk db1" "sn \<longrightarrow> snap_key ` set (map (own_snapshot coll) (fr_Snapshots result)) \<subseteq> snap_key ` set (cd_snapshots db3)"
    using t2 by auto
  define db4 where "db4 = db3\<lparr>cd_circuits := circuit_after (pr_ID (in_Provider inp)) (cv_completedAt env) result (cd_circuits db)\<rparr>"
  note after = circuit_outcome_after [of "pr_ID (in_Provider inp)" result b "cv_completedAt env" db3, unfolded cl fst_conv c(3)]
  from circuit_outcome_eq [of "pr_ID (in_Provider inp)" st "fr_Outcome result" "cv_completedAt env" db3, unfolded after, folded db4_def]
  obtain tr where "circuit_outcome (pr_ID (in_Provider inp)) st (fr_Outcome result) (cv_completedAt env) db3 = (tr, db4)" by blast
  then have "collect_tx env inp coll result st e m db2 = (Inr (c, stored, tr), db4)"
    by (simp add: collect_tx_def sn_def [symmetric] s)
  then have "Run (collect_tx env inp coll result st e m) db2 = (Inr (c, stored, tr), db4)" by (simp add: Run_def)
  then have eq: "collect_store dir env inp t result db = ((Inr c, coll_events env inp c stored tr), collect_audit env inp c db4)"
    unfolding collect_store_def Let_def pk_def [symmetric] w prod.case cl sn_def [symmetric] db2_def [symmetric] coll_def [symmetric] by simp
  have own: "own_snapshot c = own_snapshot coll" by (simp add: c(1) own_snapshot_def fun_eq_iff)
  have ca: "cd_circuits (collect_audit env inp c' d) = cd_circuits d" "cd_disk (collect_audit env inp c' d) = cd_disk d" for c' d
    by (simp_all add: collect_audit_def audit_record_def)
  have flds: "fc_ID coll = cv_fresh env" "fc_RequestedAt coll = t" "fc_ProviderID coll = pr_ID (in_Provider inp)" "fc_LocationID coll = lo_ID (in_Location inp)"
    "fc_RawPayloadChecksum coll = fr_Checksum result" "fc_RawPayloadObjectKey coll = (if b \<and> fr_RawPayload result \<noteq> [] then pk else [])"
    by (simp_all add: coll_def pending_collection_def)
  show ?thesis
  proof (intro exI conjI)
    show "collect_store dir env inp t result db = ((Inr c, coll_events env inp c stored tr), collect_audit env inp c db4)" by (rule eq)
    show "usable result \<longrightarrow> snap_key ` set (map (own_snapshot c) (fr_Snapshots result)) \<subseteq> snap_key ` set (cd_snapshots (collect_audit env inp c db4))"
      using c(5) by (cases "fr_Snapshots result = []") (simp_all add: own db4_def sn_def st(2))
  qed (simp_all add: c(1,2,4) st(1) dk ca db4_def flds w, simp_all add: terminal_collection_def flds)
qed

lemma storeDeduplicated_commits:
  assumes "cv_fresh env \<notin> fc_ID ` set (cd_collections db)" "t \<le> cv_dedupAt env"
  shows "storeDeduplicated env inp t result db =
    ((Inr (dedup_collection env inp t result), [ForecastCollected (cv_fresh env) (pr_ID (in_Provider inp)) (lo_ID (in_Location inp)) 0
        (CollectionStatus_str StatusDeduplicated) (cv_dedupAt env)]),
     db\<lparr>cd_collections := cd_collections db @ [dedup_collection env inp t result]\<rparr>)"
proof -
  let ?c = "dedup_collection env inp t result"
  have "coll_checks ?c" "\<not> dedup_clash ?c (cd_collections db)"
    using assms(2) by (simp_all add: dedup_collection_def coll_checks_def dedup_clash_def Successful_def)
  moreover have "\<not> (\<exists>r \<in> set (cd_collections db). fc_ID r = fc_ID ?c)" using assms(1) by (simp add: dedup_collection_def) (metis imageI)
  ultimately show ?thesis by (simp add: storeDeduplicated_def CollRepo_Insert_def Let_def) (simp add: dedup_collection_def)
qed

lemma issued_at_le: "issued_at now \<le> now"
  using Truncate_Hour_le [of now] by (simp add: issued_at_def)

section \<open>Sample data\<close>

definition sample_provider :: Provider where
  "sample_provider = \<lparr>pr_ID = 3, pr_Name = ''Open-Meteo'', pr_Slug = ''open-meteo'', pr_APIBaseURL = ''https://api.open-meteo.com'',
     pr_Status = StatusActive, pr_AttributionText = ''a'', pr_AttributionURL = [], pr_CreatedAt = 0, pr_UpdatedAt = 0\<rparr>"

definition sample_input_coll :: CollectInput where
  "sample_input_coll = \<lparr>in_Provider = sample_provider, in_Location = loc_a\<lparr>lo_Status := StatusActive\<rparr>, in_Config = \<lparr>pc_ID = 5, pc_WorkspaceID = 1, pc_ProviderID = 3,
     pc_Status = StatusActive, pc_CredentialRef = [], pc_CollectionSchedule = DefaultSchedule, pc_AdapterVersion = ''1'', pc_ValidationState = ''ok'',
     pc_CreatedAt = 0, pc_UpdatedAt = 0\<rparr>, in_Actor = \<lparr>ac_UserID = None, ac_Name = ''ops'', ac_IPAddress = []\<rparr>, in_Source = SourceManual\<rparr>"

definition sample_env :: "uuid \<Rightarrow> collect_env" where
  "sample_env i = \<lparr>cv_now = 0, cv_completedAt = 5, cv_dedupAt = 5, cv_publishedAt = 6, cv_wall = 6, cv_fresh = i, cv_disk = DiskOK\<rparr>"

definition sample_result :: ForecastResult where
  "sample_result = \<lparr>fr_RawPayload = ''{}'', fr_Checksum = Checksum ''{}'', fr_HTTPStatusCode = 200, fr_LatencyMS = 1, fr_ProviderRequestID = [],
     fr_ModelRunTime = None, fr_SchemaVersion = ''v1'', fr_AdapterVersion = ''1'', fr_IssuedAt = - Hour,
     fr_Snapshots = [\<lparr>fs_ID = 21, fs_ForecastCollectionID = 0, fs_ProviderID = 0, fs_LocationID = 0, fs_IssuedAt = - Hour, fs_TargetTime = 0,
        fs_ForecastHorizonMinutes = 60, fs_TemperatureC = Some 18, fs_FeelsLikeTemperatureC = None, fs_PrecipitationProbability = None,
        fs_PrecipitationAmountMM = None, fs_HumidityPct = None, fs_WindSpeedMS = None, fs_WindDirectionDeg = None, fs_PressureHPa = None,
        fs_CloudCoverPct = None, fs_ProviderConditionCode = [], fs_CanonicalConditionCode = [], fs_ConditionTaxonomyVersion = ''v1'', fs_CreatedAt = 0\<rparr>],
     fr_RecordsReceived = 1, fr_InvalidCount = 0, fr_InvalidReasons = [], fr_UnmappedConditions = [], fr_RateLimit = None,
     fr_Outcome = OutcomeSuccess, fr_ErrorCode = [], fr_Err = None\<rparr>"

definition empty_coll :: coll_db where
  "empty_coll = \<lparr>cd_collections = [], cd_snapshots = [], cd_partitions = [], cd_circuits = Map.empty, cd_disk = Map.empty, cd_audit = []\<rparr>"

lemma empty_coll_inv: "coll_inv empty_coll"
  by (simp add: coll_inv_def empty_coll_def)


section \<open>Correctness of forecast collection\<close>

text \<open>C3. In every interleaving of collections, recorded duplicates and replays, from a consistent state: no collection stays pending,
  identifiers are unique, at most one successful collection exists per provider, location and issuance, every stored snapshot
  belongs to a collection of the same provider and location and is stored once, the count a collection reports is the
  number of its snapshots, and no row is ever changed or removed.\<close>

theorem collections_stay_consistent:
  assumes "coll_inv db0" "coll_step\<^sup>*\<^sup>* db0 db" "coll_step\<^sup>*\<^sup>* db db'"
  shows "coll_inv db' \<and> (\<exists>cs ss. cd_collections db' = cd_collections db @ cs \<and> cd_snapshots db' = cd_snapshots db @ ss)"
  using coll_steps_inv [OF assms(3)] coll_steps_inv [OF assms(2,1)] by (auto simp: coll_grows_def appended_def)

theorem collections_stay_consistent_witness:
  "coll_inv (snd (Collect [''open-meteo'' \<mapsto> (\<lambda>_. Inr sample_result)] id ''/data'' (sample_env 11) sample_input_coll empty_coll))"
  using collections_stay_consistent [OF empty_coll_inv _ Collect_steps, OF rtranclp.rtrancl_refl] by blast

text \<open>C9. A collection that is admitted and gets a result always ends in exactly one new row. It is recorded as a duplicate when a successful
  collection with the same key exists, and nothing else changes; otherwise its status is the classified outcome, a usable
  result leaves every snapshot of it in the table, and the circuit records success, failure or nothing by the outcome.\<close>

theorem Collect_completes:
  assumes act: "Active (pr_Status (in_Provider inp))" "Active (lo_Status (in_Location inp))" "Active (pc_Status (in_Config inp))"
    and fetch: "adapters (pr_Slug (in_Provider inp)) = Some fetch" "fetch (forecast_request cred inp (issued_at (cv_now env))) = Inr result"
    and circ: "CircuitService_Evaluate (pr_ID (in_Provider inp)) (cv_now env) (cd_circuits db) = (d, cs)" "Allowed d"
    and res: "result_ok result" "ids_fresh (fr_Snapshots result) db" "cv_fresh env \<notin> fc_ID ` set (cd_collections db)"
    and time: "cv_now env \<le> cv_completedAt env" "cv_now env \<le> cv_dedupAt env"
    and dup: "dup \<longleftrightarrow> usable result \<and> FindDedup (pr_ID (in_Provider inp)) (lo_ID (in_Location inp)) (dedup_time (issued_at (cv_now env)) result) db \<noteq> None"
  shows "\<exists>c evs db'. Collect adapters cred dir env inp db = ((Inr c, evs), db') \<and> cd_collections db' = cd_collections db @ [c] \<and>
    (if dup then fc_Status c = StatusDeduplicated \<and> cd_snapshots db' = cd_snapshots db \<and> cd_circuits db' = cs
     else fc_Status c = fst (coll_classify result True) \<and>
       (usable result \<longrightarrow> snap_key ` set (map (own_snapshot c) (fr_Snapshots result)) \<subseteq> snap_key ` set (cd_snapshots db')) \<and>
       cd_circuits db' = circuit_after (pr_ID (in_Provider inp)) (cv_completedAt env) result cs)"
proof -
  let ?db = "db\<lparr>cd_circuits := cs\<rparr>" and ?t = "issued_at (cv_now env)"
  have e: "Collect adapters cred dir env inp db = collect_record dir env inp ?t result ?db"
    using act circ(2) by (simp add: Collect_def collect_admit_def fetch circ(1))
  have f: "FindDedup p l k ?db = FindDedup p l k db" for p l k by (simp add: FindDedup_def)
  have t: "?t \<le> cv_completedAt env" "?t \<le> cv_dedupAt env" using issued_at_le [of "cv_now env"] time by simp_all
  show ?thesis
  proof (cases dup)
    case True
    then show ?thesis using dup storeDeduplicated_commits [of env ?db ?t inp result] res(3) t
      by (simp add: e collect_record_def f) (simp add: dedup_collection_def)
  next
    case False
    have "ids_fresh (fr_Snapshots result) ?db" using res(2) by (simp add: ids_fresh_def)
    then obtain c evs db' where "collect_store dir env inp ?t result ?db = ((Inr c, evs), db')" "cd_collections db' = cd_collections db @ [c]"
      "fc_Status c = fst (coll_classify result True)"
      "usable result \<longrightarrow> snap_key ` set (map (own_snapshot c) (fr_Snapshots result)) \<subseteq> snap_key ` set (cd_snapshots db')"
      "cd_circuits db' = circuit_after (pr_ID (in_Provider inp)) (cv_completedAt env) result cs"
      using collect_store_commits [of env ?db ?t result inp, OF _ t(1) res(1) _ _ refl, where dir = dir] res(3) False dup by (auto simp: f)
    then show ?thesis using False dup by (auto simp: e collect_record_def f)
  qed
qed

theorem Collect_completes_witness:
  "\<exists>c evs db'. Collect [''open-meteo'' \<mapsto> (\<lambda>_. Inr sample_result)] id ''/data'' (sample_env 11) sample_input_coll empty_coll = ((Inr c, evs), db') \<and>
     fc_Status c = StatusSuccess \<and> cd_collections db' = [c]"
proof -
  let ?a = "[''open-meteo'' \<mapsto> (\<lambda>_. Inr sample_result)] :: string \<rightharpoonup> fetcher"
  obtain d cs where ev: "CircuitService_Evaluate (pr_ID (in_Provider sample_input_coll)) (cv_now (sample_env 11)) (cd_circuits empty_coll) = (d, cs)" "Allowed d"
    by (simp add: ops NewProviderCircuit_def empty_coll_def)
  have ok: "result_ok sample_result" "ids_fresh (fr_Snapshots sample_result) empty_coll" "cv_fresh (sample_env 11) \<notin> fc_ID ` set (cd_collections empty_coll)"
    by (simp_all add: result_ok_def ids_fresh_def sample_result_def empty_coll_def snapshot_checks_def outside_def)
  have in1: "Active (pr_Status (in_Provider sample_input_coll))" "Active (lo_Status (in_Location sample_input_coll))" "Active (pc_Status (in_Config sample_input_coll))"
    "?a (pr_Slug (in_Provider sample_input_coll)) = Some (\<lambda>_. Inr sample_result)"
    by (simp_all add: sample_input_coll_def sample_provider_def loc_a_def Active_def)
  have tm: "cv_now (sample_env 11) \<le> cv_completedAt (sample_env 11)" "cv_now (sample_env 11) \<le> cv_dedupAt (sample_env 11)" by (simp_all add: sample_env_def)
  have "FindDedup p l k empty_coll = None" for p l k by (simp add: FindDedup_def empty_coll_def)
  then have nd: "False \<longleftrightarrow> usable sample_result \<and> FindDedup (pr_ID (in_Provider sample_input_coll)) (lo_ID (in_Location sample_input_coll))
      (dedup_time (issued_at (cv_now (sample_env 11))) sample_result) empty_coll \<noteq> None" by simp
  have "fst (coll_classify sample_result True) = StatusSuccess" by (simp add: coll_classify_def sample_result_def Let_def)
  moreover have "cd_collections empty_coll = []" by (simp add: empty_coll_def)
  ultimately show ?thesis using Collect_completes [where adapters = ?a and inp = sample_input_coll and env = "sample_env 11" and db = empty_coll and fetch = "\<lambda>_. Inr sample_result" and result = sample_result and cred = id and dir = "''/data''", OF in1 refl ev ok tm nd]
    by auto
qed

lemma SnapRepo_InsertBatch_present:
  assumes "list_all snapshot_checks ss" "snap_key ` set ss \<subseteq> snap_key ` set (cd_snapshots db)"
    "(\<lambda>s. month_start (fs_TargetTime s)) ` set ss \<subseteq> set (cd_partitions db)"
  shows "SnapRepo_InsertBatch created ss db = (Inr 0, db)"
  using assms
proof (induction ss)
  case (Cons s ss)
  have "\<exists>q \<in> set (cd_snapshots db). snap_key q = snap_key s" using Cons.prems(2) by auto
  then show ?case using Cons by simp
qed simp

lemma LatestForecast_duplicate:
  assumes "cd_collections db' = cd_collections db @ [c]" "\<not> Successful (fc_Status c)" "cd_snapshots db' = cd_snapshots db"
  shows "LatestForecast p l db' = LatestForecast p l db"
proof -
  have "LatestSuccessful p l db' = LatestSuccessful p l db" using assms by (simp add: LatestSuccessful_def)
  moreover have "ByCollectionID i db' = ByCollectionID i db" for i using assms by (simp add: ByCollectionID_def)
  ultimately show ?thesis by (simp add: LatestForecast_def split: option.split)
qed

text \<open>Replaying a result all of whose snapshots are stored records a duplicate and nothing else.\<close>

lemma replay_store_present:
  assumes fresh: "cv_fresh env \<notin> fc_ID ` set (cd_collections db)" and time: "fc_RequestedAt orig \<le> cv_completedAt env"
    and res: "usable result" "list_all snapshot_checks (fr_Snapshots result)"
    and keys: "snap_key ` set (map (own_snapshot orig) (fr_Snapshots result)) \<subseteq> snap_key ` set (cd_snapshots db)"
  shows "\<exists>c evs db'. replay_store env actor p orig result db = ((Inr c, evs), db') \<and> fc_Status c = StatusDeduplicated \<and>
    fc_SnapshotsStored c = 0 \<and> cd_collections db' = cd_collections db @ [c] \<and> cd_snapshots db' = cd_snapshots db"
proof -
  obtain st e m where cl: "coll_classify result True = (st, e, m)" using prod_cases3 by blast
  have st: "Successful st" using coll_classify_successful [of result True] cl res(1) by simp
  define sn where "sn = (fr_Snapshots result \<noteq> [])"
  define db1 where "db1 = (if sn then SnapRepo_EnsurePartitions (monthStarts (fr_Snapshots result)) db else db)"
  define coll where "coll = replay_collection env orig result"
  let ?t = "terminal_collection coll result 0 StatusDeduplicated e m (cv_completedAt env)"
  let ?db2 = "db1\<lparr>cd_collections := cd_collections db1 @ [coll]\<rparr>"
  have t1: "cd_collections db1 = cd_collections db" "cd_snapshots db1 = cd_snapshots db" by (simp_all add: db1_def)
  have id: "fc_ID coll = cv_fresh env" "fc_RequestedAt coll = fc_RequestedAt orig" "fc_CompletedAt coll = None" "fc_Status coll = StatusPending"
    by (simp_all add: coll_def replay_collection_def)
  have nid: "\<not> (\<exists>r \<in> set (cd_collections db1). fc_ID r = fc_ID coll)" using fresh by (simp add: t1 id) (metis imageI)
  have ins: "CollRepo_Insert coll db1 = (Inr (), ?db2)"
    using nid by (auto simp: CollRepo_Insert_def coll_checks_def dedup_clash_def id Successful_def)
  have key: "snap_key (own_snapshot coll s) = snap_key (own_snapshot orig s)" for s
    by (simp add: snap_key_def own_snapshot_def coll_def replay_collection_def)
  have b: "(if sn then SnapRepo_InsertBatch (cv_wall env) (map (own_snapshot coll) (fr_Snapshots result)) ?db2 else (Inr 0, ?db2)) = (Inr 0, ?db2)"
  proof (cases sn)
    case True
    have "SnapRepo_InsertBatch (cv_wall env) (map (own_snapshot coll) (fr_Snapshots result)) ?db2 = (Inr 0, ?db2)"
    proof (rule SnapRepo_InsertBatch_present)
      show "snap_key ` set (map (own_snapshot coll) (fr_Snapshots result)) \<subseteq> snap_key ` set (cd_snapshots ?db2)"
        using keys by (simp add: image_image key t1)
      show "(\<lambda>s. month_start (fs_TargetTime s)) ` set (map (own_snapshot coll) (fr_Snapshots result)) \<subseteq> set (cd_partitions ?db2)"
        using True by (simp add: db1_def partitions_ensured image_image)
    qed (use res(2) in \<open>simp add: list_all_iff\<close>)
    then show ?thesis by simp
  qed simp
  have "CollRepo_Complete ?t ?db2 = (Inr (), ?db2\<lparr>cd_collections := cd_collections db1 @ [?t]\<rparr>)"
    using find_appended [OF nid] update_where_appended [OF nid, of coll "completed ?t"] time
    by (simp add: CollRepo_Complete_def id coll_checks_def dedup_clash_def Successful_def) (simp add: terminal_collection_def id)
  then have "Run (store_tx env coll result sn StatusDeduplicated e m) db1 = (Inr (?t, 0), ?db2\<lparr>cd_collections := cd_collections db1 @ [?t]\<rparr>)"
    by (simp add: Run_def store_tx_def ins b Let_def)
  then show ?thesis
    by (simp add: replay_store_def cl st sn_def [symmetric] db1_def [symmetric] coll_def [symmetric] Let_def t1)
qed
text \<open>What was collected can be replayed. When a usable result was stored and its payload written, a replay of that collection finds the
  payload, verifies its checksum, and, if the adapter decodes the same periods from it, records one
  duplicate: no snapshot is added and the latest forecast of every provider and location stays what it was.\<close>

theorem Replay_round_trip:
  assumes fresh: "cv_fresh env \<notin> fc_ID ` set (cd_collections db)" and time: "t \<le> cv_completedAt env"
    and res: "result_ok result" "ids_fresh (fr_Snapshots result) db" "usable result" "fr_RawPayload result \<noteq> []"
      "fr_Checksum result = Checksum (fr_RawPayload result)"
    and key: "FindDedup (pr_ID (in_Provider inp)) (lo_ID (in_Location inp)) (dedup_time t result) db = None"
    and store: "cv_disk env = DiskOK" "slug_ok (pr_Slug (in_Provider inp))" "dir \<noteq> ''/''"
    and run: "collect_store dir env inp t result db = ((r, evs), db1)" "r = Inr c"
    and adapter: "getProvider (pr_ID (in_Provider inp)) = Inr p" "adapters (pr_Slug p) = Some (Some decode)"
      "decode (replay_request c p) (fr_RawPayload result) = Inr result2"
    and res2: "usable result2" "list_all snapshot_checks (fr_Snapshots result2)"
      "(\<lambda>s. (fs_IssuedAt s, fs_TargetTime s)) ` set (fr_Snapshots result2) \<subseteq> (\<lambda>s. (fs_IssuedAt s, fs_TargetTime s)) ` set (fr_Snapshots result)"
    and env2: "cv_fresh env2 \<notin> fc_ID ` set (cd_collections db1)" "t \<le> cv_completedAt env2"
  shows "\<exists>c2 evs2 db2. Replay getProvider adapters dir env2 actor (fc_ID c) db1 = ((Inr c2, evs2), db2) \<and> fc_Status c2 = StatusDeduplicated \<and>
    fc_SnapshotsStored c2 = 0 \<and> cd_collections db2 = cd_collections db1 @ [c2] \<and> cd_snapshots db2 = cd_snapshots db1 \<and>
    LatestForecast q l db2 = LatestForecast q l db1"
proof -
  define pk where "pk = BuildPayloadKey uuid_string (pr_Slug (in_Provider inp)) (cv_now env) (cv_fresh env)"
  note rp = resolve_payload_key [OF store(2,3), of "cv_now env" "cv_fresh env", folded pk_def]
  obtain d where d: "store_Write dir DiskOK pk (fr_RawPayload result) (cd_disk db) = (Inr (), d)"
    by (simp add: store_Write_def rp Let_def)
  then have w: "write_payload dir env pk result db = (True, db\<lparr>cd_disk := d\<rparr>)" using res(4) by (simp add: write_payload_def store(1))
  have c: "cd_collections db1 = cd_collections db @ [c]" "fc_ID c = cv_fresh env" "fc_RequestedAt c = t" "fc_ProviderID c = pr_ID (in_Provider inp)"
    "fc_RawPayloadChecksum c = Checksum (fr_RawPayload result)" "fc_RawPayloadObjectKey c = pk" "cd_disk db1 = d"
    "snap_key ` set (map (own_snapshot c) (fr_Snapshots result)) \<subseteq> snap_key ` set (cd_snapshots db1)"
    using collect_store_commits [OF fresh time res(1,2) _ pk_def, where dir = dir] key run res(3-5) by (auto simp: w)
  have get: "CollRepo_GetByID (fc_ID c) db1 = Inr c"
  proof -
    have "\<not> (\<exists>r \<in> set (cd_collections db). fc_ID r = fc_ID c)" using fresh unfolding c(2) by (metis imageI)
    from find_appended [OF this, of c] show ?thesis by (simp add: CollRepo_GetByID_def c(1))
  qed
  have "pk \<noteq> []" by (simp add: pk_def BuildPayloadKey_def PayloadSchemeFile_def)
  moreover have "Checksum (fr_RawPayload result) \<noteq> []" using length_hex_encode [of "Sum256 (fr_RawPayload result)"] length_Sum256 by (auto simp: Checksum_def)
  moreover have "store_Read dir pk d = Inr (fr_RawPayload result)" using fs.read_own [OF d] .
  ultimately have e: "Replay getProvider adapters dir env2 actor (fc_ID c) db1 = replay_store env2 actor p c result2 db1"
    by (simp add: Replay_def get c(4-7) adapter VerifyChecksum_def)
  have "snap_key ` set (map (own_snapshot c) (fr_Snapshots result2)) \<subseteq> snap_key ` set (map (own_snapshot c) (fr_Snapshots result))"
    using res2(3) by (fastforce simp: snap_key_def own_snapshot_def image_iff)
  with c(8) have "snap_key ` set (map (own_snapshot c) (fr_Snapshots result2)) \<subseteq> snap_key ` set (cd_snapshots db1)" by blast
  from replay_store_present [OF env2(1) _ res2(1,2) this, of actor p] env2(2) obtain c2 evs2 db2 where
    f: "replay_store env2 actor p c result2 db1 = ((Inr c2, evs2), db2)" "fc_Status c2 = StatusDeduplicated" "fc_SnapshotsStored c2 = 0"
      "cd_collections db2 = cd_collections db1 @ [c2]" "cd_snapshots db2 = cd_snapshots db1" by (auto simp: c(3))
  moreover have "LatestForecast q l db2 = LatestForecast q l db1"
    by (rule LatestForecast_duplicate [OF f(4) _ f(5)]) (simp add: f(2) Successful_def)
  ultimately show ?thesis unfolding e by blast
qed

theorem Replay_round_trip_witness:
  "\<exists>c2 evs2 db2. Replay (\<lambda>_. Inr sample_provider) [''open-meteo'' \<mapsto> Some (\<lambda>_ _. Inr sample_result)] ''/data'' (sample_env 12)
      (in_Actor sample_input_coll) 11 (snd (collect_store ''/data'' (sample_env 11) sample_input_coll (- Hour) sample_result empty_coll)) =
     ((Inr c2, evs2), db2) \<and> fc_Status c2 = StatusDeduplicated \<and> fc_SnapshotsStored c2 = 0"
proof -
  let ?inp = sample_input_coll and ?db = empty_coll and ?r = sample_result
  let ?ad = "[''open-meteo'' \<mapsto> Some (\<lambda>_ _. Inr sample_result)] :: string \<rightharpoonup> decoder option"
  have h: "cv_fresh (sample_env 11) \<notin> fc_ID ` set (cd_collections ?db)" "- Hour \<le> cv_completedAt (sample_env 11)" "result_ok ?r"
    "ids_fresh (fr_Snapshots ?r) ?db" "usable ?r" "fr_RawPayload ?r \<noteq> []" "fr_Checksum ?r = Checksum (fr_RawPayload ?r)"
    "FindDedup (pr_ID (in_Provider ?inp)) (lo_ID (in_Location ?inp)) (dedup_time (- Hour) ?r) ?db = None"
    "cv_disk (sample_env 11) = DiskOK" "slug_ok (pr_Slug (in_Provider ?inp))" "''/data'' \<noteq> ''/''" "list_all snapshot_checks (fr_Snapshots ?r)"
    by (simp_all add: sample_env_def result_ok_def ids_fresh_def sample_result_def empty_coll_def snapshot_checks_def outside_def usable_def
        FindDedup_def slug_ok_def sample_input_coll_def sample_provider_def)
  obtain c evs db1 where run: "collect_store ''/data'' (sample_env 11) ?inp (- Hour) ?r ?db = ((Inr c, evs), db1)"
    and c: "cd_collections db1 = [c]" "fc_ID c = 11"
    using collect_store_commits [OF h(1-4) _ refl, where dir = "''/data''" and inp = ?inp] h(8) by (auto simp: empty_coll_def sample_env_def)
  have e2: "cv_fresh (sample_env 12) \<notin> fc_ID ` set (cd_collections db1)" "- Hour \<le> cv_completedAt (sample_env 12)"
    by (simp_all add: c sample_env_def)
  have ad: "?ad (pr_Slug sample_provider) = Some (Some (\<lambda>_ _. Inr sample_result))" by (simp add: sample_provider_def)
  have "\<exists>c2 evs2 db2. Replay (\<lambda>_. Inr sample_provider) ?ad ''/data'' (sample_env 12) (in_Actor ?inp) (fc_ID c) db1 = ((Inr c2, evs2), db2) \<and>
      fc_Status c2 = StatusDeduplicated \<and> fc_SnapshotsStored c2 = 0 \<and> cd_collections db2 = cd_collections db1 @ [c2] \<and>
      cd_snapshots db2 = cd_snapshots db1 \<and> LatestForecast 3 7 db2 = LatestForecast 3 7 db1"
    by (rule Replay_round_trip [where adapters = ?ad and getProvider = "\<lambda>_. Inr sample_provider" and p = sample_provider
        and decode = "\<lambda>_ _. Inr sample_result", OF h(1-11) run refl _ ad _ h(5,12) order.refl e2]) simp_all
  then show ?thesis by (auto simp: run c(2))
qed

end
