(* ===== verification/Transport.thy ===== *)
theory Transport
  imports Ports Circuit
begin

text \<open>
  The outbound side of the provider adapters: the shared HTTP transport
  (\<^verbatim>\<open>adapters/forecastproviders/providerhttp/client.go\<close>) with its retry loop and error classification, and the
  daily call budget of the OpenWeather adapter (\<^verbatim>\<open>openweather/budget.go\<close>). The network is an argument: what each attempt
  of a request meets.
\<close>

section \<open>One exchange\<close>

text \<open>Signed 64-bit arithmetic, and \<^verbatim>\<open>strconv.Atoi\<close> with its range.\<close>

definition wrap64 :: "int \<Rightarrow> int" where
  "wrap64 x = (x + 2 ^ 63) mod 2 ^ 64 - 2 ^ 63"

definition Atoi64 :: "string \<Rightarrow> int option" where
  "Atoi64 v = (case Atoi v of Some n \<Rightarrow> if - (2 ^ 63) \<le> n \<and> n < 2 ^ 63 then Some n else None | None \<Rightarrow> None)"

text \<open>Headers are read with \<^verbatim>\<open>Get\<close>, the empty text when absent; \<open>http_time\<close> is \<^verbatim>\<open>http.ParseTime\<close>.\<close>

definition retry_after :: "(string \<Rightarrow> instant option) \<Rightarrow> instant \<Rightarrow> string \<Rightarrow> duration option" where
  "retry_after http_time now v =
     (if v = [] then None
      else case Atoi64 v of Some secs \<Rightarrow> Some (wrap64 (secs * Second))
         | None \<Rightarrow> (case http_time v of Some t \<Rightarrow> Some (min (2 ^ 63 - 1) (max 0 (t - now))) | None \<Rightarrow> None))"

definition parseRateLimit :: "(string \<Rightarrow> instant option) \<Rightarrow> instant \<Rightarrow> (string \<Rightarrow> string) \<Rightarrow> RateLimit option" where
  "parseRateLimit http_time now h =
     (let ra = retry_after http_time now (h ''Retry-After'');
          limit = Atoi64 (h ''X-RateLimit-Limit'');
          remaining = Atoi64 (h ''X-RateLimit-Remaining'');
          reset = Atoi64 (h ''X-RateLimit-Reset'')
      in if ra = None \<and> limit = None \<and> remaining = None \<and> reset = None then None
         else Some \<lparr>rl_Limit = (case limit of Some n \<Rightarrow> n | None \<Rightarrow> 0), rl_Remaining = (case remaining of Some n \<Rightarrow> n | None \<Rightarrow> - 1),
                rl_Reset = map_option (\<lambda>s. s * Second) reset, rl_RetryAfter = ra\<rparr>)"

text \<open>A transport error, with whether it is a timeout.\<close>

record net_error =
  ne_Timeout :: bool
  ne_Text :: string

datatype exchange =
    BadRequest string
  | NoReply net_error
  | Reply int "string \<Rightarrow> string" string "net_error option"

record once =
  on_Body :: string
  on_Code :: int
  on_RateLimit :: "RateLimit option"
  on_RequestID :: string
  on_Latency :: int
  on_Err :: "net_error option"

text \<open>
  \<open>doOnce\<close> reads at most one byte more than allowed: an error that strikes after those bytes is not seen. In \<open>Reply\<close>
  the stream holds the bytes that arrive before the error, if there is one.
\<close>

definition doOnce :: "(string \<Rightarrow> instant option) \<Rightarrow> nat \<Rightarrow> instant \<Rightarrow> int \<Rightarrow> exchange \<Rightarrow> once" where
  "doOnce http_time maxRespBytes now latency x =
     (case x of
        BadRequest msg \<Rightarrow> \<lparr>on_Body = [], on_Code = 0, on_RateLimit = None, on_RequestID = [], on_Latency = 0,
          on_Err = Some \<lparr>ne_Timeout = False, ne_Text = msg\<rparr>\<rparr>
      | NoReply e \<Rightarrow> \<lparr>on_Body = [], on_Code = 0, on_RateLimit = None, on_RequestID = [], on_Latency = latency, on_Err = Some e\<rparr>
      | Reply code h stream err \<Rightarrow>
          (let rl = parseRateLimit http_time now h; rid = h ''X-Request-Id''; body = take (maxRespBytes + 1) stream in
           case (if length stream > maxRespBytes then None else err) of
             Some e \<Rightarrow> \<lparr>on_Body = [], on_Code = code, on_RateLimit = rl, on_RequestID = rid, on_Latency = latency, on_Err = Some e\<rparr>
           | None \<Rightarrow>
               (if length body > maxRespBytes
                then \<lparr>on_Body = [], on_Code = code, on_RateLimit = rl, on_RequestID = rid, on_Latency = latency,
                      on_Err = Some \<lparr>ne_Timeout = False, ne_Text = ''response exceeds '' @ itoa (int maxRespBytes) @ '' bytes''\<rparr>\<rparr>
                else \<lparr>on_Body = body, on_Code = code, on_RateLimit = rl, on_RequestID = rid, on_Latency = latency, on_Err = None\<rparr>)))"

definition http_classify :: "int \<Rightarrow> RateLimit option \<Rightarrow> net_error option \<Rightarrow> ProviderError" where
  "http_classify status rl err =
     (case err of
        Some e \<Rightarrow>
          (if ne_Timeout e then NewProviderError ErrTimeout status True
           else if status \<ge> 500 then NewProviderError ErrProvider5xx status True
           else NewProviderError ErrNetworkLocal status True)
      | None \<Rightarrow>
          (if status = 429 then (NewProviderError ErrRateLimited status True)\<lparr>pe_RateLimit := rl\<rparr>
           else if status = 401 \<or> status = 403 then NewProviderError ErrInvalidCredentials status False
           else if status \<ge> 500 then NewProviderError ErrProvider5xx status True
           else if status \<ge> 400 then NewProviderError ErrNetworkLocal status False
           else NewProviderError ErrNetworkLocal status False))"


section \<open>The retry loop\<close>

record Client =
  tc_maxRespBytes :: nat
  tc_maxAttempts :: nat
  tc_retryBase :: duration
  tc_retryOverride :: "(int \<Rightarrow> bool \<Rightarrow> bool) option"

record ClientConfig =
  tg_MaxResponseBytes :: int
  tg_MaxAttempts :: int
  tg_RetryBaseDelay :: duration
  tg_RetryableOverride :: "(int \<Rightarrow> bool \<Rightarrow> bool) option"

definition Client_New :: "ClientConfig \<Rightarrow> Client" where
  "Client_New cfg =
     \<lparr>tc_maxRespBytes = (if tg_MaxResponseBytes cfg \<le> 0 then 10 * 2 ^ 20 else nat (tg_MaxResponseBytes cfg)),
      tc_maxAttempts = (if tg_MaxAttempts cfg \<le> 0 then 5 else nat (tg_MaxAttempts cfg)),
      tc_retryBase = (if tg_RetryBaseDelay cfg \<le> 0 then Second else tg_RetryBaseDelay cfg),
      tc_retryOverride = tg_RetryableOverride cfg\<rparr>"

text \<open>What an attempt meets: whether the context ends during the backoff or while waiting for the limiter, and the exchange.\<close>

record attempt_world =
  aw_BackoffEnds :: bool
  aw_LimiterEnds :: bool
  aw_Once :: once

record Response =
  rs_Body :: string
  rs_StatusCode :: int
  rs_LatencyMS :: int
  rs_Attempts :: nat
  rs_RequestID :: string
  rs_RateLimit :: "RateLimit option"

definition Response0 :: Response where
  "Response0 = \<lparr>rs_Body = [], rs_StatusCode = 0, rs_LatencyMS = 0, rs_Attempts = 0, rs_RequestID = [], rs_RateLimit = None\<rparr>"

definition absorb :: "nat \<Rightarrow> once \<Rightarrow> Response \<Rightarrow> Response" where
  "absorb attempt w resp = resp\<lparr>rs_Attempts := attempt + 1, rs_LatencyMS := on_Latency w,
     rs_StatusCode := (if on_Code w > 0 then on_Code w else rs_StatusCode resp),
     rs_RequestID := (if on_RequestID w \<noteq> [] then on_RequestID w else rs_RequestID resp),
     rs_RateLimit := (if on_RateLimit w \<noteq> None then on_RateLimit w else rs_RateLimit resp),
     rs_Body := (if on_Body w \<noteq> [] then on_Body w else rs_Body resp)\<rparr>"

definition once_ok :: "once \<Rightarrow> bool" where
  "once_ok w \<longleftrightarrow> on_Err w = None \<and> on_Code w \<ge> 200 \<and> on_Code w < 300"

definition retries :: "Client \<Rightarrow> once \<Rightarrow> bool" where
  "retries c w = (let pe = http_classify (on_Code w) (on_RateLimit w) (on_Err w)
     in case tc_retryOverride c of Some f \<Rightarrow> f (on_Code w) (pe_Retryable pe) | None \<Rightarrow> pe_Retryable pe)"

fun get_loop :: "Client \<Rightarrow> (nat \<Rightarrow> attempt_world) \<Rightarrow> nat \<Rightarrow> nat \<Rightarrow> Response \<Rightarrow> ProviderError option \<Rightarrow> Response \<times> ProviderError option" where
  "get_loop c world attempt 0 resp lst = (resp, lst)"
| "get_loop c world attempt (Suc k) resp lst =
     (let w = world attempt in
      if attempt > 0 \<and> aw_BackoffEnds w then (resp, Some (NewProviderError ErrTimeout (rs_StatusCode resp) False))
      else if aw_LimiterEnds w then (resp, Some (NewProviderError ErrTimeout (rs_StatusCode resp) False))
      else let resp' = absorb attempt (aw_Once w) resp in
           if once_ok (aw_Once w) then (resp', None)
           else let pe = http_classify (on_Code (aw_Once w)) (on_RateLimit (aw_Once w)) (on_Err (aw_Once w)) in
                if \<not> retries c (aw_Once w) then (resp', Some pe)
                else get_loop c world (attempt + 1) k resp' (Some pe))"

definition Client_Get :: "Client \<Rightarrow> (nat \<Rightarrow> attempt_world) \<Rightarrow> Response \<times> ProviderError option" where
  "Client_Get c world = get_loop c world 0 (tc_maxAttempts c) Response0 None"


text \<open>
  The delay before attempt \<open>attempt\<close>, where \<open>r\<close> is the reading of \<^verbatim>\<open>rand.Float64\<close>, in \<open>[0, 1)\<close>. The constants are
  the rounded literals.
\<close>

definition backoff_delay :: "(real \<Rightarrow> real) \<Rightarrow> duration \<Rightarrow> nat \<Rightarrow> real \<Rightarrow> duration" where
  "backoff_delay fl retryBase attempt r =
     (let base = fmul fl (fl (real_of_int retryBase)) (fl (2 ^ (attempt - 1)));
          jitter = fadd fl 1 (fsub fl (fmul fl r (fl (4 / 10))) (fl (2 / 10)))
      in trunc_int (fmul fl base jitter))"


section \<open>The daily budget\<close>

record dailyBudget =
  bg_max :: int
  bg_day :: instant
  bg_used :: int
  bg_pausedTil :: instant

definition utcDay :: "instant \<Rightarrow> instant" where
  "utcDay t = Date_utc (Year t) (Month t) (DayOfMonth t)"

definition untilNextUTCDay :: "instant \<Rightarrow> duration" where
  "untilNextUTCDay now = utcDay now + 24 * Hour - now"

definition newDailyBudget :: "int \<Rightarrow> instant \<Rightarrow> dailyBudget" where
  "newDailyBudget max_calls now = \<lparr>bg_max = max_calls, bg_day = utcDay now, bg_used = 0, bg_pausedTil = zero_time\<rparr>"

definition rollover :: "instant \<Rightarrow> dailyBudget \<Rightarrow> dailyBudget" where
  "rollover now b = (let today = utcDay now in
     if today > bg_day b then b\<lparr>bg_day := today, bg_used := 0, bg_pausedTil := zero_time\<rparr> else b)"

definition reserve :: "instant \<Rightarrow> dailyBudget \<Rightarrow> (bool \<times> duration) \<times> dailyBudget" where
  "reserve now b0 =
     (let b = rollover now b0 in
      if bg_pausedTil b \<noteq> zero_time \<and> now < bg_pausedTil b then ((False, bg_pausedTil b - now), b)
      else let b1 = (if bg_pausedTil b \<noteq> zero_time then b\<lparr>bg_pausedTil := zero_time\<rparr> else b) in
           if bg_used b1 \<ge> bg_max b1 then ((False, untilNextUTCDay now), b1)
           else ((True, 0), b1\<lparr>bg_used := bg_used b1 + 1\<rparr>))"

definition pause :: "instant \<Rightarrow> duration \<Rightarrow> dailyBudget \<Rightarrow> dailyBudget" where
  "pause now d b0 =
     (let b = rollover now b0;
          until = (if d > 0 then now + d else now + untilNextUTCDay now)
      in if until > bg_pausedTil b then b\<lparr>bg_pausedTil := until\<rparr> else b)"

definition consume :: "int \<Rightarrow> instant \<Rightarrow> dailyBudget \<Rightarrow> dailyBudget" where
  "consume n now b0 =
     (if n \<le> 0 then b0
      else let b = rollover now b0; b1 = b\<lparr>bg_used := bg_used b + n\<rparr>
           in if bg_used b1 > bg_max b1 then b1\<lparr>bg_used := bg_max b1\<rparr> else b1)"

section \<open>The token bucket\<close>

text \<open>
  \<^verbatim>\<open>internal/platform/ratelimit\<close>: the outbound limiter of a provider and the per-key limiter of the API. The reading of
  the clock is an argument of each operation.
\<close>

definition Seconds :: "(real \<Rightarrow> real) \<Rightarrow> duration \<Rightarrow> real" where
  "Seconds fl d = (let q = sgn d * (\<bar>d\<bar> div Second); r = d - q * Second
     in fadd fl (fl (real_of_int q)) (fdiv fl (fl (real_of_int r)) 1000000000))"

record Limiter =
  lm_tokens :: real
  lm_max :: real
  lm_refillPerSec :: real
  lm_last :: instant

definition NewLimiter :: "real \<Rightarrow> real \<Rightarrow> instant \<Rightarrow> Limiter" where
  "NewLimiter max_tokens refillPerSec now = \<lparr>lm_tokens = max_tokens, lm_max = max_tokens, lm_refillPerSec = refillPerSec, lm_last = now\<rparr>"

definition refill :: "(real \<Rightarrow> real) \<Rightarrow> instant \<Rightarrow> Limiter \<Rightarrow> Limiter" where
  "refill fl now l =
     (let elapsed = Seconds fl (now - lm_last l) in
      if elapsed > 0
      then (let t = fadd fl (lm_tokens l) (fmul fl elapsed (lm_refillPerSec l))
            in l\<lparr>lm_tokens := (if t > lm_max l then lm_max l else t), lm_last := now\<rparr>)
      else l)"

definition Allow :: "(real \<Rightarrow> real) \<Rightarrow> instant \<Rightarrow> Limiter \<Rightarrow> bool \<times> Limiter" where
  "Allow fl now l0 =
     (let l = refill fl now l0 in
      if lm_tokens l \<ge> 1 then (True, l\<lparr>lm_tokens := fsub fl (lm_tokens l) 1\<rparr>) else (False, l))"

text \<open>\<open>Wait\<close> polls at the successive readings of the clock until it gets a token; the readings end when the context does.\<close>

fun Wait :: "(real \<Rightarrow> real) \<Rightarrow> instant list \<Rightarrow> Limiter \<Rightarrow> bool \<times> Limiter" where
  "Wait fl [] l = (False, l)"
| "Wait fl (now # ts) l = (case Allow fl now l of (True, l') \<Rightarrow> (True, l') | (False, l') \<Rightarrow> Wait fl ts l')"

definition wait_for :: "(real \<Rightarrow> real) \<Rightarrow> Limiter \<Rightarrow> duration" where
  "wait_for fl l =
     (let w = trunc_int (fmul fl (fdiv fl (fsub fl 1 (lm_tokens l)) (lm_refillPerSec l)) 1000000000)
      in if w < 10 * Millisecond then 10 * Millisecond else w)"

record KeyedLimiter =
  kl_buckets :: "string \<rightharpoonup> Limiter"
  kl_max :: real
  kl_refillPerSec :: real

definition Keyed_Allow :: "(real \<Rightarrow> real) \<Rightarrow> string \<Rightarrow> instant \<Rightarrow> instant \<Rightarrow> KeyedLimiter \<Rightarrow> bool \<times> KeyedLimiter" where
  "Keyed_Allow fl key created now k =
     (let b = (case kl_buckets k key of Some b \<Rightarrow> b | None \<Rightarrow> NewLimiter (kl_max k) (kl_refillPerSec k) created);
          (ok, b') = Allow fl now b
      in (ok, k\<lparr>kl_buckets := (kl_buckets k)(key \<mapsto> b')\<rparr>))"


section \<open>What the retry loop guarantees\<close>

lemma absorb_simps [simp]:
  "rs_Attempts (absorb a w r) = a + 1"
  "on_Code w > 0 \<Longrightarrow> rs_StatusCode (absorb a w r) = on_Code w"
  by (simp_all add: absorb_def)

lemma absorb_body: "rs_Body (absorb a w r) \<in> {on_Body w, rs_Body r}"
  by (simp add: absorb_def)

lemma once_ok_code: "once_ok w \<Longrightarrow> on_Code w > 0"
  by (simp add: once_ok_def)

definition attempt_failed :: "Client \<Rightarrow> attempt_world \<Rightarrow> bool" where
  "attempt_failed c w \<longleftrightarrow> \<not> once_ok (aw_Once w) \<and> retries c (aw_Once w)"

definition once_error :: "once \<Rightarrow> ProviderError" where
  "once_error w = http_classify (on_Code w) (on_RateLimit w) (on_Err w)"

lemma get_loop_outcome:
  assumes "get_loop c world a k resp lst = (r, err)" "rs_Attempts resp = a" "0 < k \<or> lst \<noteq> None"
  shows "a \<le> rs_Attempts r \<and> rs_Attempts r \<le> a + k \<and> (\<forall>i. a \<le> i \<and> i + 1 < rs_Attempts r \<longrightarrow> attempt_failed c (world i)) \<and>
    (case err of
       None \<Rightarrow> a < rs_Attempts r \<and> once_ok (aw_Once (world (rs_Attempts r - 1))) \<and> rs_StatusCode r = on_Code (aw_Once (world (rs_Attempts r - 1)))
     | Some e \<Rightarrow> (a < rs_Attempts r \<longrightarrow> \<not> once_ok (aw_Once (world (rs_Attempts r - 1)))) \<and>
         (e = NewProviderError ErrTimeout (rs_StatusCode r) False \<or> (a < rs_Attempts r \<and> e = once_error (aw_Once (world (rs_Attempts r - 1)))) \<or>
          (rs_Attempts r = a \<and> lst = Some e)))"
  using assms
proof (induction k arbitrary: a resp lst)
  case 0
  then show ?case by auto
next
  case (Suc k)
  let ?w = "world a" and ?resp = "absorb a (aw_Once (world a)) resp"
  show ?case
  proof (cases "\<not> (a > 0 \<and> aw_BackoffEnds ?w) \<and> \<not> aw_LimiterEnds ?w \<and> attempt_failed c ?w")
    case True
    then have "get_loop c world (a + 1) k ?resp (Some (once_error (aw_Once ?w))) = (r, err)"
      using Suc.prems(1) by (auto simp: Let_def attempt_failed_def once_error_def)
    from Suc.IH [OF this] have ih: "a + 1 \<le> rs_Attempts r" "rs_Attempts r \<le> a + 1 + k"
      "\<forall>i. a + 1 \<le> i \<and> i + 1 < rs_Attempts r \<longrightarrow> attempt_failed c (world i)"
      "case err of
       None \<Rightarrow> a + 1 < rs_Attempts r \<and> once_ok (aw_Once (world (rs_Attempts r - 1))) \<and> rs_StatusCode r = on_Code (aw_Once (world (rs_Attempts r - 1)))
     | Some e \<Rightarrow> (a + 1 < rs_Attempts r \<longrightarrow> \<not> once_ok (aw_Once (world (rs_Attempts r - 1)))) \<and>
         (e = NewProviderError ErrTimeout (rs_StatusCode r) False \<or> (a + 1 < rs_Attempts r \<and> e = once_error (aw_Once (world (rs_Attempts r - 1)))) \<or>
          (rs_Attempts r = a + 1 \<and> Some (once_error (aw_Once ?w)) = Some e))" by simp_all
    have "attempt_failed c (world i)" if "a \<le> i" "i + 1 < rs_Attempts r" for i
      using that ih(3) True by (cases "i = a") auto
    moreover have "rs_Attempts r = a + 1 \<or> a + 1 < rs_Attempts r" using ih(1) by auto
    ultimately show ?thesis using ih True by (auto simp: attempt_failed_def split: option.splits)
  next
    case False
    then show ?thesis using Suc.prems once_ok_code [of "aw_Once ?w"]
      by (auto simp: Let_def attempt_failed_def once_error_def split: if_splits option.splits)
  qed
qed

lemma get_loop_body:
  assumes "\<And>i. length (on_Body (aw_Once (world i))) \<le> n" "length (rs_Body resp) \<le> n"
  shows "length (rs_Body (fst (get_loop c world a k resp lst))) \<le> n"
  using assms(2)
proof (induction k arbitrary: a resp lst)
  case (Suc k)
  have b: "length (rs_Body (absorb i (aw_Once (world i)) resp)) \<le> n" for i
    using absorb_body [of i "aw_Once (world i)" resp] assms(1) [of i] Suc.prems by auto
  show ?case using Suc.prems b Suc.IH [OF b] by (auto simp: Let_def)
qed simp

lemma doOnce_bounded: "length (on_Body (doOnce ht n now lat x)) \<le> n"
  by (auto simp: doOnce_def Let_def split: exchange.splits option.splits)

lemma Client_New_attempts: "0 < tc_maxAttempts (Client_New cfg)"
  by (simp add: Client_New_def)

definition attempts_of :: "(string \<Rightarrow> instant option) \<Rightarrow> Client \<Rightarrow> (nat \<Rightarrow> bool \<times> bool \<times> instant \<times> int \<times> exchange) \<Rightarrow> nat \<Rightarrow> attempt_world" where
  "attempts_of ht c net i = (case net i of (backoffEnds, limiterEnds, now, latency, x) \<Rightarrow>
     \<lparr>aw_BackoffEnds = backoffEnds, aw_LimiterEnds = limiterEnds, aw_Once = doOnce ht (tc_maxRespBytes c) now latency x\<rparr>)"

text \<open>C17. A request is sent at most as often as configured, and only after failures that may be retried: every attempt but the last
  failed retryably. The call succeeds exactly when its last attempt got a 2xx answer, an error is the classification of the last
  attempt or a timeout of the caller, and no body longer than the bound is ever returned.\<close>

theorem Client_Get_outcome:
  assumes "c = Client_New cfg" "w = attempts_of ht c net" "Client_Get c w = (r, err)"
  shows "rs_Attempts r \<le> tc_maxAttempts c \<and> length (rs_Body r) \<le> tc_maxRespBytes c \<and>
    (\<forall>i. i + 1 < rs_Attempts r \<longrightarrow> \<not> once_ok (aw_Once (w i)) \<and> retries c (aw_Once (w i))) \<and>
    (err = None \<longleftrightarrow> 0 < rs_Attempts r \<and> once_ok (aw_Once (w (rs_Attempts r - 1)))) \<and>
    (err = None \<longrightarrow> rs_StatusCode r \<ge> 200 \<and> rs_StatusCode r < 300) \<and>
    (\<forall>e. err = Some e \<longrightarrow> e = NewProviderError ErrTimeout (rs_StatusCode r) False \<or>
       (0 < rs_Attempts r \<and> e = once_error (aw_Once (w (rs_Attempts r - 1)))))"
proof -
  have g: "get_loop c w 0 (tc_maxAttempts c) Response0 None = (r, err)" using assms(3) by (simp add: Client_Get_def)
  have "rs_Attempts Response0 = 0" by (simp add: Response0_def)
  from get_loop_outcome [OF g this] Client_New_attempts [of cfg] have o: "rs_Attempts r \<le> tc_maxAttempts c"
    "\<forall>i. i + 1 < rs_Attempts r \<longrightarrow> attempt_failed c (w i)"
    "case err of
       None \<Rightarrow> 0 < rs_Attempts r \<and> once_ok (aw_Once (w (rs_Attempts r - 1))) \<and> rs_StatusCode r = on_Code (aw_Once (w (rs_Attempts r - 1)))
     | Some e \<Rightarrow> (0 < rs_Attempts r \<longrightarrow> \<not> once_ok (aw_Once (w (rs_Attempts r - 1)))) \<and>
         (e = NewProviderError ErrTimeout (rs_StatusCode r) False \<or> (0 < rs_Attempts r \<and> e = once_error (aw_Once (w (rs_Attempts r - 1)))))"
    by (auto simp: assms(1) split: option.splits)
  have "length (on_Body (aw_Once (w i))) \<le> tc_maxRespBytes c" for i
    by (simp add: assms(2) attempts_of_def doOnce_bounded split: prod.split)
  moreover have "length (rs_Body Response0) \<le> tc_maxRespBytes c" by (simp add: Response0_def)
  ultimately have "length (rs_Body r) \<le> tc_maxRespBytes c" using get_loop_body [of w _ Response0 c 0 "tc_maxAttempts c" None] by (simp add: g)
  then show ?thesis using o(1,2,3) by (cases err) (auto simp: attempt_failed_def once_ok_def)
qed

definition sample_client_config :: ClientConfig where
  "sample_client_config = \<lparr>tg_MaxResponseBytes = 0, tg_MaxAttempts = 0, tg_RetryBaseDelay = 0, tg_RetryableOverride = None\<rparr>"

text \<open>A provider that answers 503 with a short text once and then 200.\<close>

definition sample_net :: "string \<Rightarrow> nat \<Rightarrow> bool \<times> bool \<times> instant \<times> int \<times> exchange" where
  "sample_net body i = (False, False, 0, 5, if i = 0 then Reply 503 (\<lambda>_. []) ''down'' None else Reply 200 (\<lambda>_. []) body None)"

lemma get_retry_once:
  assumes "attempt_failed c (w 0)" "once_ok (aw_Once (w 1))" "\<not> aw_LimiterEnds (w 0)" "\<not> aw_LimiterEnds (w 1)" "\<not> aw_BackoffEnds (w 1)"
    "2 \<le> tc_maxAttempts c"
  shows "Client_Get c w = (absorb 1 (aw_Once (w 1)) (absorb 0 (aw_Once (w 0)) Response0), None)"
proof -
  obtain k where k: "tc_maxAttempts c = Suc (Suc k)" using assms(6) by (metis add_2_eq_Suc le_Suc_ex)
  show ?thesis using assms(1-5) by (simp add: Client_Get_def k Let_def attempt_failed_def)
qed

lemma sample_attempts:
  fixes body :: string
  defines "w \<equiv> attempts_of (\<lambda>_. None) (Client_New sample_client_config) (sample_net body)"
  assumes "length body \<le> 1024"
  shows "attempt_failed (Client_New sample_client_config) (w 0)" "once_ok (aw_Once (w 1))" "\<not> aw_LimiterEnds (w 0)" "\<not> aw_LimiterEnds (w 1)"
    "\<not> aw_BackoffEnds (w 1)" "2 \<le> tc_maxAttempts (Client_New sample_client_config)"
    "on_Body (aw_Once (w 0)) = ''down''" "on_Body (aw_Once (w 1)) = body" "on_Code (aw_Once (w 1)) = 200"
  using assms(2) unfolding w_def
  by (simp_all add: Client_New_def sample_client_config_def attempts_of_def sample_net_def doOnce_def Let_def
      once_ok_def retries_def http_classify_def NewProviderError_def attempt_failed_def)

theorem Client_Get_outcome_witness:
  "\<exists>r. Client_Get (Client_New sample_client_config) (attempts_of (\<lambda>_. None) (Client_New sample_client_config) (sample_net ''{}'')) = (r, None) \<and>
     rs_Attempts r = 2 \<and> rs_StatusCode r \<ge> 200 \<and> rs_StatusCode r < 300"
proof -
  have "length ''{}'' \<le> 1024" by simp
  note g = get_retry_once [OF sample_attempts(1-6) [OF this]]
  from Client_Get_outcome [OF refl refl g] show ?thesis unfolding g by simp
qed

text \<open>An answer with an empty body does not clear the body of an earlier attempt: after a failed attempt with a text and a
  successful one without, the call succeeds with the text of the failure.\<close>

theorem stale_body_survives_retry:
  assumes "attempt_failed c (w 0)" "once_ok (aw_Once (w 1))" "on_Body (aw_Once (w 1)) = []" "on_Body (aw_Once (w 0)) \<noteq> []"
    "\<not> aw_LimiterEnds (w 0)" "\<not> aw_LimiterEnds (w 1)" "\<not> aw_BackoffEnds (w 1)" "2 \<le> tc_maxAttempts c"
  shows "\<exists>r. Client_Get c w = (r, None) \<and> rs_StatusCode r = on_Code (aw_Once (w 1)) \<and> rs_Body r = on_Body (aw_Once (w 0))"
  using get_retry_once [OF assms(1,2,5-8)] once_ok_code [OF assms(2)] assms(3,4) by (simp add: absorb_def)

theorem stale_body_survives_retry_witness:
  "\<exists>r. Client_Get (Client_New sample_client_config) (attempts_of (\<lambda>_. None) (Client_New sample_client_config) (sample_net [])) = (r, None) \<and>
     rs_StatusCode r = 200 \<and> rs_Body r = ''down''"
proof -
  have "length [] \<le> 1024" by simp
  note a = sample_attempts [OF this]
  have "''down'' \<noteq> []" by simp
  from stale_body_survives_retry [OF a(1,2,8) this [folded a(7)] a(3-6)] show ?thesis unfolding a(7,9) .
qed

section \<open>What the token bucket guarantees\<close>

lemma Seconds_exact: "Seconds exact d = of_int d / 1000000000"
  by (simp add: Seconds_def Let_def exact_def field_simps)

lemma refill_exact:
  "refill exact now l = (if now > lm_last l
     then l\<lparr>lm_tokens := min (lm_max l) (lm_tokens l + of_int (now - lm_last l) / 1000000000 * lm_refillPerSec l), lm_last := now\<rparr> else l)"
  by (auto simp: refill_def Let_def Seconds_exact min_def)

text \<open>Whatever the rounding, the level stays a float between empty and full.\<close>

definition bucket_ok :: "(real \<Rightarrow> real) \<Rightarrow> Limiter \<Rightarrow> bool" where
  "bucket_ok fl l \<longleftrightarrow> 0 \<le> lm_tokens l \<and> lm_tokens l \<le> lm_max l \<and> 0 \<le> lm_refillPerSec l \<and>
     is_float fl (lm_tokens l) \<and> is_float fl (lm_max l)"

context rounding
begin

lemma refill_ok: "bucket_ok fl l \<Longrightarrow> bucket_ok fl (refill fl now l)"
  by (auto simp: bucket_ok_def refill_def Let_def fops fl_is_float intro!: fl_nonneg add_nonneg_nonneg mult_nonneg_nonneg)

lemma Allow_ok: "bucket_ok fl l \<Longrightarrow> bucket_ok fl (snd (Allow fl now l))"
  using refill_ok [of l now] fl_le_float [of "lm_tokens (refill fl now l) - 1" "lm_tokens (refill fl now l)"]
  by (auto simp: bucket_ok_def Allow_def Let_def fsub_def fl_is_float intro!: fl_nonneg)

lemma Keyed_Allow_ok:
  assumes "\<And>key b. kl_buckets k key = Some b \<Longrightarrow> bucket_ok fl b" "0 \<le> kl_max k" "is_float fl (kl_max k)" "0 \<le> kl_refillPerSec k"
    and "kl_buckets (snd (Keyed_Allow fl key created now k)) key' = Some b"
  shows "bucket_ok fl b"
proof -
  have "bucket_ok fl (NewLimiter (kl_max k) (kl_refillPerSec k) created)" using assms(2-4) by (simp add: bucket_ok_def NewLimiter_def)
  then show ?thesis using assms(1,5) Allow_ok
    by (auto simp: Keyed_Allow_def Let_def split: option.splits prod.splits if_splits) (metis snd_conv)+
qed

end

fun allow_run :: "instant list \<Rightarrow> Limiter \<Rightarrow> nat" where
  "allow_run [] l = 0"
| "allow_run (t # ts) l = (case Allow exact t l of (ok, l') \<Rightarrow> (if ok then 1 else 0) + allow_run ts l')"

lemma Allow_potential:
  assumes "bucket_ok exact l" "now \<le> T" "lm_last l \<le> T"
  shows "(if fst (Allow exact now l) then 1 else 0) + lm_tokens (snd (Allow exact now l)) +
      of_int (T - lm_last (snd (Allow exact now l))) / 1000000000 * lm_refillPerSec l
    \<le> lm_tokens l + of_int (T - lm_last l) / 1000000000 * lm_refillPerSec l"
    "lm_last (snd (Allow exact now l)) \<le> T" "lm_refillPerSec (snd (Allow exact now l)) = lm_refillPerSec l"
proof -
  have "min m (t + d * r) + e * r \<le> t + (d + e) * r" for m t d e r :: real by (simp add: distrib_right min_le_iff_disj)
  from this [of _ _ "of_int (now - lm_last l) / 1000000000" "lm_refillPerSec l" "of_int (T - now) / 1000000000"]
  show "(if fst (Allow exact now l) then 1 else 0) + lm_tokens (snd (Allow exact now l)) +
      of_int (T - lm_last (snd (Allow exact now l))) / 1000000000 * lm_refillPerSec l
    \<le> lm_tokens l + of_int (T - lm_last l) / 1000000000 * lm_refillPerSec l"
    by (auto simp: Allow_def Let_def refill_exact add_divide_distrib [symmetric])
  show "lm_last (snd (Allow exact now l)) \<le> T" "lm_refillPerSec (snd (Allow exact now l)) = lm_refillPerSec l"
    using assms(2,3) by (simp_all add: Allow_def Let_def refill_exact)
qed

lemma allow_run_potential:
  assumes "bucket_ok exact l" "list_all (\<lambda>t. t \<le> T) ts" "lm_last l \<le> T"
  shows "real (allow_run ts l) \<le> lm_tokens l + of_int (T - lm_last l) / 1000000000 * lm_refillPerSec l"
  using assms
proof (induction ts arbitrary: l)
  case Nil
  then show ?case by (simp add: bucket_ok_def)
next
  case (Cons t ts)
  obtain ok l' where a: "Allow exact t l = (ok, l')" by (cases "Allow exact t l")
  have "t \<le> T" "bucket_ok exact l'" using Cons.prems ex.Allow_ok [OF Cons.prems(1), of t] by (simp_all add: a)
  from Allow_potential [OF Cons.prems(1) this(1) Cons.prems(3)] Cons.IH [OF this(2)] Cons.prems(2) show ?case by (simp add: a split: if_splits)
qed

text \<open>C22. Over any window of time, whatever the polling pattern and the state of the bucket at its start, at most a full bucket plus
  the refill of the window is granted, in exact arithmetic.\<close>

theorem limiter_rate_bound:
  assumes "bucket_ok exact l" "s \<le> T" "lm_last l \<le> T" "list_all (\<lambda>t. s \<le> t \<and> t \<le> T) ts"
  shows "real (allow_run ts l) \<le> lm_max l + of_int (T - s) / 1000000000 * lm_refillPerSec l"
proof (cases ts)
  case Nil
  then show ?thesis using assms(1,2) by (simp add: bucket_ok_def)
next
  case (Cons t ts')
  let ?l = "refill exact t l"
  have "allow_run ts l = allow_run ts ?l" by (simp add: Cons Allow_def refill_exact)
  moreover have "bucket_ok exact ?l" "lm_last ?l \<le> T" "s \<le> lm_last ?l" "lm_max ?l = lm_max l" "lm_refillPerSec ?l = lm_refillPerSec l"
    using ex.refill_ok [OF assms(1)] assms(3,4) by (simp_all add: Cons refill_exact)
  moreover have "list_all (\<lambda>t. t \<le> T) ts" using assms(4) by (simp add: list_all_iff)
  moreover have "of_int (T - lm_last ?l) / 1000000000 * lm_refillPerSec l \<le> of_int (T - s) / 1000000000 * lm_refillPerSec l"
    using assms(1) calculation(4) by (intro mult_right_mono divide_right_mono) (simp_all add: bucket_ok_def)
  ultimately show ?thesis using allow_run_potential [of ?l T ts] by (simp add: bucket_ok_def)
qed

theorem limiter_rate_bound_witness:
  "allow_run [0, 0, 0, Second] (NewLimiter 2 1 0) = 3 \<and>
   real (allow_run [0, 0, 0, Second] (NewLimiter 2 1 0)) \<le> lm_max (NewLimiter 2 1 0) + of_int (Second - 0) / 1000000000 * lm_refillPerSec (NewLimiter 2 1 0)"
proof
  show "allow_run [0, 0, 0, Second] (NewLimiter 2 1 0) = 3" by (simp add: NewLimiter_def Allow_def refill_exact Let_def)
  show "real (allow_run [0, 0, 0, Second] (NewLimiter 2 1 0)) \<le> lm_max (NewLimiter 2 1 0) + of_int (Second - 0) / 1000000000 * lm_refillPerSec (NewLimiter 2 1 0)"
    by (rule limiter_rate_bound) (simp_all add: NewLimiter_def bucket_ok_def is_float_def exact_def)
qed

text \<open>A waiting caller is served at the latest at its third reading of the clock, when it sleeps as long as it computed.\<close>

lemma wait_for_covers:
  assumes "lm_tokens l < 1" "0 < lm_refillPerSec l" "wait_for exact l \<le> d"
  shows "1 \<le> lm_tokens l + of_int (d + 10 * Millisecond) / 1000000000 * lm_refillPerSec l"
proof -
  let ?x = "(1 - lm_tokens l) / lm_refillPerSec l * 1000000000"
  have "0 \<le> ?x" using assms(1,2) by simp
  then have "?x \<le> of_int \<lfloor>?x\<rfloor> + 1" "\<lfloor>?x\<rfloor> \<le> wait_for exact l" by (linarith, simp add: wait_for_def Let_def trunc_int_def)
  moreover have "of_int (wait_for exact l) \<le> (of_int d :: real)" using assms(3) by simp
  ultimately have "?x \<le> of_int (d + 10 * Millisecond)" by linarith
  then have "?x / 1000000000 * lm_refillPerSec l \<le> of_int (d + 10 * Millisecond) / 1000000000 * lm_refillPerSec l"
    using assms(2) by (intro mult_right_mono divide_right_mono) simp_all
  then show ?thesis using assms(2) by simp
qed

lemma Wait_served:
  assumes "bucket_ok exact l" "1 \<le> lm_max l" "0 < lm_refillPerSec l" "lm_last l \<le> t0"
    "t0 + wait_for exact (refill exact t0 l) \<le> t1" "t1 + 10 * Millisecond \<le> t2"
  shows "fst (Wait exact [t0, t1, t2] l)"
proof (rule ccontr)
  assume no: "\<not> ?thesis"
  let ?l = "refill exact t0 l"
  have t: "lm_tokens ?l < 1" using no by (auto simp: Allow_def Let_def split: if_splits)
  have l: "lm_last ?l = t0" "lm_max ?l = lm_max l" "lm_refillPerSec ?l = lm_refillPerSec l" using assms(4) by (auto simp: refill_exact)
  have "10 * Millisecond \<le> wait_for exact ?l" by (simp add: wait_for_def Let_def)
  with assms(5,6) have o: "t0 < t1" "t1 < t2" by simp_all
  have c: "1 \<le> lm_tokens ?l + of_int (t1 - t0 + 10 * Millisecond) / 1000000000 * lm_refillPerSec ?l"
    by (rule wait_for_covers [OF t]) (use assms(3,5) in \<open>simp_all add: l(3)\<close>)
  also have "\<dots> \<le> lm_tokens ?l + of_int (t2 - t0) / 1000000000 * lm_refillPerSec ?l"
    using assms(3,6) by (intro add_left_mono mult_right_mono divide_right_mono) (simp_all add: l(3))
  finally have f: "1 \<le> lm_tokens ?l + of_int (t2 - t0) / 1000000000 * lm_refillPerSec ?l" .
  have "of_int t1 * lm_refillPerSec l \<le> of_int t2 * lm_refillPerSec l" using o(2) assms(3) by simp
  with f have "1 \<le> lm_tokens (refill exact t2 (refill exact t1 ?l))"
    using o assms(2) by (simp add: refill_exact [of t1] refill_exact [of t2] l add_divide_distrib [symmetric] min_def) (simp add: field_simps)
  then show False using no t by (auto simp: Allow_def Let_def split: if_splits)
qed

section \<open>What the daily budget guarantees\<close>

lemma utcDay_eq: "utcDay t = day_of t * Day"
  using Date_utc_of [of t 0] by (simp add: utcDay_def)

lemma utcDay_mono: "s \<le> t \<Longrightarrow> utcDay s \<le> utcDay t"
  by (simp add: utcDay_eq day_of_def zdiv_mono1)

lemma utcDay_bounds: "utcDay t \<le> t" "t < utcDay t + Day"
  by (simp_all add: utcDay_eq day_of_def minus_mod_eq_div_mult [symmetric])

lemma utcDay_idem: "utcDay (utcDay t) = utcDay t"
  by (simp add: utcDay_eq day_of_def)

text \<open>Every operation at \<open>t\<close> belongs to the day of \<open>t\<close>, unless the counter is already on a later one; it keeps the count in range.\<close>

definition budget_ok :: "dailyBudget \<Rightarrow> bool" where
  "budget_ok b \<longleftrightarrow> 0 \<le> bg_used b \<and> bg_used b \<le> bg_max b"

lemma rollover_day: "bg_day b \<le> utcDay t \<Longrightarrow> bg_day (rollover t b) = utcDay t"
  by (simp add: rollover_def Let_def)

lemma rollover_ok: "budget_ok b \<Longrightarrow> budget_ok (rollover t b)"
  by (simp add: rollover_def Let_def budget_ok_def)

lemma rollover_max [simp]: "bg_max (rollover t b) = bg_max b"
  by (simp add: rollover_def Let_def)

lemma rollover_used: "bg_used (rollover t b) = (if utcDay t > bg_day b then 0 else bg_used b)"
  by (simp add: rollover_def Let_def)

lemma reserve_frame:
  assumes "reserve t b = (r, b')"
  shows "bg_max b' = bg_max b" "bg_day b' = bg_day (rollover t b)"
    "fst r \<Longrightarrow> bg_used b' = bg_used (rollover t b) + 1 \<and> bg_used (rollover t b) < bg_max b"
    "\<not> fst r \<Longrightarrow> bg_used b' = bg_used (rollover t b)"
  using assms by (auto simp: reserve_def Let_def split: if_splits)

lemma pause_frame:
  "bg_max (pause t d b) = bg_max b" "bg_day (pause t d b) = bg_day (rollover t b)" "bg_used (pause t d b) = bg_used (rollover t b)"
  by (simp_all add: pause_def Let_def)

lemma consume_frame:
  "bg_max (consume n t b) = bg_max b"
  "bg_day (consume n t b) = (if n \<le> 0 then bg_day b else bg_day (rollover t b))"
  "bg_used (consume n t b) = (if n \<le> 0 then bg_used b else min (bg_max b) (bg_used (rollover t b) + n))"
  by (simp_all add: consume_def Let_def)

lemma budget_ops_ok:
  assumes "budget_ok b"
  shows "budget_ok (snd (reserve t b))" "budget_ok (pause t d b)" "budget_ok (consume n t b)"
proof -
  obtain r b' where "reserve t b = (r, b')" by (cases "reserve t b")
  with rollover_ok [OF assms, of t] reserve_frame [OF this] show "budget_ok (snd (reserve t b))" by (cases "fst r") (auto simp: budget_ok_def)
  show "budget_ok (pause t d b)" "budget_ok (consume n t b)"
    using rollover_ok [OF assms, of t] assms by (auto simp: budget_ok_def pause_frame consume_frame)
qed

text \<open>After a 429 with a retry time, or none, no call passes before that time (or before midnight) on the same UTC day.\<close>

theorem pause_refuses:
  assumes "bg_day b \<le> utcDay now" "now \<le> t" "utcDay t = utcDay now" "0 \<le> now" "0 < d \<longrightarrow> t < now + d"
  shows "\<not> fst (fst (reserve t (pause now d b)))"
proof -
  define b1 where "b1 = pause now d b"
  let ?until = "if d > 0 then now + d else now + untilNextUTCDay now"
  have "now + untilNextUTCDay now = utcDay now + Day" by (simp add: untilNextUTCDay_def)
  then have u: "t < ?until" using utcDay_bounds(2) [of t] assms(3,5) by auto
  have p: "?until \<le> bg_pausedTil b1" by (simp add: b1_def pause_def Let_def)
  have "bg_day b1 = utcDay t" by (simp add: b1_def pause_frame rollover_day assms(1,3))
  then have "rollover t b1 = b1" by (simp add: rollover_def)
  moreover have "bg_pausedTil b1 \<noteq> zero_time" using p u assms(2,4) by (auto simp: zero_time_def)
  ultimately show ?thesis using p u by (simp add: reserve_def Let_def b1_def [symmetric])
qed

definition sample_budget :: dailyBudget where
  "sample_budget = newDailyBudget 1000 (20 * Hour)"

lemma sample_days: "utcDay (20 * Hour) = 0" "utcDay (21 * Hour) = 0" "utcDay (25 * Hour) = Day"
  by (simp_all add: utcDay_eq day_of_def)

theorem pause_refuses_witness: "\<not> fst (fst (reserve (21 * Hour) (pause (20 * Hour) (8 * Hour) sample_budget)))"
  using pause_refuses [of sample_budget "20 * Hour" "21 * Hour" "8 * Hour"] by (simp add: sample_budget_def newDailyBudget_def sample_days [simplified])

text \<open>A pause does not survive midnight: the first call of the next UTC day passes although the advised retry time is still ahead.\<close>

theorem midnight_clears_pause:
  assumes "bg_day b \<le> utcDay now" "utcDay now < utcDay t" "0 < bg_max b"
  shows "fst (fst (reserve t (pause now d b)))"
proof -
  have "bg_day (pause now d b) < utcDay t" by (simp add: pause_frame rollover_day assms(1,2))
  then show ?thesis using assms(3) by (simp add: reserve_def rollover_def Let_def pause_frame)
qed

theorem midnight_clears_pause_witness:
  "fst (fst (reserve (25 * Hour) (pause (20 * Hour) (8 * Hour) sample_budget))) \<and> 25 * Hour < 20 * Hour + (8 * Hour :: int)"
  using midnight_clears_pause [of sample_budget "20 * Hour" "25 * Hour" "8 * Hour"] by (simp add: sample_budget_def newDailyBudget_def sample_days [simplified])

end
