(* ===== verification/Adapters.thy ===== *)
theory Adapters
  imports Collecting Transport
begin

text \<open>
  The provider adapters: Open-Meteo and OpenWeather forecasts (\<^verbatim>\<open>adapters/forecastproviders/{openmeteo,openweather}\<close>) and
  Open-Meteo historical observations (\<^verbatim>\<open>adapters/observationsources/openmeteo\<close>), from the transport's response to the result
  the collection services store. The decoding of JSON into the response structs, the parsing of timestamps and the printing of
  numbers and quoted strings are fields of an argument, \<open>go_lib\<close>; every statement holds for all of them.
\<close>

section \<open>Library functions and messages\<close>

record 'r go_lib =
  lib_Unmarshal :: "string \<Rightarrow> (string, 'r) result"
  lib_ParseRFC3339 :: "string \<Rightarrow> instant option"
  lib_ParseHour :: "string \<Rightarrow> instant option"
  lib_Quote :: "string \<Rightarrow> string"
  lib_Fixed2 :: "real \<Rightarrow> string"

definition snapshot_reason_str :: "(real \<Rightarrow> string) \<Rightarrow> reason \<Rightarrow> string" where
  "snapshot_reason_str fixed2 r = (case r of
     TargetNotAfterIssued \<Rightarrow> ''target_time must be after issued_at''
   | HorizonNotPositive \<Rightarrow> ''forecast_horizon_minutes must be positive''
   | TemperatureRange v \<Rightarrow> ''temperature_c '' @ fixed2 v @ '' out of range [-90,60]''
   | FeelsLikeRange \<Rightarrow> ''feels_like_temperature_c out of range''
   | ProbabilityRange \<Rightarrow> ''precipitation_probability must be within [0,1]''
   | PrecipAmountRange \<Rightarrow> ''precipitation_amount_mm out of range''
   | HumidityRange \<Rightarrow> ''humidity_pct must be within [0,100]''
   | WindSpeedRange \<Rightarrow> ''wind_speed_ms out of range''
   | WindDirectionRange \<Rightarrow> ''wind_direction_deg must be within [0,360]''
   | PressureRange \<Rightarrow> ''pressure_hpa out of range''
   | CloudCoverRange \<Rightarrow> ''cloud_cover_pct must be within [0,100]'')"


text \<open>\<^verbatim>\<open>int(d.Minutes())\<close>.\<close>

definition Minutes :: "(real \<Rightarrow> real) \<Rightarrow> duration \<Rightarrow> real" where
  "Minutes fl d = (let q = sgn d * (\<bar>d\<bar> div Minute); r = d - q * Minute
     in fadd fl (fl (real_of_int q)) (fdiv fl (fl (real_of_int r)) 60000000000))"

definition parseTime :: "'r go_lib \<Rightarrow> string \<Rightarrow> instant option" where
  "parseTime lib s = (case lib_ParseRFC3339 lib s of Some t \<Rightarrow> Some t | None \<Rightarrow> lib_ParseHour lib s)"

definition at_index :: "'a option list \<Rightarrow> nat \<Rightarrow> 'a option" where
  "at_index arr i = (if i \<ge> length arr then None else arr ! i)"

definition pctToRatio :: "(real \<Rightarrow> real) \<Rightarrow> real option \<Rightarrow> real option" where
  "pctToRatio fl pct = map_option (\<lambda>p. fdiv fl p 100) pct"


section \<open>Conditions\<close>

definition wmoConditionMap :: "(int \<times> string) list" where
  "wmoConditionMap = [(0, ''clear''), (1, ''clear''), (2, ''partly_cloudy''), (3, ''cloudy''), (45, ''fog''), (48, ''fog''),
     (51, ''drizzle''), (53, ''drizzle''), (55, ''drizzle''), (56, ''sleet''), (57, ''sleet''), (61, ''rain''), (63, ''rain''),
     (65, ''heavy_rain''), (66, ''sleet''), (67, ''sleet''), (71, ''snow''), (73, ''snow''), (75, ''snow''), (77, ''snow''),
     (80, ''rain''), (81, ''rain''), (82, ''heavy_rain''), (85, ''snow''), (86, ''snow''),
     (95, ''thunderstorm''), (96, ''thunderstorm''), (99, ''thunderstorm'')]"

definition om_mapCondition :: "int \<Rightarrow> string \<times> bool" where
  "om_mapCondition code = (case map_of wmoConditionMap code of None \<Rightarrow> (''unknown'', False) | Some c \<Rightarrow> (c, True))"

definition ow_mapCondition :: "int \<Rightarrow> string \<times> bool" where
  "ow_mapCondition code =
     (if 200 \<le> code \<and> code < 300 then (''thunderstorm'', True)
      else if 300 \<le> code \<and> code < 400 then (''drizzle'', True)
      else if code = 500 \<or> code = 501 \<or> (520 \<le> code \<and> code \<le> 522) \<or> code = 531 then (''rain'', True)
      else if code = 502 \<or> code = 503 \<or> code = 504 then (''heavy_rain'', True)
      else if code = 511 then (''sleet'', True)
      else if 600 \<le> code \<and> code \<le> 602 then (''snow'', True)
      else if 611 \<le> code \<and> code \<le> 616 then (''sleet'', True)
      else if 620 \<le> code \<and> code \<le> 622 then (''snow'', True)
      else if code \<in> {701, 711, 721, 731, 741, 751, 761, 762} then (''fog'', True)
      else if code = 800 then (''clear'', True)
      else if code = 801 \<or> code = 802 then (''partly_cloudy'', True)
      else if code = 803 \<or> code = 804 then (''cloudy'', True)
      else (''unknown'', False))"


section \<open>The row loop of the forecast adapters\<close>

definition tally :: "string \<Rightarrow> (string \<times> int) list \<Rightarrow> (string \<times> int) list" where
  "tally code m = (case map_of m code of
     None \<Rightarrow> m @ [(code, 1)] | Some _ \<Rightarrow> map (\<lambda>(c, n). if c = code then (c, n + 1) else (c, n)) m)"

text \<open>The condition fields of a row, and the code to tally when it is not mapped.\<close>

definition set_condition :: "(int \<Rightarrow> string \<times> bool) \<Rightarrow> int option \<Rightarrow> ForecastSnapshot \<Rightarrow> ForecastSnapshot \<times> string option" where
  "set_condition mapCondition code snap =
     (case code of None \<Rightarrow> (snap, None)
      | Some c \<Rightarrow> (snap\<lparr>fs_ProviderConditionCode := itoa c, fs_CanonicalConditionCode := fst (mapCondition c)\<rparr>,
                   if snd (mapCondition c) then None else Some (itoa c)))"

definition add_row :: "(real \<Rightarrow> string) \<Rightarrow> nat \<Rightarrow> (string, ForecastSnapshot \<times> string option) result \<Rightarrow> ForecastResult \<Rightarrow> ForecastResult" where
  "add_row fixed2 i row result =
     (case row of
        Inl reason \<Rightarrow> result\<lparr>fr_InvalidCount := fr_InvalidCount result + 1, fr_InvalidReasons := fr_InvalidReasons result @ [reason]\<rparr>
      | Inr (snap, unmapped) \<Rightarrow>
          (let result1 = (case unmapped of None \<Rightarrow> result
               | Some code \<Rightarrow> result\<lparr>fr_UnmappedConditions := tally code (fr_UnmappedConditions result)\<rparr>);
               reasons = map (snapshot_reason_str fixed2) (Validate snap)
           in if reasons \<noteq> []
              then result1\<lparr>fr_InvalidCount := fr_InvalidCount result1 + 1,
                     fr_InvalidReasons := fr_InvalidReasons result1 @ [''row '' @ itoa (int i) @ '': '' @ join '', '' reasons]\<rparr>
              else result1\<lparr>fr_Snapshots := fr_Snapshots result1 @ [snap]\<rparr>))"

definition schema_drift :: "string list \<Rightarrow> ForecastResult \<Rightarrow> ForecastResult" where
  "schema_drift reasons result = result\<lparr>fr_Outcome := OutcomeFailed, fr_ErrorCode := ''schema_drift'', fr_InvalidReasons := fr_InvalidReasons result @ reasons\<rparr>"

definition classify_rows :: "nat \<Rightarrow> ForecastResult \<Rightarrow> ForecastResult" where
  "classify_rows n result =
     (if n = 0 then schema_drift [] result
      else if fr_InvalidCount result * 2 > int n then schema_drift [] result
      else if fr_InvalidCount result > 0 then result\<lparr>fr_Outcome := OutcomePartial\<rparr>
      else result\<lparr>fr_Outcome := OutcomeSuccess\<rparr>)"

definition decompose_rows :: "(real \<Rightarrow> string) \<Rightarrow> (nat \<Rightarrow> (string, ForecastSnapshot \<times> string option) result) \<Rightarrow> nat \<Rightarrow> ForecastResult \<Rightarrow> ForecastResult" where
  "decompose_rows fixed2 row n result =
     classify_rows n (fold (\<lambda>i r. add_row fixed2 i (row i) r) [0..<n] (result\<lparr>fr_RecordsReceived := int n\<rparr>))"

text \<open>The empty result an adapter starts from; its outcome is always set before it is returned.\<close>

definition new_result :: "string \<Rightarrow> ForecastRequest \<Rightarrow> ForecastResult" where
  "new_result schemaVersion req =
     \<lparr>fr_RawPayload = [], fr_Checksum = [], fr_HTTPStatusCode = 0, fr_LatencyMS = 0, fr_ProviderRequestID = [], fr_ModelRunTime = None,
      fr_SchemaVersion = schemaVersion, fr_AdapterVersion = ''1.0.0'', fr_IssuedAt = fq_IssuedAt req, fr_Snapshots = [],
      fr_RecordsReceived = 0, fr_InvalidCount = 0, fr_InvalidReasons = [], fr_UnmappedConditions = [], fr_RateLimit = None,
      fr_Outcome = OutcomeFailed, fr_ErrorCode = [], fr_Err = None\<rparr>"

text \<open>What both adapters copy from the transport: the exchange, then a failure.\<close>

definition set_exchange :: "Response \<Rightarrow> ForecastResult \<Rightarrow> ForecastResult" where
  "set_exchange resp result = result\<lparr>fr_HTTPStatusCode := rs_StatusCode resp, fr_LatencyMS := rs_LatencyMS resp, fr_RawPayload := rs_Body resp,
     fr_ProviderRequestID := rs_RequestID resp, fr_RateLimit := rs_RateLimit resp,
     fr_Checksum := (if rs_Body resp \<noteq> [] then Checksum (rs_Body resp) else fr_Checksum result)\<rparr>"

definition set_failure :: "ProviderError \<Rightarrow> ForecastResult \<Rightarrow> ForecastResult" where
  "set_failure ferr result = result\<lparr>fr_Outcome := ProviderError_Outcome ferr, fr_ErrorCode := ErrorCode_str (pe_Code ferr),
     fr_Err := Some (ProviderError_Error ferr), fr_RateLimit := (case fr_RateLimit result of None \<Rightarrow> pe_RateLimit ferr | Some r \<Rightarrow> Some r)\<rparr>"

definition stored_result :: "string \<Rightarrow> ForecastRequest \<Rightarrow> string \<Rightarrow> ForecastResult" where
  "stored_result schemaVersion req raw =
     (new_result schemaVersion req)\<lparr>fr_RawPayload := raw, fr_Checksum := (if raw \<noteq> [] then Checksum raw else [])\<rparr>"

section \<open>Open-Meteo\<close>

record om_hourly =
  oh_Time :: "string list"
  oh_Temperature2m :: "real option list"
  oh_ApparentTemperature :: "real option list"
  oh_PrecipitationProbability :: "real option list"
  oh_Precipitation :: "real option list"
  oh_RelativeHumidity2m :: "real option list"
  oh_WindSpeed10m :: "real option list"
  oh_WindDirection10m :: "real option list"
  oh_SurfacePressure :: "real option list"
  oh_CloudCover :: "real option list"
  oh_WeatherCode :: "int option list"

record om_response =
  om_Latitude :: real
  om_Longitude :: real
  om_Timezone :: string
  om_Hourly :: "om_hourly option"

definition om_snapshot :: "(real \<Rightarrow> real) \<Rightarrow> (nat \<Rightarrow> uuid) \<Rightarrow> om_hourly \<Rightarrow> ForecastRequest \<Rightarrow> nat \<Rightarrow> instant \<Rightarrow> ForecastSnapshot" where
  "om_snapshot fl ids h req i targetTime =
          \<lparr>fs_ID = ids i, fs_ForecastCollectionID = 0, fs_ProviderID = 0, fs_LocationID = 0, fs_IssuedAt = fq_IssuedAt req, fs_TargetTime = targetTime,
           fs_ForecastHorizonMinutes = trunc_int (Minutes fl (targetTime - fq_IssuedAt req)),
           fs_TemperatureC = at_index (oh_Temperature2m h) i, fs_FeelsLikeTemperatureC = at_index (oh_ApparentTemperature h) i,
           fs_PrecipitationProbability = pctToRatio fl (at_index (oh_PrecipitationProbability h) i),
           fs_PrecipitationAmountMM = at_index (oh_Precipitation h) i, fs_HumidityPct = at_index (oh_RelativeHumidity2m h) i,
           fs_WindSpeedMS = at_index (oh_WindSpeed10m h) i, fs_WindDirectionDeg = at_index (oh_WindDirection10m h) i,
           fs_PressureHPa = at_index (oh_SurfacePressure h) i, fs_CloudCoverPct = at_index (oh_CloudCover h) i,
           fs_ProviderConditionCode = [], fs_CanonicalConditionCode = [], fs_ConditionTaxonomyVersion = ''1'', fs_CreatedAt = zero_time\<rparr>"

definition om_buildSnapshot :: "om_response go_lib \<Rightarrow> (real \<Rightarrow> real) \<Rightarrow> (nat \<Rightarrow> uuid) \<Rightarrow> om_hourly \<Rightarrow> ForecastRequest \<Rightarrow> nat \<Rightarrow>
    (string, ForecastSnapshot \<times> string option) result" where
  "om_buildSnapshot lib fl ids h req i =
     (case parseTime lib (oh_Time h ! i) of
        None \<Rightarrow> Inl (''row '' @ itoa (int i) @ '': invalid target_time '' @ lib_Quote lib (oh_Time h ! i))
      | Some targetTime \<Rightarrow> Inr (set_condition om_mapCondition (at_index (oh_WeatherCode h) i)
          (om_snapshot fl ids h req i targetTime)))"

definition om_decompose :: "om_response go_lib \<Rightarrow> (real \<Rightarrow> real) \<Rightarrow> (nat \<Rightarrow> uuid) \<Rightarrow> string \<Rightarrow> ForecastRequest \<Rightarrow> ForecastResult \<Rightarrow> ForecastResult" where
  "om_decompose lib fl ids raw req result =
     (case lib_Unmarshal lib raw of
        Inl e \<Rightarrow> schema_drift [''payload is not valid JSON: '' @ e] result
      | Inr resp \<Rightarrow>
          (case om_Hourly resp of
             None \<Rightarrow> schema_drift [''required field hourly.time is missing or empty''] result
           | Some h \<Rightarrow>
               (if oh_Time h = [] then schema_drift [''required field hourly.time is missing or empty''] result
                else decompose_rows (lib_Fixed2 lib) (om_buildSnapshot lib fl ids h req) (length (oh_Time h)) result)))"

definition om_FetchForecast :: "om_response go_lib \<Rightarrow> (real \<Rightarrow> real) \<Rightarrow> (nat \<Rightarrow> uuid) \<Rightarrow> Response \<times> ProviderError option \<Rightarrow> ForecastRequest \<Rightarrow> ForecastResult" where
  "om_FetchForecast lib fl ids reply req =
     (let (resp, ferr) = reply; result = set_exchange resp (new_result ''openmeteo-v1'' req) in
      case ferr of Some e \<Rightarrow> set_failure e result | None \<Rightarrow> om_decompose lib fl ids (rs_Body resp) req result)"

definition om_DecodeStored :: "om_response go_lib \<Rightarrow> (real \<Rightarrow> real) \<Rightarrow> (nat \<Rightarrow> uuid) \<Rightarrow> ForecastRequest \<Rightarrow> string \<Rightarrow> ForecastResult" where
  "om_DecodeStored lib fl ids req raw = om_decompose lib fl ids raw req (stored_result ''openmeteo-v1'' req raw)"


section \<open>OpenWeather\<close>

record ow_item =
  it_Dt :: int
  it_Temp :: "real option"
  it_FeelsLike :: "real option"
  it_Pressure :: "real option"
  it_Humidity :: "real option"
  it_Clouds :: "real option"
  it_WindSpeed :: "real option"
  it_WindDeg :: "real option"
  it_Pop :: "real option"
  it_Rain :: "real option option"
  it_Snow :: "real option option"
  it_Weather :: "int option list"

record ow_response =
  ow_Lat :: real
  ow_Lon :: real
  ow_Hourly :: "ow_item option list"

definition precipMM :: "(real \<Rightarrow> real) \<Rightarrow> ow_item \<Rightarrow> real option" where
  "precipMM fl item =
     (let (total1, present1) = (case it_Rain item of Some (Some r) \<Rightarrow> (fadd fl 0 r, True) | _ \<Rightarrow> (0, False));
          (total2, present2) = (case it_Snow item of Some (Some s) \<Rightarrow> (fadd fl total1 s, True) | _ \<Rightarrow> (total1, present1))
      in if present2 then Some total2 else None)"

definition primaryConditionID :: "int option list \<Rightarrow> int option" where
  "primaryConditionID entries = (case find (\<lambda>e. e \<noteq> None) entries of Some e \<Rightarrow> e | None \<Rightarrow> None)"

definition ow_snapshot :: "(real \<Rightarrow> real) \<Rightarrow> (nat \<Rightarrow> uuid) \<Rightarrow> ow_item \<Rightarrow> ForecastRequest \<Rightarrow> nat \<Rightarrow> ForecastSnapshot" where
  "ow_snapshot fl ids item req i =
             \<lparr>fs_ID = ids i, fs_ForecastCollectionID = 0, fs_ProviderID = 0, fs_LocationID = 0, fs_IssuedAt = fq_IssuedAt req,
              fs_TargetTime = it_Dt item * Second, fs_ForecastHorizonMinutes = trunc_int (Minutes fl (it_Dt item * Second - fq_IssuedAt req)),
              fs_TemperatureC = it_Temp item, fs_FeelsLikeTemperatureC = it_FeelsLike item, fs_PrecipitationProbability = it_Pop item,
              fs_PrecipitationAmountMM = precipMM fl item, fs_HumidityPct = it_Humidity item, fs_WindSpeedMS = it_WindSpeed item,
              fs_WindDirectionDeg = it_WindDeg item, fs_PressureHPa = it_Pressure item, fs_CloudCoverPct = it_Clouds item,
              fs_ProviderConditionCode = [], fs_CanonicalConditionCode = [], fs_ConditionTaxonomyVersion = ''1'', fs_CreatedAt = zero_time\<rparr>"

definition ow_buildSnapshot :: "(real \<Rightarrow> real) \<Rightarrow> (nat \<Rightarrow> uuid) \<Rightarrow> ow_item option list \<Rightarrow> ForecastRequest \<Rightarrow> nat \<Rightarrow>
    (string, ForecastSnapshot \<times> string option) result" where
  "ow_buildSnapshot fl ids items req i =
     (case items ! i of
        None \<Rightarrow> Inl (''row '' @ itoa (int i) @ '': missing or invalid dt'')
      | Some item \<Rightarrow>
          (if it_Dt item \<le> 0 then Inl (''row '' @ itoa (int i) @ '': missing or invalid dt'')
           else Inr (set_condition ow_mapCondition (primaryConditionID (it_Weather item))
             (ow_snapshot fl ids item req i))))"

definition ow_decompose :: "ow_response go_lib \<Rightarrow> (real \<Rightarrow> real) \<Rightarrow> (nat \<Rightarrow> uuid) \<Rightarrow> string \<Rightarrow> ForecastRequest \<Rightarrow> ForecastResult \<Rightarrow> ForecastResult" where
  "ow_decompose lib fl ids raw req result =
     (case lib_Unmarshal lib raw of
        Inl e \<Rightarrow> schema_drift [''payload is not valid JSON: '' @ e] result
      | Inr resp \<Rightarrow>
          (if ow_Hourly resp = [] then schema_drift [''required field hourly is missing or empty''] result
           else decompose_rows (lib_Fixed2 lib) (ow_buildSnapshot fl ids (ow_Hourly resp) req) (length (ow_Hourly resp)) result))"

definition ow_received :: "ow_response go_lib \<Rightarrow> (real \<Rightarrow> real) \<Rightarrow> (nat \<Rightarrow> uuid) \<Rightarrow> Response \<times> ProviderError option \<Rightarrow> ForecastRequest \<Rightarrow> ForecastResult" where
  "ow_received lib fl ids reply req =
     (let (resp, ferr) = reply; result = set_exchange resp (new_result ''openweather-v1'' req) in
      case ferr of Some e \<Rightarrow> set_failure e result | None \<Rightarrow> ow_decompose lib fl ids (rs_Body resp) req result)"

text \<open>The transport of this adapter does not retry a 429.\<close>

definition ow_client :: "ClientConfig \<Rightarrow> Client" where
  "ow_client cfg = Client_New (cfg\<lparr>tg_RetryableOverride := Some (\<lambda>status d. if status = 429 then False else d)\<rparr>)"

definition ow_refused :: "duration \<Rightarrow> ForecastRequest \<Rightarrow> ForecastResult" where
  "ow_refused retryAfter req = (new_result ''openweather-v1'' req)\<lparr>fr_Outcome := OutcomeRateLimited, fr_ErrorCode := ErrorCode_str ErrRateLimited,
     fr_RateLimit := Some \<lparr>rl_Limit = 0, rl_Remaining = 0, rl_Reset = None, rl_RetryAfter = Some retryAfter\<rparr>,
     fr_Err := Some (ProviderError_Error (NewProviderError ErrRateLimited 0 True))\<rparr>"

text \<open>The budget after a reply: retries are debited, a 429 engages the pause. The clock is read again for each.\<close>

definition settle :: "instant \<Rightarrow> instant \<Rightarrow> Response \<times> ProviderError option \<Rightarrow> dailyBudget \<Rightarrow> dailyBudget" where
  "settle consumedAt pausedAt reply b =
     (let (resp, ferr) = reply;
          b1 = (if rs_Attempts resp > 1 then consume (int (rs_Attempts resp) - 1) consumedAt b else b)
      in case ferr of
           Some e \<Rightarrow> (if pe_Code e = ErrRateLimited
                      then pause pausedAt (case pe_RateLimit e of Some rl \<Rightarrow> (case rl_RetryAfter rl of Some d \<Rightarrow> d | None \<Rightarrow> 0) | None \<Rightarrow> 0) b1
                      else b1)
         | None \<Rightarrow> b1)"

record ow_world =
  wo_now :: instant
  wo_consumedAt :: instant
  wo_pausedAt :: instant
  wo_attempts :: "nat \<Rightarrow> attempt_world"
  wo_ids :: "nat \<Rightarrow> uuid"

definition ow_FetchForecast :: "ow_response go_lib \<Rightarrow> (real \<Rightarrow> real) \<Rightarrow> Client \<Rightarrow> ow_world \<Rightarrow> ForecastRequest \<Rightarrow> dailyBudget option \<Rightarrow>
    ForecastResult \<times> dailyBudget option" where
  "ow_FetchForecast lib fl c w req budget =
     (case budget of
        None \<Rightarrow> (ow_received lib fl (wo_ids w) (Client_Get c (wo_attempts w)) req, None)
      | Some b \<Rightarrow>
          (case reserve (wo_now w) b of
             ((False, retryAfter), b1) \<Rightarrow> (ow_refused retryAfter req, Some b1)
           | ((True, _), b1) \<Rightarrow>
               (let reply = Client_Get c (wo_attempts w)
                in (ow_received lib fl (wo_ids w) reply req, Some (settle (wo_consumedAt w) (wo_pausedAt w) reply b1)))))"

definition ow_DecodeStored :: "ow_response go_lib \<Rightarrow> (real \<Rightarrow> real) \<Rightarrow> (nat \<Rightarrow> uuid) \<Rightarrow> ForecastRequest \<Rightarrow> string \<Rightarrow> ForecastResult" where
  "ow_DecodeStored lib fl ids req raw = ow_decompose lib fl ids raw req (stored_result ''openweather-v1'' req raw)"


section \<open>Open-Meteo historical observations\<close>









section \<open>The row loop\<close>

text \<open>The snapshot row \<open>i\<close> contributes, if it can be built and is valid.\<close>

definition good_row :: "(nat \<Rightarrow> (string, ForecastSnapshot \<times> string option) result) \<Rightarrow> nat \<Rightarrow> ForecastSnapshot option" where
  "good_row row i = (case row i of Inl _ \<Rightarrow> None | Inr (s, _) \<Rightarrow> if Validate s = [] then Some s else None)"

lemma add_row_fields:
  "fr_Snapshots (add_row f i (row i) r) = fr_Snapshots r @ (case good_row row i of None \<Rightarrow> [] | Some s \<Rightarrow> [s])"
  "fr_InvalidCount (add_row f i (row i) r) = fr_InvalidCount r + (if good_row row i = None then 1 else 0)"
  "fr_RecordsReceived (add_row f i (row i) r) = fr_RecordsReceived r"
  "fr_RawPayload (add_row f i (row i) r) = fr_RawPayload r" "fr_Checksum (add_row f i (row i) r) = fr_Checksum r"
  "fr_ModelRunTime (add_row f i (row i) r) = fr_ModelRunTime r"
  by (simp_all add: add_row_def good_row_def Let_def split: sum.split prod.split option.split)

lemma fold_rows:
  fixes row f
  defines "loop \<equiv> \<lambda>is r. fold (\<lambda>i r. add_row f i (row i) r) is r"
  shows "fr_Snapshots (loop is r) = fr_Snapshots r @ List.map_filter (good_row row) is"
    "fr_InvalidCount (loop is r) = fr_InvalidCount r + int (length (filter (\<lambda>i. good_row row i = None) is))"
    "fr_RecordsReceived (loop is r) = fr_RecordsReceived r"
    "fr_RawPayload (loop is r) = fr_RawPayload r" "fr_Checksum (loop is r) = fr_Checksum r" "fr_ModelRunTime (loop is r) = fr_ModelRunTime r"
  unfolding loop_def by (induction "is" arbitrary: r) (auto simp: add_row_fields map_filter_simps split: option.split)

lemma length_map_filter: "length (List.map_filter g xs) + length (filter (\<lambda>x. g x = None) xs) = length xs"
  by (induction xs) (auto simp: map_filter_simps split: option.split)

lemma map_map_filter: "map h (List.map_filter g xs) = List.map_filter (map_option h \<circ> g) xs"
  by (induction xs) (auto simp: map_filter_simps split: option.split)

lemma classify_rows_fields:
  "fr_Snapshots (classify_rows n r) = fr_Snapshots r" "fr_InvalidCount (classify_rows n r) = fr_InvalidCount r"
  "fr_RecordsReceived (classify_rows n r) = fr_RecordsReceived r" "fr_RawPayload (classify_rows n r) = fr_RawPayload r"
  "fr_Checksum (classify_rows n r) = fr_Checksum r" "fr_ModelRunTime (classify_rows n r) = fr_ModelRunTime r"
  by (simp_all add: classify_rows_def schema_drift_def)

lemma usable_classify_rows: "usable (classify_rows n r) \<longleftrightarrow> 0 < n \<and> fr_InvalidCount r * 2 \<le> int n"
  by (auto simp: classify_rows_def schema_drift_def usable_def)

lemma decompose_rows_fields:
  fixes row n f r
  assumes "fr_Snapshots r = []" "fr_InvalidCount r = 0"
  defines "out \<equiv> decompose_rows f row n r"
  shows "fr_Snapshots out = List.map_filter (good_row row) [0..<n]"
    "fr_InvalidCount out = int (length (filter (\<lambda>i. good_row row i = None) [0..<n]))"
    "fr_RecordsReceived out = int n" "fr_RawPayload out = fr_RawPayload r" "fr_Checksum out = fr_Checksum r" "fr_ModelRunTime out = fr_ModelRunTime r"
    "usable out \<longleftrightarrow> 0 < n \<and> 2 * length (filter (\<lambda>i. good_row row i = None) [0..<n]) \<le> n"
  using assms(1,2) unfolding out_def decompose_rows_def
  by (simp_all add: classify_rows_fields usable_classify_rows fold_rows) linarith

lemma good_row_checks: "list_all snapshot_checks (List.map_filter (good_row row) xs)"
  by (induction xs) (auto simp: map_filter_simps good_row_def Validate_checks split: option.split sum.split prod.split if_splits)

lemma decompose_rows_ok: "fr_Snapshots r = [] \<Longrightarrow> fr_InvalidCount r = 0 \<Longrightarrow> result_ok (decompose_rows f row n r)"
  using length_map_filter [of "good_row row" "[0..<n]"] by (simp add: result_ok_def decompose_rows_fields good_row_checks)

text \<open>The identifiers of the stored rows are drawn from the sequence, each once.\<close>

lemma map_filter_ids:
  assumes "\<And>i s. good_row row i = Some s \<Longrightarrow> fs_ID s = ids i"
  shows "map fs_ID (List.map_filter (good_row row) xs) = map ids (filter (\<lambda>i. good_row row i \<noteq> None) xs)"
  using assms by (induction xs) (auto simp: map_filter_simps split: option.split)

lemma fresh_filter:
  assumes "fresh_ids ids 0 n S"
  shows "distinct (map ids (filter P [0..<n])) \<and> ids ` set (filter P [0..<n]) \<inter> S = {}"
  using assms by (auto simp: fresh_ids_def distinct_map inj_on_def)

text \<open>What the transport adds to a decoded result, and that decoding does not look at it.\<close>

definition set_meta :: "Response \<Rightarrow> ForecastResult \<Rightarrow> ForecastResult" where
  "set_meta resp r = r\<lparr>fr_HTTPStatusCode := rs_StatusCode resp, fr_LatencyMS := rs_LatencyMS resp,
     fr_ProviderRequestID := rs_RequestID resp, fr_RateLimit := rs_RateLimit resp\<rparr>"

lemma set_meta_fields [simp]:
  "fr_Snapshots (set_meta resp r) = fr_Snapshots r" "fr_InvalidCount (set_meta resp r) = fr_InvalidCount r"
  "fr_RecordsReceived (set_meta resp r) = fr_RecordsReceived r" "fr_RawPayload (set_meta resp r) = fr_RawPayload r"
  "fr_Checksum (set_meta resp r) = fr_Checksum r" "fr_ModelRunTime (set_meta resp r) = fr_ModelRunTime r" "usable (set_meta resp r) = usable r"
  "result_ok (set_meta resp r) = result_ok r"
  by (simp_all add: set_meta_def usable_def result_ok_def)

lemma schema_drift_meta: "schema_drift rs (set_meta resp r) = set_meta resp (schema_drift rs r)"
  by (simp add: schema_drift_def set_meta_def)

lemma decompose_rows_meta: "decompose_rows f row n (set_meta resp r) = set_meta resp (decompose_rows f row n r)"
proof -
  have a: "add_row f i x (set_meta resp r) = set_meta resp (add_row f i x r)" for i x r
    by (simp add: add_row_def set_meta_def Let_def split: sum.split prod.split option.split)
  have "fold (\<lambda>i r. add_row f i (row i) r) is (set_meta resp r) = set_meta resp (fold (\<lambda>i r. add_row f i (row i) r) is r)" for "is" r
    by (induction "is" arbitrary: r) (simp_all add: a)
  moreover have "classify_rows n (set_meta resp r) = set_meta resp (classify_rows n r)" for r
    by (simp add: classify_rows_def schema_drift_meta) (simp add: set_meta_def)
  moreover have "(set_meta resp r)\<lparr>fr_RecordsReceived := k\<rparr> = set_meta resp (r\<lparr>fr_RecordsReceived := k\<rparr>)" for k by (simp add: set_meta_def)
  ultimately show ?thesis by (simp add: decompose_rows_def)
qed

lemma exchange_meta: "set_exchange resp (new_result sv req) = set_meta resp (stored_result sv req (rs_Body resp))"
  by (simp add: set_exchange_def set_meta_def stored_result_def new_result_def)

lemma stored_result_fields [simp]:
  "fr_Snapshots (stored_result sv req raw) = []" "fr_InvalidCount (stored_result sv req raw) = 0" "fr_RecordsReceived (stored_result sv req raw) = 0"
  "fr_RawPayload (stored_result sv req raw) = raw" "raw \<noteq> [] \<Longrightarrow> fr_Checksum (stored_result sv req raw) = Checksum raw"
  "fr_ModelRunTime (stored_result sv req raw) = None"
  by (simp_all add: stored_result_def new_result_def)

lemma schema_drift_fields [simp]:
  "fr_Snapshots (schema_drift rs r) = fr_Snapshots r" "fr_InvalidCount (schema_drift rs r) = fr_InvalidCount r"
  "fr_RecordsReceived (schema_drift rs r) = fr_RecordsReceived r" "fr_RawPayload (schema_drift rs r) = fr_RawPayload r"
  "fr_Checksum (schema_drift rs r) = fr_Checksum r" "fr_ModelRunTime (schema_drift rs r) = fr_ModelRunTime r" "\<not> usable (schema_drift rs r)"
  by (simp_all add: schema_drift_def usable_def)

section \<open>The interface of a forecast adapter\<close>

text \<open>
  What the collection service relies on: \<open>decode\<close> derives a result from stored bytes, \<open>receive\<close> from a reply of the transport.
  A decoded result keeps its accounts and fits the table, draws its identifiers from the sequence, keeps the payload, and depends
  on the request only through the issue time; a received one is a decoded one with the metadata of the exchange.
\<close>

abbreviation period_key :: "ForecastSnapshot \<Rightarrow> instant \<times> instant" where
  "period_key s \<equiv> (fs_IssuedAt s, fs_TargetTime s)"

locale forecast_decoder =
  fixes decode :: "(nat \<Rightarrow> uuid) \<Rightarrow> ForecastRequest \<Rightarrow> string \<Rightarrow> ForecastResult"
    and receive :: "(nat \<Rightarrow> uuid) \<Rightarrow> Response \<times> ProviderError option \<Rightarrow> ForecastRequest \<Rightarrow> ForecastResult"
  assumes decode_ok: "result_ok (decode ids req raw)"
    and decode_ids: "fresh_ids ids 0 (nat (fr_RecordsReceived (decode ids req raw))) S \<Longrightarrow>
      distinct (map fs_ID (fr_Snapshots (decode ids req raw))) \<and> fs_ID ` set (fr_Snapshots (decode ids req raw)) \<inter> S = {}"
    and decode_payload: "fr_RawPayload (decode ids req raw) = raw" "raw \<noteq> [] \<Longrightarrow> fr_Checksum (decode ids req raw) = Checksum raw"
      "fr_ModelRunTime (decode ids req raw) = None"
    and decode_again: "fq_IssuedAt req' = fq_IssuedAt req \<Longrightarrow> usable (decode ids' req' raw) = usable (decode ids req raw) \<and>
      map period_key (fr_Snapshots (decode ids' req' raw)) = map period_key (fr_Snapshots (decode ids req raw))"
    and received: "receive ids (resp, None) req = set_meta resp (decode ids req (rs_Body resp))"
    and failed: "\<not> usable (receive ids (resp, Some e) req) \<and> fr_Snapshots (receive ids (resp, Some e) req) = []"
begin

text \<open>Every reply gives a result the service can store.\<close>

lemma receive_ok: "result_ok (receive ids reply req)"
proof (cases reply)
  case (Pair resp ferr)
  then show ?thesis using decode_ok failed [of ids resp _ req] by (cases ferr) (simp_all add: received result_ok_def)
qed

text \<open>A collection whose payload reached the disk can be replayed through the same adapter, at any later time, without storing
  a period twice.\<close>

lemma collect_then_replay:
  assumes act: "Active (pr_Status (in_Provider inp))" "Active (lo_Status (in_Location inp))" "Active (pc_Status (in_Config inp))"
    and circ: "CircuitService_Evaluate (pr_ID (in_Provider inp)) (cv_now env) (cd_circuits db) = (d, cs)" "Allowed d"
    and reply: "req = forecast_request cred inp (issued_at (cv_now env))" "usable (decode ids req (rs_Body resp))" "rs_Body resp \<noteq> []"
    and ids: "fresh_ids ids 0 (nat (fr_RecordsReceived (decode ids req (rs_Body resp)))) (fs_ID ` set (cd_snapshots db))"
      "cv_fresh env \<notin> fc_ID ` set (cd_collections db)" "cv_fresh env2 \<notin> insert (cv_fresh env) (fc_ID ` set (cd_collections db))"
    and new: "FindDedup (pr_ID (in_Provider inp)) (lo_ID (in_Location inp)) (issued_at (cv_now env)) db = None"
    and disk: "cv_disk env = DiskOK" "slug_ok (pr_Slug (in_Provider inp))" "dir \<noteq> ''/''"
    and time: "cv_now env \<le> cv_completedAt env" "cv_completedAt env \<le> cv_completedAt env2"
    and prov: "getProvider (pr_ID (in_Provider inp)) = Inr (in_Provider inp)"
  shows "\<exists>c evs db1. Collect [pr_Slug (in_Provider inp) \<mapsto> (\<lambda>q. Inr (receive ids (resp, None) q))] cred dir env inp db = ((Inr c, evs), db1) \<and>
    (\<exists>c2 evs2 db2. Replay getProvider [pr_Slug (in_Provider inp) \<mapsto> Some (\<lambda>q raw. Inr (decode ids2 q raw))] dir env2 actor (fc_ID c) db1 = ((Inr c2, evs2), db2) \<and>
        fc_Status c2 = StatusDeduplicated \<and> fc_SnapshotsStored c2 = 0 \<and> cd_collections db2 = cd_collections db1 @ [c2] \<and>
        cd_snapshots db2 = cd_snapshots db1 \<and> LatestForecast q l db2 = LatestForecast q l db1)"
proof -
  let ?t = "issued_at (cv_now env)" and ?db = "db\<lparr>cd_circuits := cs\<rparr>" and ?p = "in_Provider inp"
  define result where "result = receive ids (resp, None) req"
  have r: "usable result" "result_ok result" "fr_RawPayload result = rs_Body resp" "fr_Checksum result = Checksum (fr_RawPayload result)"
    "dedup_time ?t result = ?t" "fr_Snapshots result = fr_Snapshots (decode ids req (rs_Body resp))"
    using reply(2,3) by (simp_all add: result_def received decode_ok decode_payload dedup_time_def)
  have fr: "ids_fresh (fr_Snapshots result) ?db" using decode_ids [OF ids(1)] by (simp add: ids_fresh_def r(6))
  have fd: "FindDedup (pr_ID ?p) (lo_ID (in_Location inp)) (dedup_time ?t result) ?db = None" using new by (simp add: r(5)) (simp add: FindDedup_def)
  have e: "Collect [pr_Slug ?p \<mapsto> (\<lambda>q. Inr (receive ids (resp, None) q))] cred dir env inp db = collect_store dir env inp ?t result ?db"
    using act circ(2) fd by (simp add: Collect_def collect_admit_def circ(1) result_def [symmetric] reply(1) [symmetric] collect_record_def)
  have t: "?t \<le> cv_completedAt env" using issued_at_le [of "cv_now env"] time(1) by simp
  have fresh: "cv_fresh env \<notin> fc_ID ` set (cd_collections ?db)" using ids(2) by simp
  obtain c evs db1 where run: "collect_store dir env inp ?t result ?db = ((Inr c, evs), db1)" and c: "fc_RequestedAt c = ?t" "fc_ID c = cv_fresh env" "cd_collections db1 = cd_collections db @ [c]"
    using collect_store_commits [OF fresh t r(2) fr _ refl, where dir = dir and inp = inp] fd by auto
  define result2 where "result2 = decode ids2 (replay_request c ?p) (fr_RawPayload result)"
  have "fq_IssuedAt (replay_request c ?p) = fq_IssuedAt req" by (simp add: replay_request_def c(1) reply(1) forecast_request_def)
  note a = decode_again [OF this, of ids2 "rs_Body resp" ids, folded r(3), folded result2_def]
  have u: "usable result2" using a reply(2) by (simp add: r(3))
  have ch: "list_all snapshot_checks (fr_Snapshots result2)" using decode_ok by (simp add: result2_def result_ok_def)
  have "set (map period_key (fr_Snapshots result2)) = set (map period_key (fr_Snapshots result))" using a by (simp only: r(3,6))
  then have k: "period_key ` set (fr_Snapshots result2) \<subseteq> period_key ` set (fr_Snapshots result)" by simp
  have pl: "fr_RawPayload result \<noteq> []" using reply(3) by (simp add: r(3))
  have n: "cv_fresh env2 \<notin> fc_ID ` set (cd_collections db1)" using ids(3) by (simp add: c(2,3))
  have t2: "?t \<le> cv_completedAt env2" using t time(2) by simp
  have "\<exists>c2 evs2 db2. Replay getProvider [pr_Slug ?p \<mapsto> Some (\<lambda>q raw. Inr (decode ids2 q raw))] dir env2 actor (fc_ID c) db1 = ((Inr c2, evs2), db2) \<and>
        fc_Status c2 = StatusDeduplicated \<and> fc_SnapshotsStored c2 = 0 \<and> cd_collections db2 = cd_collections db1 @ [c2] \<and>
        cd_snapshots db2 = cd_snapshots db1 \<and> LatestForecast q l db2 = LatestForecast q l db1"
    by (rule Replay_round_trip [where adapters = "[pr_Slug ?p \<mapsto> Some (\<lambda>q raw. Inr (decode ids2 q raw))]" and p = ?p and getProvider = getProvider
        and decode = "\<lambda>q raw. Inr (decode ids2 q raw)", OF fresh t r(2) fr r(1) pl r(4) fd disk run refl prov _ _ u ch k n t2])
      (simp_all add: result2_def)
  then show ?thesis unfolding e run by blast
qed

end

text \<open>
  Both adapters are row decoders: they find a layout in the payload, the number of rows and how to build each, and run the row
  loop over it.
\<close>

type_synonym row_builder = "(nat \<Rightarrow> uuid) \<Rightarrow> ForecastRequest \<Rightarrow> nat \<Rightarrow> (string, ForecastSnapshot \<times> string option) result"

locale row_decoder =
  fixes decode :: "(nat \<Rightarrow> uuid) \<Rightarrow> ForecastRequest \<Rightarrow> string \<Rightarrow> ForecastResult"
    and receive :: "(nat \<Rightarrow> uuid) \<Rightarrow> Response \<times> ProviderError option \<Rightarrow> ForecastRequest \<Rightarrow> ForecastResult"
    and schemaVersion :: string and fixed2 :: "real \<Rightarrow> string" and layout :: "string \<Rightarrow> (string, nat \<times> row_builder) result"
  assumes decode_rows: "decode ids req raw = (case layout raw of
        Inl why \<Rightarrow> schema_drift [why] (stored_result schemaVersion req raw)
      | Inr (n, row) \<Rightarrow> decompose_rows fixed2 (row ids req) n (stored_result schemaVersion req raw))"
    and receive_rows: "receive ids (resp, None) req = (case layout (rs_Body resp) of
        Inl why \<Rightarrow> schema_drift [why] (set_exchange resp (new_result schemaVersion req))
      | Inr (n, row) \<Rightarrow> decompose_rows fixed2 (row ids req) n (set_exchange resp (new_result schemaVersion req)))"
    and receive_failed: "receive ids (resp, Some e) req = set_failure e (set_exchange resp (new_result schemaVersion req))"
    and row_ids: "layout raw = Inr (n, row) \<Longrightarrow> good_row (row ids req) i = Some s \<Longrightarrow> fs_ID s = ids i"
    and row_again: "layout raw = Inr (n, row) \<Longrightarrow> fq_IssuedAt req' = fq_IssuedAt req \<Longrightarrow>
      map_option period_key (good_row (row ids' req') i) = map_option period_key (good_row (row ids req) i)"

lemma ProviderError_unusable: "ProviderError_Outcome e \<noteq> OutcomeSuccess \<and> ProviderError_Outcome e \<noteq> OutcomePartial"
  by (simp add: ProviderError_Outcome_def split: ErrorCode.split)

sublocale row_decoder \<subseteq> forecast_decoder decode receive
proof
  fix ids ids' :: "nat \<Rightarrow> uuid" and req req' :: ForecastRequest and raw :: string and S resp e
  show "result_ok (decode ids req raw)"
  proof (cases "layout raw")
    case (Inl why)
    then show ?thesis by (simp add: decode_rows result_ok_def)
  next
    case (Inr x)
    then show ?thesis by (simp add: decode_rows decompose_rows_ok split: prod.split)
  qed
  show "fr_RawPayload (decode ids req raw) = raw" "raw \<noteq> [] \<Longrightarrow> fr_Checksum (decode ids req raw) = Checksum raw" "fr_ModelRunTime (decode ids req raw) = None"
    by (auto simp: decode_rows decompose_rows_fields split: sum.split)
  show "receive ids (resp, None) req = set_meta resp (decode ids req (rs_Body resp))"
    by (auto simp: decode_rows receive_rows exchange_meta schema_drift_meta decompose_rows_meta split: sum.split)
  show "\<not> usable (receive ids (resp, Some e) req) \<and> fr_Snapshots (receive ids (resp, Some e) req) = []"
    using ProviderError_unusable [of e] by (simp add: receive_failed set_failure_def usable_def set_exchange_def new_result_def)
  show "distinct (map fs_ID (fr_Snapshots (decode ids req raw))) \<and> fs_ID ` set (fr_Snapshots (decode ids req raw)) \<inter> S = {}"
    if fresh: "fresh_ids ids 0 (nat (fr_RecordsReceived (decode ids req raw))) S"
  proof (cases "layout raw")
    case (Inr x)
    then obtain n row where l: "layout raw = Inr (n, row)" by (cases x) simp
    have "map fs_ID (fr_Snapshots (decode ids req raw)) = map ids (filter (\<lambda>i. good_row (row ids req) i \<noteq> None) [0..<n])"
      using map_filter_ids [of "row ids req" ids "[0..<n]", OF row_ids [OF l, of ids req]] by (simp add: decode_rows l decompose_rows_fields)
    moreover from this have "fs_ID ` set (fr_Snapshots (decode ids req raw)) = ids ` set (filter (\<lambda>i. good_row (row ids req) i \<noteq> None) [0..<n])"
      by (metis list.set_map)
    moreover have "fresh_ids ids 0 n S" using fresh by (simp add: decode_rows l decompose_rows_fields)
    ultimately show ?thesis using fresh_filter [of ids n S] by (simp only:)
  qed (simp add: decode_rows)
  show "usable (decode ids' req' raw) = usable (decode ids req raw) \<and>
      map period_key (fr_Snapshots (decode ids' req' raw)) = map period_key (fr_Snapshots (decode ids req raw))"
    if same: "fq_IssuedAt req' = fq_IssuedAt req"
  proof (cases "layout raw")
    case (Inr x)
    then obtain n row where l: "layout raw = Inr (n, row)" by (cases x) simp
    note a = row_again [OF l same]
    have "(good_row (row ids' req') i = None) = (good_row (row ids req) i = None)" for i
      using arg_cong [OF a [of ids' i ids], of "\<lambda>x. x = None"] by simp
    moreover have "map_option period_key \<circ> good_row (row ids' req') = map_option period_key \<circ> good_row (row ids req)" using a by (auto simp: fun_eq_iff)
    ultimately show ?thesis by (simp add: decode_rows l decompose_rows_fields map_map_filter)
  qed (simp add: decode_rows)
qed

section \<open>The adapters implement the interface\<close>

definition om_layout :: "om_response go_lib \<Rightarrow> (real \<Rightarrow> real) \<Rightarrow> string \<Rightarrow> (string, nat \<times> row_builder) result" where
  "om_layout lib fl raw =
     (case lib_Unmarshal lib raw of Inl e \<Rightarrow> Inl (''payload is not valid JSON: '' @ e)
      | Inr resp \<Rightarrow> (case om_Hourly resp of None \<Rightarrow> Inl ''required field hourly.time is missing or empty''
          | Some h \<Rightarrow> if oh_Time h = [] then Inl ''required field hourly.time is missing or empty''
              else Inr (length (oh_Time h), \<lambda>ids req. om_buildSnapshot lib fl ids h req)))"

definition ow_layout :: "ow_response go_lib \<Rightarrow> (real \<Rightarrow> real) \<Rightarrow> string \<Rightarrow> (string, nat \<times> row_builder) result" where
  "ow_layout lib fl raw =
     (case lib_Unmarshal lib raw of Inl e \<Rightarrow> Inl (''payload is not valid JSON: '' @ e)
      | Inr resp \<Rightarrow> if ow_Hourly resp = [] then Inl ''required field hourly is missing or empty''
          else Inr (length (ow_Hourly resp), \<lambda>ids req. ow_buildSnapshot fl ids (ow_Hourly resp) req))"

lemma set_condition_fields [simp]:
  "fs_ID (fst (set_condition m c s)) = fs_ID s" "period_key (fst (set_condition m c s)) = period_key s"
  "Validate (fst (set_condition m c s)) = Validate s"
  by (cases c; simp add: set_condition_def Validate_def)+

text \<open>A row depends on the sequence of identifiers only in its own identifier.\<close>

lemma good_row_renamed:
  assumes "row' i = map_sum id (apfst (fs_ID_update (\<lambda>_. x))) (row i)"
  shows "map_option period_key (good_row row' i) = map_option period_key (good_row row i)"
proof (cases "row i")
  case (Inr y)
  have "Validate (s\<lparr>fs_ID := x\<rparr>) = Validate s" for s by (simp add: Validate_def)
  then show ?thesis using Inr assms by (cases y) (simp add: good_row_def)
qed (simp add: good_row_def assms)

lemma good_row_id: "row i = Inr (set_condition m c s) \<Longrightarrow> good_row row i = Some s' \<Longrightarrow> fs_ID s' = fs_ID s"
  using set_condition_fields(1) [of m c s] by (cases "set_condition m c s") (auto simp: good_row_def split: if_splits)

lemma set_condition_renamed: "set_condition m c (s\<lparr>fs_ID := x\<rparr>) = apfst (fs_ID_update (\<lambda>_. x)) (set_condition m c s)"
  by (simp add: set_condition_def split: option.split)

lemma om_row:
  "fq_IssuedAt req' = fq_IssuedAt req \<Longrightarrow>
     om_buildSnapshot lib fl ids' h req' i = map_sum id (apfst (fs_ID_update (\<lambda>_. ids' i))) (om_buildSnapshot lib fl ids h req i)"
  "good_row (om_buildSnapshot lib fl ids h req) i = Some s \<Longrightarrow> fs_ID s = ids i"
proof -
  assume "fq_IssuedAt req' = fq_IssuedAt req"
  then have "om_snapshot fl ids' h req' i t = (om_snapshot fl ids h req i t)\<lparr>fs_ID := ids' i\<rparr>" for t by (simp add: om_snapshot_def)
  then show "om_buildSnapshot lib fl ids' h req' i = map_sum id (apfst (fs_ID_update (\<lambda>_. ids' i))) (om_buildSnapshot lib fl ids h req i)"
    by (simp add: om_buildSnapshot_def set_condition_renamed split: option.split)
next
  assume g: "good_row (om_buildSnapshot lib fl ids h req) i = Some s"
  show "fs_ID s = ids i"
  proof (cases "parseTime lib (oh_Time h ! i)")
    case None
    with g show ?thesis by (simp add: good_row_def om_buildSnapshot_def)
  next
    case (Some t)
    then have "om_buildSnapshot lib fl ids h req i = Inr (set_condition om_mapCondition (at_index (oh_WeatherCode h) i) (om_snapshot fl ids h req i t))"
      by (simp add: om_buildSnapshot_def)
    from good_row_id [OF this g] show ?thesis by (simp add: om_snapshot_def)
  qed
qed

lemma ow_row:
  "fq_IssuedAt req' = fq_IssuedAt req \<Longrightarrow>
     ow_buildSnapshot fl ids' items req' i = map_sum id (apfst (fs_ID_update (\<lambda>_. ids' i))) (ow_buildSnapshot fl ids items req i)"
  "good_row (ow_buildSnapshot fl ids items req) i = Some s \<Longrightarrow> fs_ID s = ids i"
proof -
  assume "fq_IssuedAt req' = fq_IssuedAt req"
  then have "ow_snapshot fl ids' item req' i = (ow_snapshot fl ids item req i)\<lparr>fs_ID := ids' i\<rparr>" for item by (simp add: ow_snapshot_def)
  then show "ow_buildSnapshot fl ids' items req' i = map_sum id (apfst (fs_ID_update (\<lambda>_. ids' i))) (ow_buildSnapshot fl ids items req i)"
    by (simp add: ow_buildSnapshot_def set_condition_renamed split: option.split)
next
  assume g: "good_row (ow_buildSnapshot fl ids items req) i = Some s"
  show "fs_ID s = ids i"
  proof (cases "\<exists>item. items ! i = Some item \<and> \<not> it_Dt item \<le> 0")
    case False
    with g show ?thesis by (auto simp: good_row_def ow_buildSnapshot_def split: option.splits if_splits)
  next
    case True
    then obtain item where "ow_buildSnapshot fl ids items req i =
        Inr (set_condition ow_mapCondition (primaryConditionID (it_Weather item)) (ow_snapshot fl ids item req i))"
      by (auto simp: ow_buildSnapshot_def)
    from good_row_id [OF this g] show ?thesis by (simp add: ow_snapshot_def)
  qed
qed

interpretation om: row_decoder "om_DecodeStored lib fl" "om_FetchForecast lib fl" "''openmeteo-v1''" "lib_Fixed2 lib" "om_layout lib fl" for lib fl
proof
  fix ids ids' req req' raw n row i s and resp e
  show "om_DecodeStored lib fl ids req raw = (case om_layout lib fl raw of
        Inl why \<Rightarrow> schema_drift [why] (stored_result ''openmeteo-v1'' req raw)
      | Inr (n, row) \<Rightarrow> decompose_rows (lib_Fixed2 lib) (row ids req) n (stored_result ''openmeteo-v1'' req raw))"
    by (simp add: om_DecodeStored_def om_decompose_def om_layout_def split: sum.split option.split)
  show "om_FetchForecast lib fl ids (resp, None) req = (case om_layout lib fl (rs_Body resp) of
        Inl why \<Rightarrow> schema_drift [why] (set_exchange resp (new_result ''openmeteo-v1'' req))
      | Inr (n, row) \<Rightarrow> decompose_rows (lib_Fixed2 lib) (row ids req) n (set_exchange resp (new_result ''openmeteo-v1'' req)))"
    "om_FetchForecast lib fl ids (resp, Some e) req = set_failure e (set_exchange resp (new_result ''openmeteo-v1'' req))"
    by (simp_all add: om_FetchForecast_def om_decompose_def om_layout_def Let_def split: sum.split option.split)
  assume l: "om_layout lib fl raw = Inr (n, row)"
  then obtain h where r: "row = (\<lambda>ids req. om_buildSnapshot lib fl ids h req)" by (auto simp: om_layout_def split: sum.splits option.splits if_splits)
  show "good_row (row ids req) i = Some s \<Longrightarrow> fs_ID s = ids i" by (simp add: r om_row(2))
  show "fq_IssuedAt req' = fq_IssuedAt req \<Longrightarrow> map_option period_key (good_row (row ids' req') i) = map_option period_key (good_row (row ids req) i)"
    unfolding r by (rule good_row_renamed) (rule om_row(1))
qed

interpretation ow: row_decoder "ow_DecodeStored lib fl" "ow_received lib fl" "''openweather-v1''" "lib_Fixed2 lib" "ow_layout lib fl" for lib fl
proof
  fix ids ids' req req' raw n row i s and resp e
  show "ow_DecodeStored lib fl ids req raw = (case ow_layout lib fl raw of
        Inl why \<Rightarrow> schema_drift [why] (stored_result ''openweather-v1'' req raw)
      | Inr (n, row) \<Rightarrow> decompose_rows (lib_Fixed2 lib) (row ids req) n (stored_result ''openweather-v1'' req raw))"
    by (simp add: ow_DecodeStored_def ow_decompose_def ow_layout_def split: sum.split)
  show "ow_received lib fl ids (resp, None) req = (case ow_layout lib fl (rs_Body resp) of
        Inl why \<Rightarrow> schema_drift [why] (set_exchange resp (new_result ''openweather-v1'' req))
      | Inr (n, row) \<Rightarrow> decompose_rows (lib_Fixed2 lib) (row ids req) n (set_exchange resp (new_result ''openweather-v1'' req)))"
    "ow_received lib fl ids (resp, Some e) req = set_failure e (set_exchange resp (new_result ''openweather-v1'' req))"
    by (simp_all add: ow_received_def ow_decompose_def ow_layout_def Let_def split: sum.split)
  assume l: "ow_layout lib fl raw = Inr (n, row)"
  then obtain items where r: "row = (\<lambda>ids req. ow_buildSnapshot fl ids items req)" by (auto simp: ow_layout_def split: sum.splits if_splits)
  show "good_row (row ids req) i = Some s \<Longrightarrow> fs_ID s = ids i" by (simp add: r ow_row(2))
  show "fq_IssuedAt req' = fq_IssuedAt req \<Longrightarrow> map_option period_key (good_row (row ids' req') i) = map_option period_key (good_row (row ids req) i)"
    unfolding r by (rule good_row_renamed) (rule ow_row(1))
qed

section \<open>Collecting through Open-Meteo and replaying\<close>

text \<open>C7. End to end through Open-Meteo: a collection admitted by the service whose reply decodes to a usable forecast is stored with its
  payload, and replaying it later, decoded anew with other identifiers, finds and verifies the payload, records one duplicate, adds
  no snapshot and leaves the latest forecast of every provider and location as it was.\<close>

theorem openmeteo_collect_then_replay:
  assumes act: "Active (pr_Status (in_Provider inp))" "Active (lo_Status (in_Location inp))" "Active (pc_Status (in_Config inp))"
    and circ: "CircuitService_Evaluate (pr_ID (in_Provider inp)) (cv_now env) (cd_circuits db) = (d, cs)" "Allowed d"
    and reply: "req = forecast_request cred inp (issued_at (cv_now env))" "usable (om_DecodeStored lib fl ids req (rs_Body resp))" "rs_Body resp \<noteq> []"
    and ids: "fresh_ids ids 0 (nat (fr_RecordsReceived (om_DecodeStored lib fl ids req (rs_Body resp)))) (fs_ID ` set (cd_snapshots db))"
      "cv_fresh env \<notin> fc_ID ` set (cd_collections db)" "cv_fresh env2 \<notin> insert (cv_fresh env) (fc_ID ` set (cd_collections db))"
    and new: "FindDedup (pr_ID (in_Provider inp)) (lo_ID (in_Location inp)) (issued_at (cv_now env)) db = None"
    and disk: "cv_disk env = DiskOK" "slug_ok (pr_Slug (in_Provider inp))" "dir \<noteq> ''/''"
    and time: "cv_now env \<le> cv_completedAt env" "cv_completedAt env \<le> cv_completedAt env2"
    and prov: "getProvider (pr_ID (in_Provider inp)) = Inr (in_Provider inp)"
  shows "\<exists>c evs db1. Collect [pr_Slug (in_Provider inp) \<mapsto> (\<lambda>q. Inr (om_FetchForecast lib fl ids (resp, None) q))] cred dir env inp db = ((Inr c, evs), db1) \<and>
    (\<exists>c2 evs2 db2. Replay getProvider [pr_Slug (in_Provider inp) \<mapsto> Some (\<lambda>q raw. Inr (om_DecodeStored lib fl idsR q raw))] dir env2 actor (fc_ID c) db1 =
          ((Inr c2, evs2), db2) \<and>
        fc_Status c2 = StatusDeduplicated \<and> fc_SnapshotsStored c2 = 0 \<and> cd_collections db2 = cd_collections db1 @ [c2] \<and>
        cd_snapshots db2 = cd_snapshots db1 \<and> LatestForecast q l db2 = LatestForecast q l db1)"
  by (rule om.collect_then_replay [where getProvider = getProvider, OF assms])

definition sample_hourly :: om_hourly where
  "sample_hourly = \<lparr>oh_Time = [''1970-01-01T00:00''], oh_Temperature2m = [Some 18], oh_ApparentTemperature = [], oh_PrecipitationProbability = [Some 40],
     oh_Precipitation = [], oh_RelativeHumidity2m = [], oh_WindSpeed10m = [], oh_WindDirection10m = [], oh_SurfacePressure = [], oh_CloudCover = [],
     oh_WeatherCode = [Some 61]\<rparr>"

definition sample_lib :: "om_response go_lib" where
  "sample_lib = \<lparr>lib_Unmarshal = (\<lambda>_. Inr \<lparr>om_Latitude = 0, om_Longitude = 0, om_Timezone = ''UTC'', om_Hourly = Some sample_hourly\<rparr>),
     lib_ParseRFC3339 = (\<lambda>_. None), lib_ParseHour = (\<lambda>_. Some 0), lib_Quote = (\<lambda>s. s), lib_Fixed2 = (\<lambda>_. [])\<rparr>"

definition sample_response :: Response where
  "sample_response = \<lparr>rs_Body = ''{}'', rs_StatusCode = 200, rs_LatencyMS = 1, rs_Attempts = 1, rs_RequestID = [], rs_RateLimit = None\<rparr>"

lemma sample_decoded:
  assumes "fq_IssuedAt req = - Hour"
  shows "usable (om_DecodeStored sample_lib exact ids req raw)" "fr_RecordsReceived (om_DecodeStored sample_lib exact ids req raw) = 1"
proof -
  have "Minutes exact Hour = 60" by (simp add: Minutes_def Let_def exact_def)
  then have "Validate (om_snapshot exact ids sample_hourly req 0 0) = []"
    unfolding Validate_Nil_iff by (simp add: om_snapshot_def sample_hourly_def at_index_def pctToRatio_def outside_def trunc_int_def assms)
  moreover have "om_buildSnapshot sample_lib exact ids sample_hourly req 0 =
      Inr (set_condition om_mapCondition (at_index (oh_WeatherCode sample_hourly) 0) (om_snapshot exact ids sample_hourly req 0 0))"
    by (simp add: om_buildSnapshot_def sample_lib_def parseTime_def)
  ultimately have g: "good_row (om_buildSnapshot sample_lib exact ids sample_hourly req) 0 \<noteq> None"
    using set_condition_fields(3) [of om_mapCondition "at_index (oh_WeatherCode sample_hourly) 0" "om_snapshot exact ids sample_hourly req 0 0"]
    by (cases "set_condition om_mapCondition (at_index (oh_WeatherCode sample_hourly) 0) (om_snapshot exact ids sample_hourly req 0 0)") (simp add: good_row_def)
  have "length (oh_Time sample_hourly) = 1" by (simp add: sample_hourly_def)
  then have "om_DecodeStored sample_lib exact ids req raw =
      decompose_rows (lib_Fixed2 sample_lib) (om_buildSnapshot sample_lib exact ids sample_hourly req) 1 (stored_result ''openmeteo-v1'' req raw)"
    by (auto simp: om_DecodeStored_def om_decompose_def sample_lib_def)
  then show "usable (om_DecodeStored sample_lib exact ids req raw)" "fr_RecordsReceived (om_DecodeStored sample_lib exact ids req raw) = 1"
    using g by (simp_all add: decompose_rows_fields)
qed

theorem openmeteo_collect_then_replay_witness:
  "\<exists>c evs db1 c2 evs2 db2.
     Collect [''open-meteo'' \<mapsto> (\<lambda>q. Inr (om_FetchForecast sample_lib exact (\<lambda>i. of_nat i + 21) (sample_response, None) q))] id ''/data'' (sample_env 11)
       sample_input_coll empty_coll = ((Inr c, evs), db1) \<and>
     Replay (\<lambda>_. Inr sample_provider) [''open-meteo'' \<mapsto> Some (\<lambda>q raw. Inr (om_DecodeStored sample_lib exact (\<lambda>i. of_nat i + 31) q raw))] ''/data'' (sample_env 12)
       (in_Actor sample_input_coll) (fc_ID c) db1 = ((Inr c2, evs2), db2) \<and> fc_SnapshotsStored c2 = 0"
proof -
  let ?inp = sample_input_coll and ?env = "sample_env 11" and ?db = empty_coll
  have i: "in_Provider ?inp = sample_provider" "pr_Slug sample_provider = ''open-meteo''" "cv_now ?env = 0" "issued_at 0 = - Hour"
    by (simp_all add: sample_input_coll_def sample_provider_def sample_env_def issued_at_def Truncate_def)
  have act: "Active (pr_Status (in_Provider ?inp))" "Active (lo_Status (in_Location ?inp))" "Active (pc_Status (in_Config ?inp))"
    by (simp_all add: sample_input_coll_def sample_provider_def loc_a_def Active_def)
  obtain d cs where ev: "CircuitService_Evaluate (pr_ID (in_Provider ?inp)) (cv_now ?env) (cd_circuits ?db) = (d, cs)" "Allowed d"
    by (simp add: ops NewProviderCircuit_def empty_coll_def)
  have iss: "fq_IssuedAt (forecast_request id ?inp (issued_at (cv_now ?env))) = - Hour" by (simp add: forecast_request_def i)
  have ids: "fresh_ids (\<lambda>i. of_nat i + 21) 0 (nat (fr_RecordsReceived (om_DecodeStored sample_lib exact (\<lambda>i. of_nat i + 21)
      (forecast_request id ?inp (issued_at (cv_now ?env))) (rs_Body sample_response)))) (fs_ID ` set (cd_snapshots ?db))"
    by (simp add: sample_decoded(2) [OF iss] fresh_ids_def empty_coll_def)
  have h: "rs_Body sample_response \<noteq> []" "cv_fresh ?env \<notin> fc_ID ` set (cd_collections ?db)" "cv_fresh (sample_env 12) \<notin> insert (cv_fresh ?env) (fc_ID ` set (cd_collections ?db))"
    "FindDedup (pr_ID (in_Provider ?inp)) (lo_ID (in_Location ?inp)) (issued_at (cv_now ?env)) ?db = None"
    "cv_disk ?env = DiskOK" "slug_ok (pr_Slug (in_Provider ?inp))" "''/data'' \<noteq> ''/''" "cv_now ?env \<le> cv_completedAt ?env"
    "cv_completedAt ?env \<le> cv_completedAt (sample_env 12)"
    by (simp_all add: sample_response_def empty_coll_def FindDedup_def sample_env_def i slug_ok_def)
  have gp: "(\<lambda>_. Inr sample_provider :: (coll_error, Provider) result) (pr_ID (in_Provider ?inp)) = Inr (in_Provider ?inp)" by (simp add: i)
  from openmeteo_collect_then_replay [where getProvider = "\<lambda>_. Inr sample_provider" and idsR = "\<lambda>i. of_nat i + 31" and actor = "in_Actor ?inp",
      OF act ev refl sample_decoded(1) [OF iss] h(1) ids h(2-9) gp]
  show ?thesis unfolding i(1,2) by blast
qed

section \<open>The OpenWeather call budget\<close>

text \<open>The upstream requests of a sequence of fetches, each with the time it was admitted.\<close>

fun fetch_calls :: "ow_response go_lib \<Rightarrow> (real \<Rightarrow> real) \<Rightarrow> Client \<Rightarrow> (ow_world \<times> ForecastRequest) list \<Rightarrow> dailyBudget \<Rightarrow> (instant \<times> nat) list" where
  "fetch_calls lib fl c [] b = []"
| "fetch_calls lib fl c ((w, req) # ws) b =
     (wo_now w, if fst (fst (reserve (wo_now w) b)) then rs_Attempts (fst (Client_Get c (wo_attempts w))) else 0) #
     fetch_calls lib fl c ws (the (snd (ow_FetchForecast lib fl c w req (Some b))))"

fun in_order :: "instant \<Rightarrow> (ow_world \<times> ForecastRequest) list \<Rightarrow> bool" where
  "in_order t [] \<longleftrightarrow> True"
| "in_order t ((w, req) # ws) \<longleftrightarrow> t \<le> wo_now w \<and> wo_now w \<le> wo_consumedAt w \<and> wo_consumedAt w \<le> wo_pausedAt w \<and> in_order (wo_pausedAt w) ws"

definition calls_on :: "instant \<Rightarrow> (instant \<times> nat) list \<Rightarrow> nat" where
  "calls_on day calls = sum_list (map snd (filter (\<lambda>(t, n). utcDay t = day) calls))"

lemma Client_Get_attempts: "0 < tc_maxAttempts c \<Longrightarrow> rs_Attempts (fst (Client_Get c w)) \<le> tc_maxAttempts c"
  using get_loop_outcome [of c w 0 "tc_maxAttempts c" Response0 None "fst (Client_Get c w)" "snd (Client_Get c w)"]
  by (simp add: Client_Get_def Response0_def)

text \<open>What a fetch leaves of the budget of its day.\<close>

lemma settle_frame:
  fixes reply b ct pt
  defines "b' \<equiv> settle ct pt reply b" and "m \<equiv> int (rs_Attempts (fst reply))"
  assumes "budget_ok b" "bg_day b \<le> utcDay ct" "ct \<le> pt"
  shows "budget_ok b'" "bg_max b' = bg_max b" "bg_day b \<le> bg_day b'" "bg_day b' \<le> utcDay pt"
    "bg_day b' = bg_day b \<Longrightarrow> min (bg_max b) (bg_used b + (m - 1)) \<le> bg_used b'"
proof -
  obtain resp ferr where r: "reply = (resp, ferr)" by (cases reply)
  define b1 where "b1 = (if rs_Attempts resp > 1 then consume (int (rs_Attempts resp) - 1) ct b else b)"
  have d: "utcDay ct \<le> utcDay pt" using utcDay_mono [OF assms(5)] .
  have 1: "budget_ok b1" "bg_max b1 = bg_max b" "bg_day b \<le> bg_day b1" "bg_day b1 \<le> utcDay ct"
    "bg_day b1 = bg_day b \<Longrightarrow> min (bg_max b) (bg_used b + (m - 1)) \<le> bg_used b1"
    using budget_ops_ok(3) [OF assms(3)] rollover_day [OF assms(4)] assms(3,4)
    by (auto simp: b1_def consume_frame rollover_used m_def r budget_ok_def)
  have "b' = b1 \<or> (\<exists>d. b' = pause pt d b1)" by (auto simp: b'_def settle_def r Let_def b1_def split: option.split)
  moreover have "bg_day b1 \<le> utcDay pt" using 1(4) d by simp
  note p = rollover_day [OF this] budget_ops_ok(2) [OF 1(1)]
  have "budget_ok b' \<and> bg_max b' = bg_max b \<and> bg_day b \<le> bg_day b' \<and> bg_day b' \<le> utcDay pt \<and>
      (bg_day b' = bg_day b \<longrightarrow> min (bg_max b) (bg_used b + (m - 1)) \<le> bg_used b')"
    using calculation 1 d p by (auto simp: pause_frame rollover_used)
  then show "budget_ok b'" "bg_max b' = bg_max b" "bg_day b \<le> bg_day b'" "bg_day b' \<le> utcDay pt"
    "bg_day b' = bg_day b \<Longrightarrow> min (bg_max b) (bg_used b + (m - 1)) \<le> bg_used b'" by blast+
qed

text \<open>The requests a day can still see, from a state of the budget.\<close>

definition day_cap :: "nat \<Rightarrow> instant \<Rightarrow> dailyBudget \<Rightarrow> int" where
  "day_cap k day b =
     (if day < bg_day b then 0
      else if day = bg_day b then (if bg_used b < bg_max b then bg_max b - 1 - bg_used b + int k else 0)
      else bg_max b - 1 + int k)"

lemma day_cap_bounds: "budget_ok b \<Longrightarrow> 0 < bg_max b \<Longrightarrow> 0 \<le> day_cap k day b \<and> day_cap k day b \<le> bg_max b - 1 + int k"
  by (auto simp: day_cap_def budget_ok_def)

lemma day_cap_rollover: "bg_day b \<le> utcDay t \<Longrightarrow> 0 < bg_max b \<Longrightarrow> utcDay t \<le> day \<Longrightarrow> day_cap k day (rollover t b) = day_cap k day b"
  by (auto simp: day_cap_def rollover_def Let_def)

lemma fetch_step:
  fixes w b lib fl c req
  defines "granted \<equiv> fst (fst (reserve (wo_now w) b))" and "b' \<equiv> the (snd (ow_FetchForecast lib fl c w req (Some b)))"
    and "m \<equiv> rs_Attempts (fst (Client_Get c (wo_attempts w)))"
  assumes ok: "budget_ok b" "0 < bg_max b" "bg_day b \<le> utcDay (wo_now w)" "0 < tc_maxAttempts c"
    and time: "wo_now w \<le> wo_consumedAt w" "wo_consumedAt w \<le> wo_pausedAt w"
  shows "budget_ok b'" "bg_max b' = bg_max b" "bg_day b' \<le> utcDay (wo_pausedAt w)"
    "(if utcDay (wo_now w) = day \<and> granted then int m else 0) + day_cap (tc_maxAttempts c) day b' \<le> day_cap (tc_maxAttempts c) day b"
proof -
  let ?A = "tc_maxAttempts c" and ?D = "utcDay (wo_now w)"
  obtain r b1 where res: "reserve (wo_now w) b = (r, b1)" by (cases "reserve (wo_now w) b")
  note f = reserve_frame [OF res]
  have ok1: "budget_ok b1" using budget_ops_ok(1) [OF ok(1), of "wo_now w"] by (simp add: res)
  have day1: "bg_day b1 = ?D" using f(2) rollover_day [OF ok(3)] by simp
  have dc: "?D \<le> utcDay (wo_consumedAt w)" "utcDay (wo_consumedAt w) \<le> utcDay (wo_pausedAt w)" using utcDay_mono time by auto
  have cap: "?D \<le> day \<Longrightarrow> day_cap ?A day b = day_cap ?A day (rollover (wo_now w) b)" using day_cap_rollover [OF ok(3,2)] by simp
  have rd: "bg_day (rollover (wo_now w) b) = ?D" using rollover_day [OF ok(3)] .
  have "budget_ok b' \<and> bg_max b' = bg_max b \<and> bg_day b' \<le> utcDay (wo_pausedAt w) \<and> ?D \<le> bg_day b' \<and>
    (if utcDay (wo_now w) = day \<and> granted then int m else 0) + day_cap ?A day b' \<le> day_cap ?A day b"
  proof (cases "fst r")
    case False
    then have b': "b' = b1" and g: "\<not> granted" by (cases r; simp add: b'_def granted_def ow_FetchForecast_def res)+
    have u: "bg_used b1 = bg_used (rollover (wo_now w) b)" using f(4) False by simp
    have "day_cap ?A day b1 \<le> day_cap ?A day b"
    proof (cases "?D \<le> day")
      case True
      then show ?thesis unfolding cap [OF True] by (simp add: day_cap_def day1 rd u f(1))
    next
      case False
      then show ?thesis using day_cap_bounds [OF ok(1,2), of ?A day] by (simp add: day_cap_def [of _ _ b1] day1)
    qed
    then show ?thesis using ok1 f(1) day1 dc g by (simp add: b')
  next
    case True
    let ?reply = "Client_Get c (wo_attempts w)"
    have b': "b' = settle (wo_consumedAt w) (wo_pausedAt w) ?reply b1" and g: "granted"
      using True by (cases r; simp add: b'_def granted_def ow_FetchForecast_def res Let_def)+
    have "bg_day b1 \<le> utcDay (wo_consumedAt w)" using day1 dc(1) by simp
    note s = settle_frame [OF ok1 this time(2), of ?reply, folded b' m_def]
    have u: "bg_used b1 = bg_used (rollover (wo_now w) b) + 1" "bg_used (rollover (wo_now w) b) < bg_max b" using f(3) True by auto
    have m: "m \<le> ?A" using Client_Get_attempts [OF ok(4)] by (simp add: m_def)
    have M: "bg_max b' = bg_max b" using s(2) f(1) by simp
    have c0: "0 \<le> bg_used (rollover (wo_now w) b)" using rollover_ok [OF ok(1)] by (simp add: budget_ok_def)
    have "(if ?D = day then int m else 0) + day_cap ?A day b' \<le> day_cap ?A day b"
    proof (cases "?D \<le> day")
      case True
      have "bg_day b' = ?D \<Longrightarrow> min (bg_max b) (bg_used (rollover (wo_now w) b) + int m) \<le> bg_used b'" using s(5) u(1) day1 f(1) by simp
      then show ?thesis unfolding cap [OF True] using True s(1,3) m u(2) M c0 day1
        by (auto simp: day_cap_def rd budget_ok_def)
    next
      case False
      then show ?thesis using day_cap_bounds [OF ok(1,2), of ?A day] s(3) by (simp add: day_cap_def [of _ _ b'] day1)
    qed
    then show ?thesis using s(1,3,4) M day1 g by simp
  qed
  then show "budget_ok b'" "bg_max b' = bg_max b" "bg_day b' \<le> utcDay (wo_pausedAt w)"
    "(if utcDay (wo_now w) = day \<and> granted then int m else 0) + day_cap (tc_maxAttempts c) day b' \<le> day_cap (tc_maxAttempts c) day b" by blast+
qed

lemma fetch_calls_capped:
  assumes "in_order t ws" "budget_ok b" "0 < bg_max b" "bg_day b \<le> utcDay t" "0 < tc_maxAttempts c"
  shows "int (calls_on day (fetch_calls lib fl c ws b)) \<le> day_cap (tc_maxAttempts c) day b"
  using assms(1-4)
proof (induction ws arbitrary: t b)
  case Nil
  then show ?case using day_cap_bounds [of b] by (simp add: calls_on_def)
next
  case (Cons x ws)
  obtain w req where x: "x = (w, req)" by (cases x)
  have o: "t \<le> wo_now w" "wo_now w \<le> wo_consumedAt w" "wo_consumedAt w \<le> wo_pausedAt w" "in_order (wo_pausedAt w) ws" using Cons.prems(1) by (simp_all add: x)
  have "bg_day b \<le> utcDay (wo_now w)" using Cons.prems(4) utcDay_mono [OF o(1)] by simp
  note s = fetch_step [where lib = lib and fl = fl and req = req, OF Cons.prems(2,3) this assms(5) o(2,3)]
  have "int (calls_on day (fetch_calls lib fl c ws (the (snd (ow_FetchForecast lib fl c w req (Some b)))))) \<le>
      day_cap (tc_maxAttempts c) day (the (snd (ow_FetchForecast lib fl c w req (Some b))))"
    by (rule Cons.IH [OF o(4)]) (use s(1-3) Cons.prems(3) in simp_all)
  with s(4) [where day = day] show ?case by (auto simp: x calls_on_def split: if_splits)
qed

text \<open>C18. Over every sequence of OpenWeather fetches in clock order, whatever the provider answers, the upstream requests of one UTC day stay
  within the daily budget plus the retries of a single fetch.\<close>

theorem openweather_daily_calls_bounded:
  assumes "0 < max_calls" "in_order t0 ws"
  shows "int (calls_on day (fetch_calls lib fl (ow_client cfg) ws (newDailyBudget max_calls t0))) \<le> max_calls + int (tc_maxAttempts (ow_client cfg)) - 1"
proof -
  let ?b = "newDailyBudget max_calls t0"
  have b: "budget_ok ?b" "0 < bg_max ?b" "bg_day ?b \<le> utcDay t0" using assms(1) by (simp_all add: newDailyBudget_def budget_ok_def)
  have c: "0 < tc_maxAttempts (ow_client cfg)" by (simp add: ow_client_def Client_New_attempts)
  have "int (calls_on day (fetch_calls lib fl (ow_client cfg) ws ?b)) \<le> day_cap (tc_maxAttempts (ow_client cfg)) day ?b"
    by (rule fetch_calls_capped [OF assms(2) b c])
  also have "\<dots> \<le> bg_max ?b - 1 + int (tc_maxAttempts (ow_client cfg))" using day_cap_bounds [OF b(1,2)] by blast
  finally show ?thesis by (simp add: newDailyBudget_def)
qed

text \<open>A provider that always answers 503: one fetch makes five requests against a budget of one.\<close>

definition sample_down :: ow_world where
  "sample_down = \<lparr>wo_now = 0, wo_consumedAt = 0, wo_pausedAt = 0,
     wo_attempts = (\<lambda>_. \<lparr>aw_BackoffEnds = False, aw_LimiterEnds = False, aw_Once = \<lparr>on_Body = [], on_Code = 503, on_RateLimit = None,
       on_RequestID = [], on_Latency = 1, on_Err = None\<rparr>\<rparr>), wo_ids = of_nat\<rparr>"

definition sample_ow_lib :: "ow_response go_lib" where
  "sample_ow_lib = \<lparr>lib_Unmarshal = (\<lambda>_. Inl ''unexpected end of JSON input''), lib_ParseRFC3339 = (\<lambda>_. None), lib_ParseHour = (\<lambda>_. None),
     lib_Quote = (\<lambda>s. s), lib_Fixed2 = (\<lambda>_. [])\<rparr>"

lemma sample_down_attempts:
  "rs_Attempts (fst (get_loop (ow_client sample_client_config) (wo_attempts sample_down) a k r l)) = (if k = 0 then rs_Attempts r else a + k)"
  by (induction k arbitrary: a r l)
    (auto simp: sample_down_def once_ok_def retries_def http_classify_def NewProviderError_def ow_client_def Client_New_def Let_def)

theorem openweather_daily_calls_bounded_witness:
  "calls_on 0 (fetch_calls sample_ow_lib exact (ow_client sample_client_config) [(sample_down, forecast_request id sample_input_coll 0)] (newDailyBudget 1 0)) = 5 \<and>
   int (calls_on 0 (fetch_calls sample_ow_lib exact (ow_client sample_client_config) [(sample_down, forecast_request id sample_input_coll 0)] (newDailyBudget 1 0)))
     \<le> 1 + int (tc_maxAttempts (ow_client sample_client_config)) - 1"
proof
  have c: "tc_maxAttempts (ow_client sample_client_config) = 5" by (simp add: ow_client_def Client_New_def sample_client_config_def)
  have "utcDay 0 = 0" by (simp add: utcDay_eq day_of_def)
  then have "fst (fst (reserve 0 (newDailyBudget 1 0)))" by (simp add: newDailyBudget_def reserve_def rollover_def Let_def)
  moreover have "wo_now sample_down = 0" by (simp add: sample_down_def)
  ultimately show "calls_on 0 (fetch_calls sample_ow_lib exact (ow_client sample_client_config) [(sample_down, forecast_request id sample_input_coll 0)] (newDailyBudget 1 0)) = 5"
    using \<open>utcDay 0 = 0\<close> by (simp add: calls_on_def Client_Get_def sample_down_attempts c)
  show "int (calls_on 0 (fetch_calls sample_ow_lib exact (ow_client sample_client_config) [(sample_down, forecast_request id sample_input_coll 0)] (newDailyBudget 1 0)))
     \<le> 1 + int (tc_maxAttempts (ow_client sample_client_config)) - 1"
    by (rule openweather_daily_calls_bounded [of _ 0]) (simp_all add: sample_down_def)
qed

section \<open>Historical observations\<close>













end
