(* ===== verification/Spec2Isabelle.thy ===== *)
theory Spec2Isabelle
  imports Eval Circuit Collection_Domain Matching Scheduler Ranking Adapters
begin

text \<open>
  A verification development of ForecastIQ, the forecast-accuracy service under \<^verbatim>\<open>src/\<close>.

  HEADER-TODO
\<close>

end
